(* ===== verification/GoBase.thy ===== *)
theory GoBase
  imports Main "HOL-Library.AList" "HOL-Library.Char_ord" "HOL-Library.List_Lexorder"
begin

text \<open>
  The prelude: what the collectors use of the Go language and its standard library, and the
  generic lemmas every component shares.

  \<^item> Strings and byte slices are lists of bytes (\<^typ>\<open>string\<close>); text functions decode UTF-8 the
    way package \<^verbatim>\<open>unicode/utf8\<close> does. Case mapping is modelled on ASCII letters only.
  \<^item> A \<^verbatim>\<open>time.Time\<close> is its instant in nanoseconds since the Unix epoch, an \<^typ>\<open>int\<close>; the zero
    time is 1 January of year 1. A \<^verbatim>\<open>time.Duration\<close> is an \<^typ>\<open>int\<close> of nanoseconds.
  \<^item> An error is a tree of the wrappers the program builds; \<open>errors_is\<close> and \<open>IsFatal\<close> follow the
    \<^verbatim>\<open>Unwrap\<close> chain as \<^verbatim>\<open>errors.Is\<close> and \<^verbatim>\<open>errors.As\<close> do.
  \<^item> A value of type \<^verbatim>\<open>any\<close> is an \<open>anyval\<close>; a Go map is an association list.
\<close>

section \<open>Collections of facts\<close>

named_theorems time_simps \<open>definitions of the time helpers\<close>
named_theorems chain_simps \<open>unwrapping of error chains\<close>

section \<open>Time\<close>

type_synonym time = int
type_synonym duration = int

definition millisecond :: duration where "millisecond = 1000000"
definition second :: duration where "second = 1000000000"
definition minute :: duration where "minute = 60 * 1000000000"
definition hour :: duration where "hour = 3600 * 1000000000"

definition zero_time :: time where "zero_time = - 62135596800 * 1000000000"

definition IsZero :: "time \<Rightarrow> bool" where "IsZero t \<longleftrightarrow> t = zero_time"

text \<open>\<^verbatim>\<open>Time.UnixMilli\<close> rounds towards minus infinity; \<^verbatim>\<open>time.UnixMilli\<close> is its section.\<close>

definition unix_milli :: "time \<Rightarrow> int" where "unix_milli t = t div 1000000"
definition UnixMilli :: "int \<Rightarrow> time" where "UnixMilli ms = ms * 1000000"
definition truncate_second :: "time \<Rightarrow> time" where
  "truncate_second t = t - (t - zero_time) mod second"

lemmas [time_simps] = millisecond_def second_def minute_def hour_def zero_time_def
  IsZero_def unix_milli_def UnixMilli_def truncate_second_def

lemma unix_milli_UnixMilli [simp]: "unix_milli (UnixMilli ms) = ms"
  by (simp add: time_simps)

lemma UnixMilli_unix_milli: "UnixMilli (unix_milli t) = t - t mod 1000000"
  by (simp add: time_simps minus_mod_eq_div_mult)

lemma UnixMilli_unix_milli_le: "UnixMilli (unix_milli t) \<le> t"
  by (simp add: UnixMilli_unix_milli)

lemma UnixMilli_unix_milli_gt: "t < UnixMilli (unix_milli t) + millisecond"
  using pos_mod_bound [of "1000000 :: int" t]
  by (simp add: UnixMilli_unix_milli millisecond_def)

lemma unix_milli_mono: "s \<le> t \<Longrightarrow> unix_milli s \<le> unix_milli t"
  by (simp add: unix_milli_def zdiv_mono1)

lemma truncate_second_le: "truncate_second t \<le> t"
  by (simp add: time_simps)

section \<open>Errors\<close>

text \<open>
  The leaves are \<^verbatim>\<open>errors.New\<close> values and the sentinels the program compares with; the other
  constructors are the wrapping types of the source, each with the error it unwraps to.
\<close>

datatype goerror =
    Err string
  | ErrLeaseLost
  | ErrNoCheckpoint
  | ErrReplayUnavailable
  | ErrCanceled
  | HTTPError int string
  | Wrap string goerror
  | FatalError goerror
  | AuthError goerror
  | SchemaFetchError string goerror
  | MalformedCsv int goerror
  | Joined "goerror list"

type_synonym 'a result = "goerror + 'a"

text \<open>The errors reached from one error through \<^verbatim>\<open>Unwrap\<close>, outermost first.\<close>

fun unwrap_chain :: "goerror \<Rightarrow> goerror list" where
  "unwrap_chain (Wrap s e) = Wrap s e # unwrap_chain e"
| "unwrap_chain (FatalError e) = FatalError e # unwrap_chain e"
| "unwrap_chain (AuthError e) = AuthError e # unwrap_chain e"
| "unwrap_chain (SchemaFetchError s e) = SchemaFetchError s e # unwrap_chain e"
| "unwrap_chain (MalformedCsv n e) = MalformedCsv n e # unwrap_chain e"
| "unwrap_chain (Joined es) = Joined es # concat (map unwrap_chain es)"
| "unwrap_chain e = [e]"

definition errors_is :: "goerror \<Rightarrow> goerror \<Rightarrow> bool" where
  "errors_is e target \<longleftrightarrow> target \<in> set (unwrap_chain e)"

definition errors_as :: "(goerror \<Rightarrow> bool) \<Rightarrow> goerror \<Rightarrow> goerror option" where
  "errors_as p e = find p (unwrap_chain e)"

lemmas [chain_simps] = errors_is_def errors_as_def

section \<open>Values of type any\<close>

text \<open>
  \<open>AFloat m e\<close> is the finite float64 \<open>m * 2 ^ e\<close>. \<open>ANum\<close> is a \<^verbatim>\<open>json.Number\<close>, kept as its literal.
\<close>

datatype anyval =
    ANil
  | ABool bool
  | AInt int
  | AInt32 int
  | AInt64 int
  | AFloat int int
  | AStr string
  | ANum string
  | ATime time
  | ADuration duration
  | ARat int int
  | AList "anyval list"
  | AMap "(string \<times> anyval) list"

type_synonym payload = "(string \<times> anyval) list"
type_synonym attrs = "(string \<times> string) list"

text \<open>\<^verbatim>\<open>int64(v)\<close> of a float64 truncates towards zero.\<close>

definition float_to_int64 :: "int \<Rightarrow> int \<Rightarrow> int" where
  "float_to_int64 m e =
     (if 0 \<le> e then m * 2 ^ nat e else sgn m * (\<bar>m\<bar> div 2 ^ nat (- e)))"

text \<open>The type assertion \<^verbatim>\<open>v.(string)\<close> on a map lookup, with its zero value on failure.\<close>

definition str_field :: "payload \<Rightarrow> string \<Rightarrow> string option" where
  "str_field m k = (case map_of m k of Some (AStr s) \<Rightarrow> Some s | _ \<Rightarrow> None)"

section \<open>Bytes and UTF-8\<close>

abbreviation byte :: "char \<Rightarrow> nat" where "byte c \<equiv> of_char c"

definition is_cont :: "char \<Rightarrow> bool" where
  "is_cont c \<longleftrightarrow> 128 \<le> byte c \<and> byte c < 192"

definition RuneError :: nat where "RuneError = 65533"

text \<open>\<^verbatim>\<open>utf8.DecodeRuneInString\<close>: the first code point and its width; invalid bytes have width 1.\<close>

fun decode_rune :: "string \<Rightarrow> nat \<times> nat" where
  "decode_rune [] = (RuneError, 0)"
| "decode_rune (a # s) =
     (let x = byte a in
      if x < 128 then (x, 1)
      else if 194 \<le> x \<and> x < 224 then
        (case s of
           b # _ \<Rightarrow> if is_cont b then ((x - 192) * 64 + (byte b - 128), 2) else (RuneError, 1)
         | [] \<Rightarrow> (RuneError, 1))
      else if 224 \<le> x \<and> x < 240 then
        (case s of
           b # c # _ \<Rightarrow>
             if is_cont b \<and> is_cont c \<and> (x = 224 \<longrightarrow> 160 \<le> byte b) \<and> (x = 237 \<longrightarrow> byte b < 160)
             then ((x - 224) * 4096 + (byte b - 128) * 64 + (byte c - 128), 3)
             else (RuneError, 1)
         | _ \<Rightarrow> (RuneError, 1))
      else if 240 \<le> x \<and> x < 245 then
        (case s of
           b # c # d # _ \<Rightarrow>
             if is_cont b \<and> is_cont c \<and> is_cont d
                \<and> (x = 240 \<longrightarrow> 144 \<le> byte b) \<and> (x = 244 \<longrightarrow> byte b < 144)
             then ((x - 240) * 262144 + (byte b - 128) * 4096
                    + (byte c - 128) * 64 + (byte d - 128), 4)
             else (RuneError, 1)
         | _ \<Rightarrow> (RuneError, 1))
      else (RuneError, 1))"

text \<open>The byte groups a \<^verbatim>\<open>range\<close> over the string visits.\<close>

function runes :: "string \<Rightarrow> string list" where
  "runes [] = []"
| "runes (a # s) =
     (let w = snd (decode_rune (a # s)) in (a # take (w - 1) s) # runes (drop (w - 1) s))"
  by pat_completeness auto
termination by (relation "measure length") auto

lemma concat_runes [simp]: "concat (runes s) = s"
  by (induction s rule: runes.induct) (simp_all add: Let_def)

lemma runes_nonempty: "r \<in> set (runes s) \<Longrightarrow> r \<noteq> []"
  by (induction s rule: runes.induct) (auto simp: Let_def)

lemma runes_ascii: "\<forall>c \<in> set s. byte c < 128 \<Longrightarrow> runes s = map (\<lambda>c. [c]) s"
  by (induction s) (simp_all add: Let_def)

section \<open>Package strings\<close>

text \<open>\<^verbatim>\<open>unicode.IsSpace\<close>.\<close>

definition is_space :: "nat \<Rightarrow> bool" where
  "is_space r \<longleftrightarrow> (9 \<le> r \<and> r \<le> 13) \<or> r = 32 \<or> r = 133 \<or> r = 160 \<or> r = 5760
     \<or> (8192 \<le> r \<and> r \<le> 8202) \<or> r = 8232 \<or> r = 8233 \<or> r = 8239 \<or> r = 8287 \<or> r = 12288"

definition space_rune :: "string \<Rightarrow> bool" where
  "space_rune r \<longleftrightarrow> is_space (fst (decode_rune r))"

definition TrimSpace :: "string \<Rightarrow> string" where
  "TrimSpace s =
     concat (rev (dropWhile space_rune (rev (dropWhile space_rune (runes s)))))"

definition lower_char :: "char \<Rightarrow> char" where
  "lower_char c = (if 65 \<le> byte c \<and> byte c \<le> 90 then char_of (byte c + 32) else c)"

definition upper_char :: "char \<Rightarrow> char" where
  "upper_char c = (if 97 \<le> byte c \<and> byte c \<le> 122 then char_of (byte c - 32) else c)"

definition ToLower :: "string \<Rightarrow> string" where "ToLower s = map lower_char s"
definition ToUpper :: "string \<Rightarrow> string" where "ToUpper s = map upper_char s"
definition EqualFold :: "string \<Rightarrow> string \<Rightarrow> bool" where
  "EqualFold s t \<longleftrightarrow> ToLower s = ToLower t"

definition HasPrefix :: "string \<Rightarrow> string \<Rightarrow> bool" where
  "HasPrefix s p \<longleftrightarrow> take (length p) s = p"

definition HasSuffix :: "string \<Rightarrow> string \<Rightarrow> bool" where
  "HasSuffix s p \<longleftrightarrow> length p \<le> length s \<and> drop (length s - length p) s = p"

fun Contains :: "string \<Rightarrow> string \<Rightarrow> bool" where
  "Contains [] p = (p = [])"
| "Contains (c # s) p = (HasPrefix (c # s) p \<or> Contains s p)"

definition Trim :: "char \<Rightarrow> string \<Rightarrow> string" where
  "Trim c s = rev (dropWhile ((=) c) (rev (dropWhile ((=) c) s)))"

text \<open>\<^verbatim>\<open>strings.Split\<close> with a one-byte separator, and \<^verbatim>\<open>strings.Join\<close>.\<close>

fun Split :: "string \<Rightarrow> char \<Rightarrow> string list" where
  "Split [] sep = [[]]"
| "Split (c # s) sep =
     (if c = sep then [] # Split s sep
      else (case Split s sep of [] \<Rightarrow> [[c]] | p # ps \<Rightarrow> (c # p) # ps))"

fun Join :: "string list \<Rightarrow> string \<Rightarrow> string" where
  "Join [] sep = []"
| "Join [s] sep = s"
| "Join (s # t # ss) sep = s @ sep @ Join (t # ss) sep"

lemma Split_nonempty [simp]: "Split s sep \<noteq> []"
  by (cases s) (auto split: list.split)

lemma Join_Cons: "ss \<noteq> [] \<Longrightarrow> Join (s # ss) sep = s @ sep @ Join ss sep"
  by (cases ss) auto

lemma Join_Split [simp]: "Join (Split s sep) [sep] = s"
proof (induction s)
  case Nil
  then show ?case by simp
next
  case (Cons c s)
  obtain p ps where ps: "Split s sep = p # ps"
    by (cases "Split s sep") (use Split_nonempty in \<open>auto\<close>)
  have "Join ((c # p) # ps) [sep] = c # Join (p # ps) [sep]"
    by (cases ps) auto
  with Cons ps show ?case by (auto simp: Join_Cons)
qed

lemma Split_part: "sep \<notin> set p \<Longrightarrow> Split p sep = [p]"
  by (induction p) auto

lemma Split_append: "sep \<notin> set p \<Longrightarrow> Split (p @ sep # s) sep = p # Split s sep"
  by (induction p) auto

text \<open>Parts without the separator are read back from their join.\<close>

lemma Split_Join: "ps \<noteq> [] \<Longrightarrow> \<forall>p \<in> set ps. sep \<notin> set p \<Longrightarrow> Split (Join ps [sep]) sep = ps"
  by (induction ps "[sep]" rule: Join.induct) (auto simp: Split_part Split_append)

lemma Join_inject:
  assumes "Join ps [sep] = Join qs [sep]" "ps \<noteq> []" "qs \<noteq> []"
    and "\<forall>p \<in> set ps. sep \<notin> set p" "\<forall>q \<in> set qs. sep \<notin> set q"
  shows "ps = qs"
  using assms by (metis Split_Join)

lemma dropWhile_all: "\<forall>x \<in> set xs. \<not> p x \<Longrightarrow> dropWhile p xs = xs"
  by (cases xs) auto

end
