(* ===== verification/GoSha256.thy ===== *)
theory GoSha256
  imports GoBase "HOL-Library.Word"
begin

unbundle bit_operations_syntax

text \<open>
  Packages \<^verbatim>\<open>crypto/sha256\<close> (\<^verbatim>\<open>Sum256\<close>, FIPS 180-4) and \<^verbatim>\<open>encoding/hex\<close>. The archive hashes
  every object into its manifest, and names partitions and rows by truncated digests, so the
  digest is the real one and evaluates on concrete bytes.
\<close>

section \<open>Words and blocks\<close>

type_synonym w32 = "32 word"

text \<open>
  The constants are the first 32 bits of the fractional parts of the square roots of the first 8
  primes and of the cube roots of the first 64: the integer part of the \<open>k\<close>-th root of \<open>p * 2 ^ (32 * k)\<close>,
  found bit by bit, modulo \<open>2 ^ 32\<close>.
\<close>

definition primes_64 :: "nat list" where
  "primes_64 = filter (\<lambda>p. \<forall>d \<in> set [2..<p]. \<not> d dvd p) [2..<312]"

fun iroot_bits :: "nat \<Rightarrow> nat \<Rightarrow> nat \<Rightarrow> nat \<Rightarrow> nat" where
  "iroot_bits k x 0 r = r"
| "iroot_bits k x (Suc b) r = iroot_bits k x b (if (r + 2 ^ b) ^ k \<le> x then r + 2 ^ b else r)"

definition root_fraction :: "nat \<Rightarrow> nat \<Rightarrow> w32" where
  "root_fraction k p = of_nat (iroot_bits k (p * 2 ^ (32 * k)) 38 0)"

definition sha_init :: "w32 list" where
  "sha_init = map (root_fraction 2) [2, 3, 5, 7, 11, 13, 17, 19]"

definition sha_K :: "w32 list" where
  "sha_K = map (root_fraction 3) primes_64"

definition big_sigma0 :: "w32 \<Rightarrow> w32" where
  "big_sigma0 x = word_rotr 2 x XOR word_rotr 13 x XOR word_rotr 22 x"
definition big_sigma1 :: "w32 \<Rightarrow> w32" where
  "big_sigma1 x = word_rotr 6 x XOR word_rotr 11 x XOR word_rotr 25 x"
definition small_sigma0 :: "w32 \<Rightarrow> w32" where
  "small_sigma0 x = word_rotr 7 x XOR word_rotr 18 x XOR drop_bit 3 x"
definition small_sigma1 :: "w32 \<Rightarrow> w32" where
  "small_sigma1 x = word_rotr 17 x XOR word_rotr 19 x XOR drop_bit 10 x"
definition sha_ch :: "w32 \<Rightarrow> w32 \<Rightarrow> w32 \<Rightarrow> w32" where
  "sha_ch x y z = (x AND y) XOR (NOT x AND z)"
definition sha_maj :: "w32 \<Rightarrow> w32 \<Rightarrow> w32 \<Rightarrow> w32" where
  "sha_maj x y z = (x AND y) XOR (x AND z) XOR (y AND z)"

text \<open>The message schedule, kept as its last sixteen words, oldest first.\<close>

fun sched_next :: "w32 list \<Rightarrow> w32" where
  "sched_next ws = small_sigma1 (ws ! 14) + ws ! 9 + small_sigma0 (ws ! 1) + ws ! 0"

fun sha_round :: "w32 \<Rightarrow> w32 \<Rightarrow> w32 list \<Rightarrow> w32 list" where
  "sha_round k w [a, b, c, d, e, f, g, h] =
     (let t1 = h + big_sigma1 e + sha_ch e f g + k + w;
          t2 = big_sigma0 a + sha_maj a b c
      in [t1 + t2, a, b, c, d + t1, e, f, g])"
| "sha_round k w hs = hs"

fun sha_rounds :: "w32 list \<Rightarrow> w32 list \<Rightarrow> w32 list \<Rightarrow> w32 list" where
  "sha_rounds [] ws hs = hs"
| "sha_rounds (k # ks) ws hs = sha_rounds ks (tl ws @ [sched_next ws]) (sha_round k (hd ws) hs)"

definition sha_block :: "w32 list \<Rightarrow> w32 list \<Rightarrow> w32 list" where
  "sha_block hs ws = map2 (+) hs (sha_rounds sha_K ws hs)"

section \<open>Padding and the digest\<close>

fun be_words :: "int list \<Rightarrow> w32 list" where
  "be_words (a # b # c # d # r) =
     word_of_int (((a * 256 + b) * 256 + c) * 256 + d) # be_words r"
| "be_words _ = []"

definition be64 :: "int \<Rightarrow> int list" where
  "be64 n = map (\<lambda>i. n div 256 ^ i mod 256) [7, 6, 5, 4, 3, 2, 1, 0]"

definition sha_pad :: "int list \<Rightarrow> int list" where
  "sha_pad m =
     m @ [128] @ replicate ((119 - length m mod 64) mod 64) 0 @ be64 (8 * int (length m))"

function sha_blocks :: "w32 list \<Rightarrow> w32 list \<Rightarrow> w32 list" where
  "sha_blocks hs ws =
     (if length ws < 16 then hs else sha_blocks (sha_block hs (take 16 ws)) (drop 16 ws))"
  by pat_completeness auto
termination by (relation "measure (length \<circ> snd)") auto

declare sha_blocks.simps [simp del]

definition word_bytes :: "w32 \<Rightarrow> int list" where
  "word_bytes w = map (\<lambda>i. uint w div 256 ^ i mod 256) [3, 2, 1, 0]"

definition Sum256 :: "string \<Rightarrow> string" where
  "Sum256 m = map char_of (concat (map word_bytes
     (sha_blocks sha_init (be_words (sha_pad (map of_char m))))))"

section \<open>Hexadecimal\<close>

definition hex_digit :: "nat \<Rightarrow> char" where
  "hex_digit n = char_of (if n < 10 then 48 + n else 87 + n)"

fun hex_encode :: "string \<Rightarrow> string" where
  "hex_encode [] = []"
| "hex_encode (c # s) = hex_digit (byte c div 16) # hex_digit (byte c mod 16) # hex_encode s"

lemma length_hex_encode [simp]: "length (hex_encode s) = 2 * length s"
  by (induction s) auto

lemma hex_digit_byte: "n < 16 \<Longrightarrow> byte (hex_digit n) = (if n < 10 then 48 + n else 87 + n)"
  by (simp add: hex_digit_def)

lemma hex_digit_inject: "m < 16 \<Longrightarrow> n < 16 \<Longrightarrow> hex_digit m = hex_digit n \<longleftrightarrow> m = n"
  by (drule arg_cong [where f = byte] | auto simp: hex_digit_byte split: if_splits)+

lemma byte_nibbles [simp]: "byte c div 16 < 16" "byte c mod 16 < 16"
  by (simp_all add: less_mult_imp_div_less)

lemma hex_encode_inject: "hex_encode s = hex_encode t \<longleftrightarrow> s = t"
proof (induction s arbitrary: t)
  case Nil
  then show ?case by (cases t) auto
next
  case (Cons c s)
  show ?case
  proof (cases t)
    case Nil
    then show ?thesis by simp
  next
    case (Cons d u)
    have "byte c div 16 = byte d div 16 \<and> byte c mod 16 = byte d mod 16 \<longleftrightarrow> byte c = byte d"
      by (metis div_mult_mod_eq)
    then show ?thesis
      using Cons Cons.IH [of u] by (auto simp: hex_digit_inject byte_nibbles)
  qed
qed

lemma hex_digit_range:
  "n < 16 \<Longrightarrow> (48 \<le> byte (hex_digit n) \<and> byte (hex_digit n) \<le> 57)
     \<or> (97 \<le> byte (hex_digit n) \<and> byte (hex_digit n) \<le> 102)"
  by (simp add: hex_digit_byte)

lemma hex_encode_chars:
  "c \<in> set (hex_encode s) \<Longrightarrow> (48 \<le> byte c \<and> byte c \<le> 57) \<or> (97 \<le> byte c \<and> byte c \<le> 102)"
proof (induction s)
  case (Cons a s)
  then show ?case
    using hex_digit_range [OF byte_nibbles(1), of a] hex_digit_range [OF byte_nibbles(2), of a]
    by auto
qed simp

lemma length_sha_block: "length hs = 8 \<Longrightarrow> length (sha_block hs ws) = 8"
proof -
  have round: "length (sha_round k w hs) = length hs" for k w hs
    by (cases "(k, w, hs)" rule: sha_round.cases) (auto simp: Let_def)
  have "length (sha_rounds ks ws hs) = length hs" for ks ws hs
    by (induction ks ws hs rule: sha_rounds.induct) (auto simp: round)
  then show "length hs = 8 \<Longrightarrow> length (sha_block hs ws) = 8"
    by (simp add: sha_block_def)
qed

lemma length_sha_blocks: "length hs = 8 \<Longrightarrow> length (sha_blocks hs ws) = 8"
proof (induction hs ws rule: sha_blocks.induct)
  case (1 hs ws)
  then show ?case
    by (subst sha_blocks.simps) (simp add: length_sha_block)
qed

lemma length_Sum256 [simp]: "length (Sum256 m) = 32"
proof -
  have "length (concat (map word_bytes ws)) = 4 * length ws" for ws
    by (induction ws) (auto simp: word_bytes_def)
  moreover have "length (sha_blocks sha_init ws) = 8" for ws
    by (rule length_sha_blocks) (simp add: sha_init_def)
  ultimately show ?thesis by (simp add: Sum256_def)
qed

end
