(* ===== verification/GoTime.thy ===== *)
theory GoTime
  imports GoFormat
begin

text \<open>
  The parts of package \<^verbatim>\<open>time\<close> that print and parse civil dates: the year, month, day and hour of an
  instant in UTC (proleptic Gregorian calendar), \<^verbatim>\<open>Format(time.RFC3339)\<close> in UTC, and \<^verbatim>\<open>time.Parse\<close>
  for the layouts the collectors name. A parse result is the instant, or \<open>None\<close> for an error.
\<close>

section \<open>Civil dates\<close>

definition nanos_per_day :: int where "nanos_per_day = 86400 * 1000000000"

text \<open>Days since the epoch to year, month and day, by 400-year eras starting on 1 March.\<close>

definition civil_from_days :: "int \<Rightarrow> int \<times> int \<times> int" where
  "civil_from_days days =
     (let z = days + 719468;
          era = z div 146097;
          doe = z mod 146097;
          yoe = (doe - doe div 1460 + doe div 36524 - doe div 146096) div 365;
          doy = doe - (365 * yoe + yoe div 4 - yoe div 100);
          mp = (5 * doy + 2) div 153;
          d = doy - (153 * mp + 2) div 5 + 1;
          m = (if mp < 10 then mp + 3 else mp - 9)
      in (yoe + era * 400 + (if m \<le> 2 then 1 else 0), m, d))"

definition days_from_civil :: "int \<Rightarrow> int \<Rightarrow> int \<Rightarrow> int" where
  "days_from_civil y m d =
     (let y' = (if m \<le> 2 then y - 1 else y);
          era = y' div 400;
          yoe = y' mod 400;
          doy = (153 * (if m > 2 then m - 3 else m + 9) + 2) div 5 + d - 1;
          doe = yoe * 365 + yoe div 4 - yoe div 100 + doy
      in era * 146097 + doe - 719468)"

definition Year :: "time \<Rightarrow> int" where "Year t = fst (civil_from_days (t div nanos_per_day))"
definition Month :: "time \<Rightarrow> int" where "Month t = fst (snd (civil_from_days (t div nanos_per_day)))"
definition Day :: "time \<Rightarrow> int" where "Day t = snd (snd (civil_from_days (t div nanos_per_day)))"
definition Hour :: "time \<Rightarrow> int" where "Hour t = t mod nanos_per_day div 3600000000000"
definition Minute :: "time \<Rightarrow> int" where "Minute t = t mod 3600000000000 div 60000000000"
definition Second :: "time \<Rightarrow> int" where "Second t = t mod 60000000000 div 1000000000"

lemma Hour_range: "0 \<le> Hour t \<and> Hour t < 24"
proof -
  let ?x = "t mod nanos_per_day"
  have "0 \<le> ?x" "?x \<le> 86399999999999"
    using pos_mod_bound [of nanos_per_day t] by (simp_all add: nanos_per_day_def)
  then have "0 \<le> ?x div 3600000000000" "?x div 3600000000000 \<le> 86399999999999 div 3600000000000"
    by (simp_all only: pos_imp_zdiv_nonneg_iff zdiv_mono1 zero_less_numeral)
  then show ?thesis by (simp add: Hour_def)
qed

text \<open>\<^verbatim>\<open>t.UTC().Format(time.RFC3339)\<close>.\<close>

definition format_RFC3339 :: "time \<Rightarrow> string" where
  "format_RFC3339 t =
     pad0 4 (Year t) @ ''-'' @ pad0 2 (Month t) @ ''-'' @ pad0 2 (Day t) @ ''T''
     @ pad0 2 (Hour t) @ '':'' @ pad0 2 (Minute t) @ '':'' @ pad0 2 (Second t) @ ''Z''"

section \<open>Parsing\<close>

type_synonym 'a scan = "string \<Rightarrow> ('a \<times> string) option"

text \<open>Exactly \<open>n\<close> digits; the one-or-two digit hour of layout element \<^verbatim>\<open>15\<close>; a literal byte.\<close>

definition scan_fixed :: "nat \<Rightarrow> int scan" where
  "scan_fixed n s =
     (if length (takeWhile is_digit (take n s)) = n
      then Some (int (digits_val (take n s)), drop n s) else None)"

definition scan_hour :: "int scan" where
  "scan_hour s =
     (case s of
        [] \<Rightarrow> None
      | c # r \<Rightarrow>
          if \<not> is_digit c then None
          else (case r of
                  [] \<Rightarrow> Some (int (digit_val c), r)
                | d # r' \<Rightarrow>
                    if is_digit d then Some (int (digits_val [c, d]), r')
                    else Some (int (digit_val c), r)))"

definition scan_char :: "char \<Rightarrow> unit scan" where
  "scan_char c s = (case s of [] \<Rightarrow> None | d # r \<Rightarrow> if c = d then Some ((), r) else None)"

definition bind_scan :: "'a scan \<Rightarrow> ('a \<Rightarrow> 'b scan) \<Rightarrow> 'b scan" where
  "bind_scan p f s = (case p s of None \<Rightarrow> None | Some (a, r) \<Rightarrow> f a r)"

definition return_scan :: "'a \<Rightarrow> 'a scan" where "return_scan a s = Some (a, s)"

definition guard_scan :: "bool \<Rightarrow> unit scan" where
  "guard_scan b s = (if b then Some ((), s) else None)"

definition is_leap :: "int \<Rightarrow> bool" where
  "is_leap y \<longleftrightarrow> y mod 4 = 0 \<and> (y mod 100 \<noteq> 0 \<or> y mod 400 = 0)"

definition days_in :: "int \<Rightarrow> int \<Rightarrow> int" where
  "days_in m y =
     (if m = 2 then (if is_leap y then 29 else 28)
      else if m \<in> {4, 6, 9, 11} then 30 else 31)"

text \<open>
  The date and the time of day with the separators of the layout (empty ones for
  \<^verbatim>\<open>20060102150405\<close>), range checks included. The result is the instant as if in UTC.
\<close>

definition scan_datetime :: "bool \<Rightarrow> time scan" where
  "scan_datetime seps =
     (let sep = (\<lambda>c. if seps then scan_char c else return_scan ()) in
      bind_scan (scan_fixed 4) (\<lambda>y. bind_scan (sep (CHR ''-'')) (\<lambda>_.
      bind_scan (scan_fixed 2) (\<lambda>mo. bind_scan (guard_scan (1 \<le> mo \<and> mo \<le> 12)) (\<lambda>_.
      bind_scan (sep (CHR ''-'')) (\<lambda>_.
      bind_scan (scan_fixed 2) (\<lambda>d. bind_scan (sep (CHR ''T'')) (\<lambda>_.
      bind_scan scan_hour (\<lambda>h. bind_scan (guard_scan (h < 24)) (\<lambda>_.
      bind_scan (sep (CHR '':'')) (\<lambda>_.
      bind_scan (scan_fixed 2) (\<lambda>mi. bind_scan (guard_scan (mi < 60)) (\<lambda>_.
      bind_scan (sep (CHR '':'')) (\<lambda>_.
      bind_scan (scan_fixed 2) (\<lambda>s. bind_scan (guard_scan (s < 60)) (\<lambda>_.
      bind_scan (guard_scan (1 \<le> d \<and> d \<le> days_in mo y)) (\<lambda>_.
      return_scan (days_from_civil y mo d * nanos_per_day
        + h * 3600000000000 + mi * 60000000000 + s * 1000000000))))))))))))))))))"

text \<open>The nanoseconds of a run of fraction digits: the first nine count.\<close>

definition frac_nanos :: "string \<Rightarrow> int" where
  "frac_nanos ds = int (digits_val (take 9 (ds @ replicate 9 (CHR ''0''))))"

text \<open>
  A fraction: optional with any number of digits (\<^verbatim>\<open>.999999\<close> layouts), or exactly three digits
  (\<^verbatim>\<open>.000\<close>). Both a period and a comma introduce it.
\<close>

definition frac_start :: "string \<Rightarrow> bool" where
  "frac_start s = (case s of c # d # _ \<Rightarrow> (c = CHR ''.'' \<or> c = CHR '','') \<and> is_digit d | _ \<Rightarrow> False)"

definition scan_frac_opt :: "int scan" where
  "scan_frac_opt s =
     (if frac_start s then Some (frac_nanos (takeWhile is_digit (tl s)), dropWhile is_digit (tl s))
      else Some (0, s))"

definition scan_frac3 :: "int scan" where
  "scan_frac3 s =
     (if frac_start s \<and> length (takeWhile is_digit (take 3 (tl s))) = 3
      then Some (frac_nanos (take 3 (tl s)), drop 4 s) else None)"

text \<open>A zone: \<^verbatim>\<open>-0700\<close>, \<^verbatim>\<open>Z0700\<close> or \<^verbatim>\<open>Z07:00\<close>; the value is the offset from UTC.\<close>

definition scan_offset :: "bool \<Rightarrow> duration scan" where
  "scan_offset colon s =
     (case s of
        [] \<Rightarrow> None
      | c # r \<Rightarrow>
          if c \<noteq> CHR ''+'' \<and> c \<noteq> CHR ''-'' then None
          else bind_scan (scan_fixed 2) (\<lambda>h.
            bind_scan (if colon then scan_char (CHR '':'') else return_scan ()) (\<lambda>_.
            bind_scan (scan_fixed 2) (\<lambda>m.
            bind_scan (guard_scan (h \<le> 24 \<and> m \<le> 60)) (\<lambda>_.
            return_scan ((if c = CHR ''-'' then -1 else 1) * (h * 60 + m) * 60000000000))))) r)"

definition scan_zone :: "bool \<Rightarrow> bool \<Rightarrow> duration scan" where
  "scan_zone zulu colon s =
     (case s of
        [] \<Rightarrow> scan_offset colon s
      | c # r \<Rightarrow> if zulu \<and> c = CHR ''Z'' then Some (0, r) else scan_offset colon s)"

definition full_scan :: "time scan \<Rightarrow> string \<Rightarrow> time option" where
  "full_scan p s = (case p s of Some (t, []) \<Rightarrow> Some t | _ \<Rightarrow> None)"

definition scan_with :: "bool \<Rightarrow> int scan \<Rightarrow> duration scan \<Rightarrow> time scan" where
  "scan_with seps frac zone =
     bind_scan (scan_datetime seps) (\<lambda>t. bind_scan frac (\<lambda>ns. bind_scan zone (\<lambda>off.
       return_scan (t + ns - off))))"

text \<open>
  \<^verbatim>\<open>time.Parse\<close> of the layouts \<^verbatim>\<open>2006-01-02T15:04:05.999999-0700\<close>,
  \<^verbatim>\<open>2006-01-02T15:04:05.000Z0700\<close>, \<^verbatim>\<open>time.RFC3339Nano\<close> and \<^verbatim>\<open>20060102150405.999999\<close>.
\<close>

definition parse_LogDateFormat :: "string \<Rightarrow> time option" where
  "parse_LogDateFormat = full_scan (scan_with True scan_frac_opt (scan_zone False False))"

definition parse_millis_Z0700 :: "string \<Rightarrow> time option" where
  "parse_millis_Z0700 = full_scan (scan_with True scan_frac3 (scan_zone True False))"

definition parse_RFC3339Nano :: "string \<Rightarrow> time option" where
  "parse_RFC3339Nano = full_scan (scan_with True scan_frac_opt (scan_zone True True))"

definition parse_compact :: "string \<Rightarrow> time option" where
  "parse_compact = full_scan (scan_with False scan_frac_opt (return_scan 0))"

lemmas scan_simps =
  scan_fixed_def scan_hour_def scan_char_def bind_scan_def return_scan_def guard_scan_def
  scan_datetime_def scan_frac_opt_def scan_frac3_def frac_start_def frac_nanos_def
  scan_offset_def scan_zone_def full_scan_def scan_with_def parse_LogDateFormat_def
  parse_millis_Z0700_def parse_RFC3339Nano_def parse_compact_def days_in_def is_leap_def
  is_digit_def digits_val_def digit_val_def days_from_civil_def nanos_per_day_def Let_def

end
