(* ===== verification/Archive.thy ===== *)
theory Archive
  imports GoSha256 GoTime
begin

text \<open>
  Package \<^verbatim>\<open>internal/archive\<close>: records, object metadata and manifests, object keys, and the streaming
  encoder that turns records into one gzip-compressed NDJSON object.

  JSON encoding and gzip are parameters, the \<open>codec\<close>: \<open>jsonEncode\<close> is one line as
  \<^verbatim>\<open>json.Encoder\<close> writes it, or its error; \<open>gzip\<close> is the compressed stream; \<open>gunzip\<close> and \<open>jsonDecode\<close>
  are the readers (\<open>jsonDecode\<close> gives the values before the end of input or the error). A record
  writer callback \<open>fill\<close> maps the encoder it is handed to the encoder after its last
  \<^verbatim>\<open>WriteRecord\<close>, or to the error it returns.
\<close>

section \<open>Data\<close>

definition SourceStream :: string where "SourceStream = ''stream''"
definition SourceEventLog :: string where "SourceEventLog = ''eventlog''"
definition SourceSOQL :: string where "SourceSOQL = ''soql''"
definition SourceLimits :: string where "SourceLimits = ''limits''"

definition ManifestVersion :: int where "ManifestVersion = 2"
definition CollectorName :: string where "CollectorName = ''salesforce-s3-archiver''"
definition CollectorVersion :: string where "CollectorVersion = ''dev''"

record Record =
  rec_Type :: string
  rec_Timestamp :: time
  rec_Id :: string
  rec_Payload :: "payload option"
  rec_ReplayId :: string

record ObjectMeta =
  meta_Source :: string
  meta_OrgId :: string
  meta_Instance :: string
  meta_Env :: string
  meta_EventType :: string
  meta_PartitionTime :: time
  meta_Name :: string
  meta_Lineage :: attrs

record Manifest =
  man_ManifestVersion :: int
  man_Collector :: string
  man_CollectorVersion :: string
  man_Source :: string
  man_OrgId :: string
  man_Instance :: string
  man_EventType :: string
  man_ObjectKey :: string
  man_RecordCount :: int
  man_UncompressedBytes :: int
  man_CompressedBytes :: int
  man_SHA256 :: string
  man_FirstTimestamp :: "time option"
  man_LastTimestamp :: "time option"
  man_IngestedAt :: time
  man_Lineage :: attrs

record Line =
  line_EventId :: string
  line_EventType :: string
  line_Timestamp :: time
  line_Source :: string
  line_Env :: string
  line_OrgId :: string
  line_Instance :: string
  line_ReplayId :: string
  line_Payload :: payload

record codec =
  jsonEncode :: "Line \<Rightarrow> string result"
  gzip :: "string \<Rightarrow> string"
  gunzip :: "string \<Rightarrow> string result"
  jsonDecode :: "string \<Rightarrow> Line list \<times> goerror option"
  manEncode :: "Manifest \<Rightarrow> string result"
  manDecode :: "string \<Rightarrow> Manifest result"

text \<open>A context is the instant at which it is done, if ever; \<^verbatim>\<open>ctx.Err()\<close> is asked at an instant.\<close>

type_synonym ctx = "time option"

definition ctx_done :: "ctx \<Rightarrow> time \<Rightarrow> bool" where
  "ctx_done c now = (case c of None \<Rightarrow> False | Some t \<Rightarrow> t \<le> now)"

section \<open>Object keys\<close>

definition key_char :: "char \<Rightarrow> bool" where
  "key_char c \<longleftrightarrow>
     (65 \<le> byte c \<and> byte c \<le> 90) \<or> (97 \<le> byte c \<and> byte c \<le> 122) \<or> (48 \<le> byte c \<and> byte c \<le> 57)
     \<or> c = CHR ''_'' \<or> c = CHR ''.'' \<or> c = CHR ''-''"

text \<open>\<^verbatim>\<open>unsafeKeyChars.ReplaceAllString(_, "_")\<close> replaces each unsafe code point.\<close>

definition safe_rune :: "string \<Rightarrow> string" where
  "safe_rune r = (case r of [c] \<Rightarrow> if key_char c then [c] else ''_'' | _ \<Rightarrow> ''_'')"

definition replace_unsafe :: "string \<Rightarrow> string" where
  "replace_unsafe s = concat (map safe_rune (runes s))"

definition sanitize :: "string \<Rightarrow> string \<Rightarrow> string" where
  "sanitize s fallback =
     (let trimmed = TrimSpace s;
          clean = replace_unsafe trimmed
      in if clean = [] then fallback
         else if clean \<noteq> trimmed then clean @ ''-'' @ hex_encode (take 3 (Sum256 trimmed))
         else clean)"

text \<open>The eight random bytes are an argument.\<close>

definition UniqueName :: "time \<Rightarrow> string \<Rightarrow> string" where
  "UniqueName now b = Itoa (unix_milli now) @ ''-'' @ hex_encode b"

definition partition_path :: "ObjectMeta \<Rightarrow> string" where
  "partition_path meta =
     (let t = meta_PartitionTime meta in
      ''source='' @ sanitize (meta_Source meta) ''unknown''
      @ ''/org_id='' @ sanitize (meta_OrgId meta) ''unknown''
      @ ''/event_type='' @ sanitize (meta_EventType meta) ''unknown''
      @ ''/year='' @ pad0 4 (Year t) @ ''/month='' @ pad0 2 (Month t)
      @ ''/day='' @ pad0 2 (Day t) @ ''/hour='' @ pad0 2 (Hour t))"

definition ObjectPaths :: "ObjectMeta \<Rightarrow> string \<Rightarrow> string \<times> string" where
  "ObjectPaths meta name =
     (let partition = partition_path meta; name' = sanitize name ''object''
      in (''raw/'' @ partition @ ''/'' @ name' @ ''.json.gz'',
          ''manifests/'' @ partition @ ''/'' @ name' @ ''.manifest.json''))"

definition joinPrefix :: "string \<Rightarrow> string \<Rightarrow> string" where
  "joinPrefix prefix key =
     (let p = Trim (CHR ''/'') prefix in if p = [] then key else p @ ''/'' @ key)"

lemma key_char_simps [simp]:
  "\<not> key_char (CHR ''/'')" "\<not> key_char (CHR ''='')" "\<not> key_char (CHR '' '')"
  "key_char (CHR ''_'')" "key_char (CHR ''-'')"
  by (simp_all add: key_char_def)

lemma key_char_ascii: "key_char c \<Longrightarrow> byte c < 128"
  by (auto simp: key_char_def)

lemma space_rune_ascii: "byte c < 128 \<Longrightarrow> space_rune [c] \<Longrightarrow> byte c \<le> 32"
  by (simp add: space_rune_def is_space_def Let_def) linarith

lemma key_char_byte: "key_char c \<Longrightarrow> 45 \<le> byte c"
  by (auto simp: key_char_def)

lemma key_char_not_space: "key_char c \<Longrightarrow> \<not> space_rune [c]"
  using key_char_byte [of c] key_char_ascii [of c] space_rune_ascii [of c] by auto

lemma safe_rune_chars: "c \<in> set (safe_rune r) \<Longrightarrow> key_char c"
  by (auto simp: safe_rune_def split: list.splits if_splits)

lemma replace_unsafe_chars: "c \<in> set (replace_unsafe s) \<Longrightarrow> key_char c"
  by (auto simp: replace_unsafe_def dest: safe_rune_chars)

lemma hex_key_char: "c \<in> set (hex_encode s) \<Longrightarrow> key_char c"
  by (auto simp: key_char_def dest: hex_encode_chars)

lemma digit_key_char: "is_digit c \<Longrightarrow> key_char c"
  by (auto simp: key_char_def is_digit_def)

lemma sanitize_chars: "\<forall>c \<in> set f. key_char c \<Longrightarrow> c \<in> set (sanitize s f) \<Longrightarrow> key_char c"
  using replace_unsafe_chars [of c "TrimSpace s"]
  by (auto simp: sanitize_def Let_def hex_key_char split: if_splits)

lemma clean_runes:
  assumes "\<forall>c \<in> set s. key_char c"
  shows "runes s = map (\<lambda>c. [c]) s"
  using assms by (intro runes_ascii) (auto dest: key_char_ascii)

lemma TrimSpace_clean:
  assumes "\<forall>c \<in> set s. key_char c"
  shows "TrimSpace s = s"
proof -
  have keep: "dropWhile space_rune (map (\<lambda>c. [c]) xs) = map (\<lambda>c. [c]) xs"
    if "set xs \<subseteq> set s" for xs
    using that assms by (cases xs) (auto dest: key_char_not_space)
  have "dropWhile space_rune (rev (map (\<lambda>c. [c]) s)) = map (\<lambda>c. [c]) (rev s)"
    using keep [of "rev s"] by (simp add: rev_map)
  moreover have "concat (map (\<lambda>c. [c]) s) = s"
    by (induction s) auto
  ultimately show ?thesis
    using keep [of s] by (simp add: TrimSpace_def clean_runes [OF assms] rev_map)
qed

lemma replace_unsafe_clean: "\<forall>c \<in> set s. key_char c \<Longrightarrow> replace_unsafe s = s"
  by (simp add: replace_unsafe_def clean_runes, induction s) (auto simp: safe_rune_def)

lemma sanitize_clean: "\<forall>c \<in> set s. key_char c \<Longrightarrow> s \<noteq> [] \<Longrightarrow> sanitize s f = s"
  by (simp add: sanitize_def TrimSpace_clean replace_unsafe_clean)

lemma sanitize_empty: "sanitize [] f = f"
  by (simp add: sanitize_def TrimSpace_def replace_unsafe_def)

lemma UniqueName_clean: "c \<in> set (UniqueName now b) \<Longrightarrow> key_char c"
proof -
  have "key_char c" if "c \<in> set (Itoa i)" for i
    using Itoa_chars [OF that] digit_key_char by auto
  moreover assume "c \<in> set (UniqueName now b)"
  ultimately show ?thesis
    using hex_key_char [of c b] by (auto simp: UniqueName_def)
qed

lemma UniqueName_nonempty: "UniqueName now b \<noteq> []"
  by (simp add: UniqueName_def)

lemma sanitize_UniqueName [simp]: "sanitize (UniqueName now b) f = UniqueName now b"
  using sanitize_clean [OF _ UniqueName_nonempty] UniqueName_clean by blast

text \<open>
  A key is the join of its components, and no component contains a slash: a key determines its
  components.
\<close>

definition path_part :: "string \<Rightarrow> bool" where "path_part s \<longleftrightarrow> CHR ''/'' \<notin> set s"

lemma path_part_simps [simp]:
  "path_part []" "path_part (c # s) \<longleftrightarrow> c \<noteq> CHR ''/'' \<and> path_part s"
  "path_part (s @ t) \<longleftrightarrow> path_part s \<and> path_part t"
  by (auto simp: path_part_def)

lemma path_part_sanitize: "\<forall>c \<in> set f. key_char c \<Longrightarrow> path_part (sanitize s f)"
  using sanitize_chars [of f "CHR ''/''" s] by (auto simp: path_part_def)

lemma path_part_sanitize_fallbacks [simp]:
  "path_part (sanitize s ''unknown'')" "path_part (sanitize s ''object'')"
  by (rule path_part_sanitize, simp add: key_char_def)+

lemma path_part_pad0 [simp]: "path_part (pad0 w i)"
  by (auto simp: path_part_def is_digit_def dest!: pad0_chars)

definition partition_parts :: "ObjectMeta \<Rightarrow> string list" where
  "partition_parts meta =
     (let t = meta_PartitionTime meta in
      [''source='' @ sanitize (meta_Source meta) ''unknown'',
       ''org_id='' @ sanitize (meta_OrgId meta) ''unknown'',
       ''event_type='' @ sanitize (meta_EventType meta) ''unknown'',
       ''year='' @ pad0 4 (Year t), ''month='' @ pad0 2 (Month t),
       ''day='' @ pad0 2 (Day t), ''hour='' @ pad0 2 (Hour t)])"

lemma partition_path_join: "partition_path meta = Join (partition_parts meta) ''/''"
  by (simp add: partition_path_def partition_parts_def Let_def)

lemma data_key_join:
  "fst (ObjectPaths meta name) =
     Join (''raw'' # partition_parts meta @ [sanitize name ''object'' @ ''.json.gz'']) ''/''"
  by (simp add: ObjectPaths_def partition_path_def partition_parts_def Let_def)

lemma manifest_key_join:
  "snd (ObjectPaths meta name) =
     Join (''manifests'' # partition_parts meta @ [sanitize name ''object'' @ ''.manifest.json'']) ''/''"
  by (simp add: ObjectPaths_def partition_path_def partition_parts_def Let_def)

lemma partition_parts_slash_free: "\<forall>p \<in> set (partition_parts meta). path_part p"
  by (simp add: partition_parts_def Let_def)

lemma data_key_inject:
  assumes "fst (ObjectPaths m n) = fst (ObjectPaths m' n')"
  shows "partition_parts m = partition_parts m' \<and> sanitize n ''object'' = sanitize n' ''object''"
proof -
  have "''raw'' # partition_parts m @ [sanitize n ''object'' @ ''.json.gz'']
      = ''raw'' # partition_parts m' @ [sanitize n' ''object'' @ ''.json.gz'']"
    using assms partition_parts_slash_free [of m] partition_parts_slash_free [of m']
      path_part_sanitize_fallbacks(2) [of n] path_part_sanitize_fallbacks(2) [of n']
    unfolding data_key_join by (intro Join_inject) (auto simp: path_part_def)
  then show ?thesis by simp
qed

lemma manifest_key_inject:
  assumes "snd (ObjectPaths m n) = snd (ObjectPaths m' n')"
  shows "partition_parts m = partition_parts m' \<and> sanitize n ''object'' = sanitize n' ''object''"
proof -
  have "''manifests'' # partition_parts m @ [sanitize n ''object'' @ ''.manifest.json'']
      = ''manifests'' # partition_parts m' @ [sanitize n' ''object'' @ ''.manifest.json'']"
    using assms partition_parts_slash_free [of m] partition_parts_slash_free [of m']
      path_part_sanitize_fallbacks(2) [of n] path_part_sanitize_fallbacks(2) [of n']
    unfolding manifest_key_join by (intro Join_inject) (auto simp: path_part_def)
  then show ?thesis by simp
qed

lemma data_key_not_manifest_key: "fst (ObjectPaths m n) \<noteq> snd (ObjectPaths m' n')"
  by (simp add: ObjectPaths_def Let_def)

text \<open>Distinct random suffixes give distinct object keys, whatever the metadata and the clock.\<close>

lemma UniqueName_inject: "UniqueName now b = UniqueName now' b' \<Longrightarrow> b = b'"
proof -
  have rev_cut: "xs = ys" if "u @ d # xs = v @ d # ys" "d \<notin> set xs" "d \<notin> set ys" for u v xs ys :: string and d
  proof -
    have "takeWhile (\<lambda>c. c \<noteq> d) (rev (u @ d # xs)) = rev xs"
      "takeWhile (\<lambda>c. c \<noteq> d) (rev (v @ d # ys)) = rev ys"
      using that(2,3) by (auto simp: takeWhile_append)
    then show ?thesis using that(1) by simp
  qed
  have dash: "CHR ''-'' \<notin> set (hex_encode s)" for s
    using hex_encode_chars [of "CHR ''-''" s] by auto
  show "UniqueName now b = UniqueName now' b' \<Longrightarrow> b = b'"
    using rev_cut [OF _ dash dash, of "Itoa (unix_milli now)" b "Itoa (unix_milli now')" b']
    by (simp add: UniqueName_def hex_encode_inject)
qed

lemma unique_key_inject:
  "fst (ObjectPaths m (UniqueName now b)) = fst (ObjectPaths m' (UniqueName now' b')) \<Longrightarrow> b = b'"
  by (metis data_key_inject sanitize_UniqueName UniqueName_inject)

lemma unique_manifest_key_inject:
  "snd (ObjectPaths m (UniqueName now b)) = snd (ObjectPaths m' (UniqueName now' b')) \<Longrightarrow> b = b'"
  by (metis manifest_key_inject sanitize_UniqueName UniqueName_inject)

end
