(* ===== verification/Encode.thy ===== *)
theory Encode
  imports Archive
begin

text \<open>
  \<^verbatim>\<open>internal/archive/encode.go\<close>: the streaming encoder, the timestamp range the writer and the
  verifier share, and \<open>encodeObject\<close>, which runs a callback into a temporary file, finishes the
  manifest and hands the file to a store. The buffered NDJSON stream is the list of its encoded
  lines; the temporary file is its compression. Disk failures are two arguments: the error of
  \<^verbatim>\<open>os.CreateTemp\<close>, and the error \<open>finish\<close> reports for the file (the buffered writer keeps a write
  error until its \<^verbatim>\<open>Flush\<close>).
\<close>

section \<open>Timestamp range\<close>

record TimestampRange =
  tr_First :: "time option"
  tr_Last :: "time option"

definition empty_range :: TimestampRange where
  "empty_range = \<lparr>tr_First = None, tr_Last = None\<rparr>"

definition TimestampRange_Add :: "TimestampRange \<Rightarrow> time \<Rightarrow> TimestampRange" where
  "TimestampRange_Add r ts =
     (if IsZero ts then r
      else
        let r1 = (if (case tr_First r of None \<Rightarrow> True | Some f \<Rightarrow> ts < f)
                  then r\<lparr>tr_First := Some ts\<rparr> else r)
        in (if (case tr_Last r1 of None \<Rightarrow> True | Some l \<Rightarrow> l < ts)
            then r1\<lparr>tr_Last := Some ts\<rparr> else r1))"

definition range_of :: "time list \<Rightarrow> TimestampRange" where
  "range_of ts = foldl TimestampRange_Add empty_range ts"

lemma range_of_snoc [simp]: "range_of (ts @ [t]) = TimestampRange_Add (range_of ts) t"
  by (simp add: range_of_def)

lemma range_of_Nil [simp]: "range_of [] = empty_range"
  by (simp add: range_of_def)

lemma TimestampRange_Add_Some:
  "\<not> IsZero t \<Longrightarrow> TimestampRange_Add \<lparr>tr_First = Some a, tr_Last = Some b\<rparr> t
     = \<lparr>tr_First = Some (min t a), tr_Last = Some (max t b)\<rparr>"
  by (simp add: TimestampRange_Add_def Let_def min_def max_def)

text \<open>The range holds the least and the greatest non-zero timestamp, and nothing without one.\<close>

definition nonzero :: "time list \<Rightarrow> time list" where "nonzero ts = filter (\<lambda>t. \<not> IsZero t) ts"

lemma range_of_spec:
  "range_of ts =
     (if nonzero ts = [] then empty_range
      else \<lparr>tr_First = Some (Min (set (nonzero ts))), tr_Last = Some (Max (set (nonzero ts)))\<rparr>)"
proof (induction ts rule: rev_induct)
  case Nil
  then show ?case by (simp add: nonzero_def)
next
  case (snoc t ts)
  consider "IsZero t" | "\<not> IsZero t" "nonzero ts = []" | "\<not> IsZero t" "nonzero ts \<noteq> []"
    by blast
  then show ?case
  proof cases
    case 1
    then show ?thesis
      using snoc by (simp add: nonzero_def TimestampRange_Add_def)
  next
    case 2
    then have "nonzero (ts @ [t]) = [t]" by (simp add: nonzero_def)
    with 2 show ?thesis
      using snoc by (simp add: TimestampRange_Add_def empty_range_def)
  next
    case 3
    let ?S = "set (nonzero ts)"
    have "Min (insert t ?S) = min t (Min ?S)" "Max (insert t ?S) = max t (Max ?S)"
      using 3 by simp_all
    moreover have "set (nonzero (ts @ [t])) = insert t ?S" "nonzero (ts @ [t]) \<noteq> []"
      using 3 by (auto simp: nonzero_def)
    ultimately show ?thesis
      using 3 snoc by (simp only: range_of_snoc TimestampRange_Add_Some if_False simp_thms)
  qed
qed

section \<open>The encoder\<close>

record encoder =
  enc_meta :: ObjectMeta
  enc_lines :: "string list"
  enc_count :: int
  enc_times :: TimestampRange

type_synonym fill = "encoder \<Rightarrow> encoder result"

definition newEncoder :: "ObjectMeta \<Rightarrow> encoder" where
  "newEncoder meta = \<lparr>enc_meta = meta, enc_lines = [], enc_count = 0, enc_times = empty_range\<rparr>"

definition line_of :: "ObjectMeta \<Rightarrow> Record \<Rightarrow> Line" where
  "line_of meta r =
     \<lparr>line_EventId = rec_Id r, line_EventType = rec_Type r, line_Timestamp = rec_Timestamp r,
      line_Source = meta_Source meta, line_Env = meta_Env meta, line_OrgId = meta_OrgId meta,
      line_Instance = meta_Instance meta,
      line_ReplayId = (if rec_ReplayId r \<noteq> [] then b64_encode (rec_ReplayId r) else []),
      line_Payload = (case rec_Payload r of None \<Rightarrow> [] | Some p \<Rightarrow> p)\<rparr>"

definition WriteRecord :: "codec \<Rightarrow> Record \<Rightarrow> fill" where
  "WriteRecord C r e =
     (let line = line_of (enc_meta e) r
      in case jsonEncode C line of
           Inl err \<Rightarrow> Inl (Wrap ''encoding record'' err)
         | Inr b \<Rightarrow>
             Inr (e\<lparr>enc_lines := enc_lines e @ [b], enc_count := enc_count e + 1,
                    enc_times := TimestampRange_Add (enc_times e) (line_Timestamp line)\<rparr>))"

text \<open>The callback of \<^verbatim>\<open>archive.WriteRecords\<close>: write each record, stop at the first error.\<close>

fun write_each :: "codec \<Rightarrow> Record list \<Rightarrow> fill" where
  "write_each C [] e = Inr e"
| "write_each C (r # rs) e =
     (case WriteRecord C r e of Inl err \<Rightarrow> Inl err | Inr e' \<Rightarrow> write_each C rs e')"

definition object_body :: "codec \<Rightarrow> string list \<Rightarrow> string" where
  "object_body C ls = gzip C (concat ls)"

definition finish :: "codec \<Rightarrow> encoder \<Rightarrow> Manifest" where
  "finish C e =
     (let meta = enc_meta e; body = object_body C (enc_lines e) in
      \<lparr>man_ManifestVersion = ManifestVersion, man_Collector = CollectorName,
       man_CollectorVersion = CollectorVersion, man_Source = meta_Source meta,
       man_OrgId = meta_OrgId meta, man_Instance = meta_Instance meta,
       man_EventType = meta_EventType meta, man_ObjectKey = [],
       man_RecordCount = enc_count e, man_UncompressedBytes = int (length (concat (enc_lines e))),
       man_CompressedBytes = int (length body), man_SHA256 = hex_encode (Sum256 body),
       man_FirstTimestamp = tr_First (enc_times e), man_LastTimestamp = tr_Last (enc_times e),
       man_IngestedAt = zero_time, man_Lineage = meta_Lineage meta\<rparr>)"

text \<open>
  \<^verbatim>\<open>encodeObject\<close>. The store gets the body and the manifest and returns the manifest it completed.
  The partition time is defaulted in the copy the encoder gets, as in the source.
\<close>

definition encodeObject ::
  "codec \<Rightarrow> time \<Rightarrow> goerror option \<Rightarrow> goerror option \<Rightarrow> ObjectMeta \<Rightarrow> fill
   \<Rightarrow> (string \<Rightarrow> Manifest \<Rightarrow> 's \<Rightarrow> Manifest result \<times> 's) \<Rightarrow> 's \<Rightarrow> Manifest result \<times> 's" where
  "encodeObject C now createErr finishErr meta fill store s =
     (if meta_Source meta = [] then (Inl (Err ''archive: object source is required''), s)
      else
        let meta' = (if IsZero (meta_PartitionTime meta)
                     then meta\<lparr>meta_PartitionTime := now\<rparr> else meta)
        in case createErr of
             Some err \<Rightarrow> (Inl (Wrap ''creating temp object file'' err), s)
           | None \<Rightarrow>
               (case fill (newEncoder meta') of
                  Inl err \<Rightarrow> (Inl err, s)
                | Inr e \<Rightarrow>
                    (case finishErr of
                       Some err \<Rightarrow> (Inl (Wrap ''finalising object'' err), s)
                     | None \<Rightarrow>
                         store (object_body C (enc_lines e))
                               ((finish C e)\<lparr>man_IngestedAt := now\<rparr>) s)))"

text \<open>
  \<^verbatim>\<open>DecodeObjectCounted\<close> with a visitor that never fails: the lines visited, the error that ends the
  loop (\<open>None\<close> at end of input), and the uncompressed byte count.
\<close>

definition DecodeObjectCounted :: "codec \<Rightarrow> string \<Rightarrow> Line list \<times> int result" where
  "DecodeObjectCounted C body =
     (case gunzip C body of
        Inl err \<Rightarrow> ([], Inl err)
      | Inr raw \<Rightarrow>
          (case jsonDecode C raw of
             (ls, None) \<Rightarrow> (ls, Inr (int (length raw)))
           | (ls, Some err) \<Rightarrow> (ls, Inl err)))"

definition DecodeObject :: "codec \<Rightarrow> string \<Rightarrow> Line list \<times> goerror option" where
  "DecodeObject C body =
     (case DecodeObjectCounted C body of (ls, Inl err) \<Rightarrow> (ls, Some err) | (ls, Inr n) \<Rightarrow> (ls, None))"

section \<open>What the encoder writes\<close>

text \<open>The encoder's bookkeeping: count and range agree with the lines it was given.\<close>

definition enc_inv :: "codec \<Rightarrow> encoder \<Rightarrow> Line list \<Rightarrow> bool" where
  "enc_inv C e ls \<longleftrightarrow>
     list_all2 (\<lambda>l b. jsonEncode C l = Inr b) ls (enc_lines e)
     \<and> enc_count e = int (length ls)
     \<and> enc_times e = range_of (map line_Timestamp ls)"

lemma enc_inv_new: "enc_inv C (newEncoder meta) []"
  by (simp add: enc_inv_def newEncoder_def)

lemma WriteRecord_inv:
  assumes "enc_inv C e ls" "WriteRecord C r e = Inr e'"
  shows "enc_inv C e' (ls @ [line_of (enc_meta e) r]) \<and> enc_meta e' = enc_meta e"
  using assms
  by (auto simp: WriteRecord_def enc_inv_def Let_def list_all2_append list_all2_lengthD
      split: sum.splits)

lemma write_each_inv:
  assumes "enc_inv C e ls" "write_each C rs e = Inr e'"
  shows "enc_inv C e' (ls @ map (line_of (enc_meta e)) rs) \<and> enc_meta e' = enc_meta e"
  using assms
proof (induction rs arbitrary: e ls)
  case Nil
  then show ?case by simp
next
  case (Cons r rs)
  then obtain e1 where e1: "WriteRecord C r e = Inr e1" "write_each C rs e1 = Inr e'"
    by (auto split: sum.splits)
  note step = WriteRecord_inv [OF Cons.prems(1) e1(1)]
  show ?case
    using Cons.IH [OF step [THEN conjunct1] e1(2)] step by simp
qed

text \<open>
  A callback is regular when it only extends what the encoder was given: every callback of the
  program is built from \<open>WriteRecord\<close>.
\<close>

definition fill_ok :: "codec \<Rightarrow> fill \<Rightarrow> bool" where
  "fill_ok C f \<longleftrightarrow>
     (\<forall>e e' ls. enc_inv C e ls \<longrightarrow> f e = Inr e' \<longrightarrow>
        enc_meta e' = enc_meta e \<and> (\<exists>ls'. enc_inv C e' (ls @ ls')))"

lemma fill_ok_write_each [simp, intro]: "fill_ok C (write_each C rs)"
  unfolding fill_ok_def using write_each_inv by blast

lemma finish_fields [simp]:
  "man_RecordCount (finish C e) = enc_count e"
  "man_FirstTimestamp (finish C e) = tr_First (enc_times e)"
  "man_LastTimestamp (finish C e) = tr_Last (enc_times e)"
  "man_SHA256 (finish C e) = hex_encode (Sum256 (object_body C (enc_lines e)))"
  "man_CompressedBytes (finish C e) = int (length (object_body C (enc_lines e)))"
  "man_UncompressedBytes (finish C e) = int (length (concat (enc_lines e)))"
  "man_ManifestVersion (finish C e) = ManifestVersion"
  by (simp_all add: finish_def Let_def)

text \<open>
  The inversion of \<open>encodeObject\<close>: a result that is not the store's leaves the state alone.
\<close>

lemma encodeObject_cases:
  assumes "encodeObject C now ce fe meta fill store s = (r, s')"
  obtains (failed) err where "r = Inl err" "s' = s"
  | (stored) meta' e where
      "meta' = meta \<or> meta' = meta\<lparr>meta_PartitionTime := now\<rparr>"
      "fill (newEncoder meta') = Inr e" "meta_Source meta \<noteq> []"
      "store (object_body C (enc_lines e)) ((finish C e)\<lparr>man_IngestedAt := now\<rparr>) s = (r, s')"
  using assms unfolding encodeObject_def Let_def
  by (auto split: if_splits option.splits sum.splits)

end
