(* ===== verification/Sinks.thy ===== *)
theory Sinks
  imports Encode
begin

text \<open>
  The three implementations of \<^verbatim>\<open>archive.Sink\<close>: \<^verbatim>\<open>memory.go\<close>, \<^verbatim>\<open>local.go\<close> and \<^verbatim>\<open>s3.go\<close>, and the contract
  the collectors rely on, the locale \<open>archive_sink\<close>: a write that returns a manifest has stored the
  object and the manifest, a write under a generated name never touches a stored object, and a
  write under a given name touches only that name's key.

  Each sink state carries its fault oracle: the hooks of the memory sink, the outcome of each file
  system step, and the outcome of each \<^verbatim>\<open>PutObject\<close>. The random bytes of generated names come
  from an oracle indexed by the write; the contract assumes its draws do not repeat.
\<close>

section \<open>The contract\<close>

type_synonym 's sink_write =
  "ctx \<Rightarrow> time \<Rightarrow> ObjectMeta \<Rightarrow> fill \<Rightarrow> 's \<Rightarrow> Manifest result \<times> 's"

definition WriteRecords ::
  "codec \<Rightarrow> 's sink_write \<Rightarrow> ctx \<Rightarrow> time \<Rightarrow> ObjectMeta \<Rightarrow> Record list \<Rightarrow> 's
   \<Rightarrow> Manifest result \<times> 's" where
  "WriteRecords C swrite c now meta rs s = swrite c now meta (write_each C rs) s"

text \<open>A name that no generated name can equal.\<close>

definition reserved_name :: "string \<Rightarrow> bool" where
  "reserved_name n \<longleftrightarrow> (\<forall>now b. sanitize n ''object'' \<noteq> UniqueName now b)"

definition name_ok :: "string \<Rightarrow> bool" where
  "name_ok n \<longleftrightarrow> n = [] \<or> reserved_name n"

text \<open>The lines an object body holds, and the lines a set of objects holds.\<close>

definition body_holds :: "codec \<Rightarrow> string \<Rightarrow> Line list \<Rightarrow> bool" where
  "body_holds C b ls \<longleftrightarrow>
     (\<exists>bs. list_all2 (\<lambda>l x. jsonEncode C l = Inr x) ls bs \<and> b = object_body C bs)"

definition holds :: "codec \<Rightarrow> (string \<Rightarrow> string option) \<Rightarrow> Line \<Rightarrow> bool" where
  "holds C objs l \<longleftrightarrow> (\<exists>k b ls. objs k = Some b \<and> body_holds C b ls \<and> l \<in> set ls)"

lemma holds_mono:
  "holds C objs l \<Longrightarrow> (\<And>k b. objs k = Some b \<Longrightarrow> objs' k = Some b) \<Longrightarrow> holds C objs' l"
  unfolding holds_def by blast

lemma holdsI: "objs k = Some b \<Longrightarrow> body_holds C b ls \<Longrightarrow> l \<in> set ls \<Longrightarrow> holds C objs l"
  unfolding holds_def by blast

lemma enc_inv_body_holds: "enc_inv C e ls \<Longrightarrow> body_holds C (object_body C (enc_lines e)) ls"
  unfolding enc_inv_def body_holds_def by blast

locale archive_sink =
  fixes C :: codec
    and swrite :: "'s sink_write"
    and lookup :: "'s \<Rightarrow> string \<Rightarrow> string option"
    and manifested :: "'s \<Rightarrow> Manifest \<Rightarrow> bool"
    and keys_of :: "'s \<Rightarrow> ObjectMeta \<Rightarrow> string \<times> string"
    and inv :: "'s \<Rightarrow> bool"
  assumes durable:
    "\<lbrakk>inv s; swrite c now meta fill s = (Inr m, s')\<rbrakk> \<Longrightarrow>
       \<exists>e meta'. (meta' = meta \<or> meta' = meta\<lparr>meta_PartitionTime := now\<rparr>)
         \<and> fill (newEncoder meta') = Inr e
         \<and> m = (finish C e)\<lparr>man_IngestedAt := now, man_ObjectKey := man_ObjectKey m\<rparr>
         \<and> lookup s' (man_ObjectKey m) = Some (object_body C (enc_lines e))
         \<and> manifested s' m"
    and keep_generated:
    "\<lbrakk>inv s; meta_Name meta = []; swrite c now meta fill s = (r, s'); lookup s k = Some b\<rbrakk>
       \<Longrightarrow> lookup s' k = Some b"
    and keep_named:
    "\<lbrakk>inv s; meta_Name meta \<noteq> []; swrite c now meta fill s = (r, s'); 
        k \<noteq> fst (keys_of s meta); k \<noteq> snd (keys_of s meta)\<rbrakk> \<Longrightarrow> lookup s' k = lookup s k"
    and named_key:
    "\<lbrakk>inv s; meta_Name meta \<noteq> []; swrite c now meta fill s = (Inr m, s')\<rbrakk>
       \<Longrightarrow> man_ObjectKey m = fst (keys_of s meta)"
    and inv_write:
    "\<lbrakk>inv s; name_ok (meta_Name meta); swrite c now meta fill s = (r, s')\<rbrakk> \<Longrightarrow> inv s'"
begin

text \<open>What a successful \<^verbatim>\<open>WriteRecords\<close> guarantees: every record is a line of a stored object.\<close>

lemma line_of_partition [simp]: "line_of (meta\<lparr>meta_PartitionTime := t\<rparr>) = line_of meta"
  by (rule ext) (simp add: line_of_def)

lemma WriteRecords_body:
  assumes "inv s" "WriteRecords C swrite c now meta rs s = (Inr m, s')"
  shows "\<exists>b. lookup s' (man_ObjectKey m) = Some b \<and> body_holds C b (map (line_of meta) rs)"
proof -
  obtain e meta' where meta': "meta' = meta \<or> meta' = meta\<lparr>meta_PartitionTime := now\<rparr>"
    and e: "write_each C rs (newEncoder meta') = Inr e"
    and obj: "lookup s' (man_ObjectKey m) = Some (object_body C (enc_lines e))"
    using durable [OF assms(1) assms(2) [unfolded WriteRecords_def]] by blast
  have lines: "line_of (enc_meta (newEncoder meta')) = line_of meta"
    using meta' by (auto simp: newEncoder_def)
  have "enc_inv C e (map (line_of meta) rs)"
    using write_each_inv [OF enc_inv_new e] lines by simp
  with obj enc_inv_body_holds show ?thesis by blast
qed

lemma WriteRecords_holds:
  assumes "inv s" "WriteRecords C swrite c now meta rs s = (Inr m, s')" "r \<in> set rs"
  shows "holds C (lookup s') (line_of meta r)"
  using WriteRecords_body [OF assms(1,2)] assms(3) by (auto intro: holdsI)

lemma WriteRecords_keep:
  assumes "inv s" "meta_Name meta = []" "WriteRecords C swrite c now meta rs s = (r, s')"
    and "holds C (lookup s) l"
  shows "holds C (lookup s') l"
  using holds_mono [OF assms(4)] keep_generated [OF assms(1,2)] assms(3)
  unfolding WriteRecords_def by blast

lemma WriteRecords_inv:
  "inv s \<Longrightarrow> name_ok (meta_Name meta) \<Longrightarrow> WriteRecords C swrite c now meta rs s = (r, s') \<Longrightarrow> inv s'"
  unfolding WriteRecords_def by (rule inv_write)

end

text \<open>
  Sinks whose keys for named objects depend on the name: a write of one named object leaves every
  other one as it was.
\<close>

locale named_sink = archive_sink +
  assumes keys_stable: "swrite c now meta fill s = (r, s') \<Longrightarrow> keys_of s' = keys_of s"
    and keys_apart:
    "sanitize (meta_Name meta) ''object'' \<noteq> sanitize (meta_Name meta') ''object'' \<Longrightarrow>
       fst (keys_of s meta) \<noteq> fst (keys_of s meta')"
    and data_not_manifest: "fst (keys_of s meta) \<noteq> snd (keys_of s meta')"
begin

lemma other_name_kept:
  assumes "inv s" "meta_Name meta' \<noteq> []" "swrite c now meta' fill s = (r, s')"
    and "sanitize (meta_Name meta) ''object'' \<noteq> sanitize (meta_Name meta') ''object''"
  shows "lookup s' (fst (keys_of s' meta)) = lookup s (fst (keys_of s meta))"
  using keep_named [OF assms(1-3)] keys_stable [OF assms(3)] keys_apart [OF assms(4)]
    data_not_manifest by simp

lemma named_body:
  assumes "inv s" "meta_Name meta \<noteq> []" "swrite c now meta fill s = (Inr m, s')"
  shows "\<exists>e meta'. (meta' = meta \<or> meta' = meta\<lparr>meta_PartitionTime := now\<rparr>)
    \<and> fill (newEncoder meta') = Inr e
    \<and> lookup s' (fst (keys_of s' meta)) = Some (object_body C (enc_lines e))"
  using durable [OF assms(1,3)] named_key [OF assms] keys_stable [OF assms(3)] by metis

lemma named_records:
  assumes "inv s" "meta_Name meta \<noteq> []" "swrite c now meta fill s = (Inr m, s')"
    and "\<And>e e'. fill e = Inr e' \<Longrightarrow> \<exists>rs. P rs \<and> write_each C rs e = Inr e'"
  shows "\<exists>rs b. P rs \<and> lookup s' (fst (keys_of s' meta)) = Some b \<and> body_holds C b (map (line_of meta) rs)"
proof -
  obtain e meta' where meta': "meta' = meta \<or> meta' = meta\<lparr>meta_PartitionTime := now\<rparr>"
    and e: "fill (newEncoder meta') = Inr e"
    and obj: "lookup s' (fst (keys_of s' meta)) = Some (object_body C (enc_lines e))"
    using named_body [OF assms(1-3)] by blast
  obtain rs where "P rs" and rs: "write_each C rs (newEncoder meta') = Inr e"
    using assms(4) [OF e] by blast
  have "line_of (enc_meta (newEncoder meta')) = line_of meta"
    using meta' by (auto simp: newEncoder_def)
  then have "enc_inv C e (map (line_of meta) rs)"
    using write_each_inv [OF enc_inv_new rs] by simp
  with \<open>P rs\<close> obj enc_inv_body_holds show ?thesis by blast
qed

end

section \<open>Memory\<close>

record MemorySink =
  ms_objects :: "(string \<times> string) list"
  ms_manifests :: "(string \<times> Manifest) list"
  ms_writes :: nat
  ms_BeforeStore :: "ObjectMeta \<Rightarrow> nat \<Rightarrow> goerror option"
  ms_AfterStore :: "ObjectMeta \<Rightarrow> nat \<Rightarrow> goerror option"
  ms_StoreDelay :: duration
  ms_rand :: "nat \<Rightarrow> string"
  ms_create :: "nat \<Rightarrow> goerror option"
  ms_finish :: "nat \<Rightarrow> goerror option"

definition ms_store ::
  "ctx \<Rightarrow> time \<Rightarrow> ObjectMeta \<Rightarrow> string \<Rightarrow> Manifest \<Rightarrow> MemorySink \<Rightarrow> Manifest result \<times> MemorySink" where
  "ms_store c now meta body m s =
     (if ctx_done c (now + max 0 (ms_StoreDelay s)) then (Inl ErrCanceled, s)
      else
        let name = (if meta_Name meta = []
                    then UniqueName (man_IngestedAt m) (ms_rand s (ms_writes s))
                    else meta_Name meta);
            dataKey = fst (ObjectPaths meta name);
            m' = m\<lparr>man_ObjectKey := dataKey\<rparr>
        in (Inr m', s\<lparr>ms_objects := AList.update dataKey body (ms_objects s),
                      ms_manifests := AList.update dataKey m' (ms_manifests s)\<rparr>))"

definition MemorySink_Write :: "codec \<Rightarrow> MemorySink sink_write" where
  "MemorySink_Write C c now meta fill s0 =
     (let s = s0\<lparr>ms_writes := ms_writes s0 + 1\<rparr>; n = ms_writes s
      in case ms_BeforeStore s meta n of
           Some err \<Rightarrow> (Inl err, s)
         | None \<Rightarrow>
             (case encodeObject C now (ms_create s n) (ms_finish s n) meta fill
                     (ms_store c now meta) s of
                (Inl err, s') \<Rightarrow> (Inl err, s')
              | (Inr m, s') \<Rightarrow>
                  (case ms_AfterStore s' meta n of
                     Some err \<Rightarrow> (Inl err, s')
                   | None \<Rightarrow> (Inr m, s'))))"

definition MemorySink_Keys :: "MemorySink \<Rightarrow> string list" where
  "MemorySink_Keys s = sort (map fst (ms_objects s))"

definition MemorySink_Manifest :: "MemorySink \<Rightarrow> string \<Rightarrow> Manifest option" where
  "MemorySink_Manifest s k = map_of (ms_manifests s) k"

definition NewMemorySink :: "(nat \<Rightarrow> string) \<Rightarrow> (nat \<Rightarrow> goerror option) \<Rightarrow> (nat \<Rightarrow> goerror option) \<Rightarrow> MemorySink" where
  "NewMemorySink draws create finished =
     \<lparr>ms_objects = [], ms_manifests = [], ms_writes = 0, ms_BeforeStore = (\<lambda>meta n. None), ms_AfterStore = (\<lambda>meta n. None),
      ms_StoreDelay = 0, ms_rand = draws, ms_create = create, ms_finish = finished\<rparr>"

fun memory_lines :: "codec \<Rightarrow> (string \<times> string) list \<Rightarrow> string list \<Rightarrow> Line list result" where
  "memory_lines C objs [] = Inr []"
| "memory_lines C objs (k # ks) =
     (case DecodeObject C (case map_of objs k of None \<Rightarrow> [] | Some b \<Rightarrow> b) of
        (ls, Some err) \<Rightarrow> Inl err
      | (ls, None) \<Rightarrow> map_sum (\<lambda>e. e) ((@) ls) (memory_lines C objs ks))"

definition MemorySink_Lines :: "codec \<Rightarrow> MemorySink \<Rightarrow> Line list result" where
  "MemorySink_Lines C s = memory_lines C (ms_objects s) (MemorySink_Keys s)"

definition ms_lookup :: "MemorySink \<Rightarrow> string \<Rightarrow> string option" where
  "ms_lookup s = map_of (ms_objects s)"

definition ms_keys :: "MemorySink \<Rightarrow> ObjectMeta \<Rightarrow> string \<times> string" where
  "ms_keys s meta = ObjectPaths meta (meta_Name meta)"

text \<open>No stored key is one that a later draw of the random source will generate.\<close>

definition fresh_draws :: "(nat \<Rightarrow> string) \<Rightarrow> nat \<Rightarrow> (string \<Rightarrow> string option) \<Rightarrow> string \<Rightarrow> bool" where
  "fresh_draws rnd n objs prefix \<longleftrightarrow>
     inj rnd \<and> (\<forall>i meta now. n < i \<longrightarrow>
       objs (joinPrefix prefix (fst (ObjectPaths meta (UniqueName now (rnd i))))) = None
       \<and> objs (joinPrefix prefix (snd (ObjectPaths meta (UniqueName now (rnd i))))) = None)"

definition ms_inv :: "MemorySink \<Rightarrow> bool" where
  "ms_inv s \<longleftrightarrow> fresh_draws (ms_rand s) (ms_writes s) (ms_lookup s) []"

lemma joinPrefix_Nil [simp]: "joinPrefix [] k = k"
  by (simp add: joinPrefix_def Trim_def)

lemma joinPrefix_inject [simp]: "joinPrefix p k = joinPrefix p k' \<longleftrightarrow> k = k'"
  by (simp add: joinPrefix_def Let_def)

lemma fresh_draws_lookup:
  assumes "fresh_draws rnd n objs p" "n < i"
  shows "objs (joinPrefix p (fst (ObjectPaths meta (UniqueName now (rnd i))))) = None"
    "objs (joinPrefix p (snd (ObjectPaths meta (UniqueName now (rnd i))))) = None"
  using assms by (simp_all add: fresh_draws_def)

lemma fresh_draws_Suc: "fresh_draws rnd n objs p \<Longrightarrow> fresh_draws rnd (n + 1) objs p"
  by (simp add: fresh_draws_def)

text \<open>Storing under a key that is neither path of any later draw keeps the draws fresh.\<close>

definition later_paths :: "(nat \<Rightarrow> string) \<Rightarrow> nat \<Rightarrow> string set" where
  "later_paths rnd n = {k. \<exists>i meta now. n < i \<and>
     (k = fst (ObjectPaths meta (UniqueName now (rnd i)))
      \<or> k = snd (ObjectPaths meta (UniqueName now (rnd i))))}"

lemma fresh_draws_upd:
  assumes "fresh_draws rnd n objs p" "k \<notin> later_paths rnd n"
  shows "fresh_draws rnd n (objs(joinPrefix p k \<mapsto> b)) p"
  using assms by (auto simp: fresh_draws_def later_paths_def)

lemma later_pathsE:
  assumes "k \<in> later_paths rnd n"
  obtains i meta now where "n < i"
    "k = fst (ObjectPaths meta (UniqueName now (rnd i)))
     \<or> k = snd (ObjectPaths meta (UniqueName now (rnd i)))"
  using assms unfolding later_paths_def by blast

lemma draw_not_later:
  assumes inj: "inj rnd"
  shows "fst (ObjectPaths meta (UniqueName now (rnd n))) \<notin> later_paths rnd n" (is ?A)
    "snd (ObjectPaths meta (UniqueName now (rnd n))) \<notin> later_paths rnd n" (is ?B)
proof -
  have ne: "rnd i \<noteq> rnd n" if "n < i" for i
    using injD [OF inj, of i n] that by blast
  show ?A
    using ne unique_key_inject data_key_not_manifest_key by (metis later_pathsE)
  show ?B
    using ne unique_manifest_key_inject data_key_not_manifest_key by (metis later_pathsE)
qed

lemma reserved_not_later:
  assumes r: "reserved_name name"
  shows "fst (ObjectPaths meta name) \<notin> later_paths rnd n" (is ?A)
    "snd (ObjectPaths meta name) \<notin> later_paths rnd n" (is ?B)
proof -
  have ne: "sanitize name ''object'' \<noteq> UniqueName t b" for t b
    using r unfolding reserved_name_def by blast
  have 1: "fst (ObjectPaths meta name) \<noteq> fst (ObjectPaths meta' (UniqueName t b))" for meta' t b
    using data_key_inject [of meta name meta' "UniqueName t b"] ne [of t b] by auto
  have 2: "snd (ObjectPaths meta name) \<noteq> snd (ObjectPaths meta' (UniqueName t b))" for meta' t b
    using manifest_key_inject [of meta name meta' "UniqueName t b"] ne [of t b] by auto
  show ?A using 1 data_key_not_manifest_key by (metis later_pathsE)
  show ?B using 2 data_key_not_manifest_key by (metis later_pathsE)
qed

text \<open>
  A name beginning with a character that is neither a digit nor a minus is never generated.
\<close>

lemma runes_head: "key_char c \<Longrightarrow> runes (c # s) = [c] # runes s"
  using key_char_ascii [of c] by (simp add: Let_def)

lemma dropWhile_end: "\<not> p y \<Longrightarrow> dropWhile p (xs @ [y]) = dropWhile p xs @ [y]"
  by (induction xs) auto

lemma TrimSpace_head: "key_char c \<Longrightarrow> \<exists>t. TrimSpace (c # s) = c # t"
  by (simp add: TrimSpace_def runes_head key_char_not_space dropWhile_end del: runes.simps)

lemma replace_unsafe_head: "key_char c \<Longrightarrow> \<exists>t. replace_unsafe (c # s) = c # t"
  by (simp add: replace_unsafe_def runes_head safe_rune_def del: runes.simps)

lemma sanitize_head:
  assumes "key_char c"
  shows "\<exists>t. sanitize (c # s) f = c # t"
proof -
  obtain t where "TrimSpace (c # s) = c # t"
    using TrimSpace_head [OF assms] by blast
  moreover obtain u where "replace_unsafe (c # t) = c # u"
    using replace_unsafe_head [OF assms] by blast
  ultimately show ?thesis by (simp add: sanitize_def Let_def)
qed

lemma reserved_head:
  assumes "key_char c" "\<not> is_digit c" "c \<noteq> CHR ''-''"
  shows "reserved_name (c # s)"
  unfolding reserved_name_def
proof (intro allI notI)
  fix now b assume u: "sanitize (c # s) ''object'' = UniqueName now b"
  obtain t where t: "sanitize (c # s) ''object'' = c # t"
    using sanitize_head [OF assms(1)] by blast
  obtain d ds where d: "Itoa (unix_milli now) = d # ds"
    by (cases "Itoa (unix_milli now)") auto
  with u t have "c = d" by (simp add: UniqueName_def)
  then show False using Itoa_chars [of c "unix_milli now"] d assms(2,3) by auto
qed

definition ms_manifested :: "MemorySink \<Rightarrow> Manifest \<Rightarrow> bool" where
  "ms_manifested s m \<longleftrightarrow> MemorySink_Manifest s (man_ObjectKey m) = Some m"

text \<open>Every write either stores nothing or stores one object with its manifest.\<close>

lemma MemorySink_Write_cases:
  assumes "MemorySink_Write C c now meta fill s = (r, s')"
  obtains (nothing) err where "r = Inl err" "s' = s\<lparr>ms_writes := ms_writes s + 1\<rparr>"
  | (stored) e meta' key m where
      "meta' = meta \<or> meta' = meta\<lparr>meta_PartitionTime := now\<rparr>"
      "fill (newEncoder meta') = Inr e" "\<not> ctx_done c (now + max 0 (ms_StoreDelay s))"
      "key = fst (ObjectPaths meta (if meta_Name meta = []
                   then UniqueName now (ms_rand s (ms_writes s + 1)) else meta_Name meta))"
      "m = (finish C e)\<lparr>man_IngestedAt := now, man_ObjectKey := key\<rparr>"
      "s' = s\<lparr>ms_writes := ms_writes s + 1,
              ms_objects := AList.update key (object_body C (enc_lines e)) (ms_objects s),
              ms_manifests := AList.update key m (ms_manifests s)\<rparr>"
      "r = Inr m \<or> (\<exists>err. r = Inl err)"
proof -
  let ?s = "s\<lparr>ms_writes := ms_writes s + 1\<rparr>"
  let ?E = "encodeObject C now (ms_create ?s (ms_writes ?s)) (ms_finish ?s (ms_writes ?s)) meta fill
              (ms_store c now meta) ?s"
  obtain r1 s1 where E: "?E = (r1, s1)" by fastforce
  consider (before) err where "r = Inl err" "s' = ?s"
    | (after) "s' = s1" "\<And>m. r = Inr m \<Longrightarrow> r1 = Inr m"
    using assms E unfolding MemorySink_Write_def Let_def
    by (auto split: option.splits sum.splits)
  then show thesis
  proof cases
    case before
    then show ?thesis by (rule nothing)
  next
    case after
    from E show ?thesis
    proof (cases rule: encodeObject_cases)
      case (failed err)
      with after obtain err' where "r = Inl err'" by (cases r) auto
      then show ?thesis by (rule nothing) (use failed after in simp)
    next
      case (stored meta' e)
      show ?thesis
      proof (cases "ctx_done c (now + max 0 (ms_StoreDelay s))")
        case True
        with stored have "r1 = Inl ErrCanceled" "s1 = ?s" by (auto simp: ms_store_def)
        with after obtain err where "r = Inl err" by (cases r) auto
        then show ?thesis by (rule nothing) (use after \<open>s1 = ?s\<close> in simp)
      next
        case False
        have "r = Inr m \<or> (\<exists>err. r = Inl err)" if "r1 = Inr m" for m
          using after(2) that by (cases r) auto
        then show ?thesis
          using stored(4) after(1) False
          by (intro that(2) [OF stored(1,2) False refl refl])
            (auto simp: ms_store_def Let_def)
      qed
    qed
  qed
qed

lemma finish_update_key:
  "m = (finish C e)\<lparr>man_IngestedAt := now, man_ObjectKey := key\<rparr> \<Longrightarrow>
     m = (finish C e)\<lparr>man_IngestedAt := now, man_ObjectKey := man_ObjectKey m\<rparr> \<and> man_ObjectKey m = key"
  by simp

interpretation mem: archive_sink C "MemorySink_Write C" ms_lookup ms_manifested ms_keys ms_inv
  for C :: codec
proof
  fix s s' :: MemorySink and c now meta fill m
  assume "ms_inv s" "MemorySink_Write C c now meta fill s = (Inr m, s')"
  from this(2) show "\<exists>e meta'. (meta' = meta \<or> meta' = meta\<lparr>meta_PartitionTime := now\<rparr>)
         \<and> fill (newEncoder meta') = Inr e
         \<and> m = (finish C e)\<lparr>man_IngestedAt := now, man_ObjectKey := man_ObjectKey m\<rparr>
         \<and> ms_lookup s' (man_ObjectKey m) = Some (object_body C (enc_lines e))
         \<and> ms_manifested s' m"
  proof (cases rule: MemorySink_Write_cases)
    case (stored e meta' key m')
    then show ?thesis
      by (intro exI [of _ e] exI [of _ meta'])
        (auto simp: ms_lookup_def ms_manifested_def MemorySink_Manifest_def update_conv)
  qed simp
next
  fix s s' :: MemorySink and c now meta fill r k b
  assume inv: "ms_inv s" and gen: "meta_Name meta = []" and k: "ms_lookup s k = Some b"
    and W: "MemorySink_Write C c now meta fill s = (r, s')"
  from W show "ms_lookup s' k = Some b"
  proof (cases rule: MemorySink_Write_cases)
    case (stored e meta' key m')
    have "ms_lookup s key = None"
      using fresh_draws_lookup(1) [OF inv [unfolded ms_inv_def], of "ms_writes s + 1"] stored(4) gen
      by simp
    with k stored(6) show ?thesis
      by (auto simp: ms_lookup_def update_conv)
  qed (use k in \<open>simp add: ms_lookup_def\<close>)
next
  fix s s' :: MemorySink and c now meta fill r k
  assume name: "meta_Name meta \<noteq> []" and k: "k \<noteq> fst (ms_keys s meta)"
    and W: "MemorySink_Write C c now meta fill s = (r, s')"
  from W show "ms_lookup s' k = ms_lookup s k"
  proof (cases rule: MemorySink_Write_cases)
    case (stored e meta' key m')
    then show ?thesis using name k by (simp add: ms_lookup_def ms_keys_def update_conv)
  qed (simp add: ms_lookup_def)
next
  fix s s' :: MemorySink and c now meta fill m
  assume name: "meta_Name meta \<noteq> []" and W: "MemorySink_Write C c now meta fill s = (Inr m, s')"
  from W show "man_ObjectKey m = fst (ms_keys s meta)"
    by (cases rule: MemorySink_Write_cases) (use name in \<open>auto simp: ms_keys_def\<close>)
next
  fix s s' :: MemorySink and c now meta fill r
  assume inv: "ms_inv s" and name: "name_ok (meta_Name meta)"
    and W: "MemorySink_Write C c now meta fill s = (r, s')"
  note fresh = fresh_draws_Suc [OF inv [unfolded ms_inv_def]]
  from W show "ms_inv s'"
  proof (cases rule: MemorySink_Write_cases)
    case (stored e meta' key m')
    have "inj (ms_rand s)" using fresh by (simp add: fresh_draws_def)
    then have "key \<notin> later_paths (ms_rand s) (ms_writes s + 1)"
      using stored(4) name draw_not_later reserved_not_later by (auto simp: name_ok_def)
    then show ?thesis
      using fresh_draws_upd [OF fresh, of key] stored(6)
      by (simp add: ms_inv_def ms_lookup_def update_conv')
  qed (use fresh in \<open>simp add: ms_inv_def ms_lookup_def\<close>)
qed

interpretation mem_named: named_sink C "MemorySink_Write C" ms_lookup ms_manifested ms_keys ms_inv
  for C :: codec
proof
  fix c now meta fill r and s s' :: MemorySink
  show "MemorySink_Write C c now meta fill s = (r, s') \<Longrightarrow> ms_keys s' = ms_keys s"
    by (rule ext) (simp add: ms_keys_def)
qed (auto simp: ms_keys_def data_key_not_manifest_key dest: data_key_inject)

section \<open>Sinks that put the data object first and its manifest second\<close>

definition write_name :: "ObjectMeta \<Rightarrow> time \<Rightarrow> string \<Rightarrow> string" where
  "write_name meta now b = (if meta_Name meta = [] then UniqueName now b else meta_Name meta)"

text \<open>
  The effect of such a write on the stored objects: nothing and an error, the data object alone and
  an error, both and an error (the store reported a failure it had not had), or both and the
  manifest. There is never a manifest without its object.
\<close>

inductive data_then_manifest ::
  "codec \<Rightarrow> string \<Rightarrow> string \<Rightarrow> time \<Rightarrow> ObjectMeta \<Rightarrow> fill \<Rightarrow> (string \<Rightarrow> string option)
   \<Rightarrow> Manifest result \<Rightarrow> (string \<Rightarrow> string option) \<Rightarrow> bool"
  for C prefix b now meta fill objs where
  nothing: "data_then_manifest C prefix b now meta fill objs (Inl err) objs"
| data:
  "\<lbrakk>meta' = meta \<or> meta' = meta\<lparr>meta_PartitionTime := now\<rparr>; fill (newEncoder meta') = Inr e;
    kd = joinPrefix prefix (fst (ObjectPaths meta (write_name meta now b)))\<rbrakk> \<Longrightarrow>
   data_then_manifest C prefix b now meta fill objs (Inl err) (objs(kd \<mapsto> object_body C (enc_lines e)))"
| unreported:
  "\<lbrakk>meta' = meta \<or> meta' = meta\<lparr>meta_PartitionTime := now\<rparr>; fill (newEncoder meta') = Inr e;
    kd = joinPrefix prefix (fst (ObjectPaths meta (write_name meta now b)));
    km = joinPrefix prefix (snd (ObjectPaths meta (write_name meta now b)));
    m = (finish C e)\<lparr>man_IngestedAt := now, man_ObjectKey := kd\<rparr>; manEncode C m = Inr mb\<rbrakk> \<Longrightarrow>
   data_then_manifest C prefix b now meta fill objs (Inl err)
     (objs(kd \<mapsto> object_body C (enc_lines e), km \<mapsto> mb))"
| both:
  "\<lbrakk>meta' = meta \<or> meta' = meta\<lparr>meta_PartitionTime := now\<rparr>; fill (newEncoder meta') = Inr e;
    kd = joinPrefix prefix (fst (ObjectPaths meta (write_name meta now b)));
    km = joinPrefix prefix (snd (ObjectPaths meta (write_name meta now b)));
    m = (finish C e)\<lparr>man_IngestedAt := now, man_ObjectKey := kd\<rparr>; manEncode C m = Inr mb\<rbrakk> \<Longrightarrow>
   data_then_manifest C prefix b now meta fill objs (Inr m)
     (objs(kd \<mapsto> object_body C (enc_lines e), km \<mapsto> mb))"

lemma prefixed_keys_differ:
  "joinPrefix p (snd (ObjectPaths m n)) \<noteq> joinPrefix p (fst (ObjectPaths m' n'))"
  using data_key_not_manifest_key [of m' n' m n] by auto

lemma data_then_manifest_durable:
  assumes "data_then_manifest C p b now meta fill objs (Inr m) objs'"
  shows "\<exists>e meta'. (meta' = meta \<or> meta' = meta\<lparr>meta_PartitionTime := now\<rparr>)
         \<and> fill (newEncoder meta') = Inr e
         \<and> m = (finish C e)\<lparr>man_IngestedAt := now, man_ObjectKey := man_ObjectKey m\<rparr>
         \<and> man_ObjectKey m = joinPrefix p (fst (ObjectPaths meta (write_name meta now b)))
         \<and> objs' (man_ObjectKey m) = Some (object_body C (enc_lines e))
         \<and> (\<exists>mb. manEncode C m = Inr mb
              \<and> objs' (joinPrefix p (snd (ObjectPaths meta (write_name meta now b)))) = Some mb)"
  using assms
proof (cases rule: data_then_manifest.cases)
  case (both meta' e kd km mb)
  have "kd \<noteq> km" using both prefixed_keys_differ by metis
  with both show ?thesis by (intro exI [of _ e] exI [of _ meta']) simp
qed

lemma data_then_manifest_confined:
  assumes "data_then_manifest C p b now meta fill objs r objs'"
    and "k \<noteq> joinPrefix p (fst (ObjectPaths meta (write_name meta now b)))"
    and "k \<noteq> joinPrefix p (snd (ObjectPaths meta (write_name meta now b)))"
  shows "objs' k = objs k"
  using assms by (cases rule: data_then_manifest.cases) auto

lemma data_then_manifest_generated:
  assumes "data_then_manifest C p (rnd (n + 1)) now meta fill objs r objs'" "meta_Name meta = []"
    and "fresh_draws rnd n objs p" "objs k = Some x"
  shows "objs' k = Some x"
proof -
  let ?n = "UniqueName now (rnd (n + 1))"
  have "objs (joinPrefix p (fst (ObjectPaths meta ?n))) = None"
    "objs (joinPrefix p (snd (ObjectPaths meta ?n))) = None"
    using fresh_draws_lookup [OF assms(3), of "n + 1"] by simp_all
  then have "k \<noteq> joinPrefix p (fst (ObjectPaths meta ?n))" "k \<noteq> joinPrefix p (snd (ObjectPaths meta ?n))"
    using assms(4) by auto
  then show ?thesis
    using data_then_manifest_confined [OF assms(1)] assms(2,4) by (simp add: write_name_def)
qed

lemma data_then_manifest_fresh:
  assumes "data_then_manifest C p (rnd (n + 1)) now meta fill objs r objs'"
    and "fresh_draws rnd n objs p" "name_ok (meta_Name meta)"
  shows "fresh_draws rnd (n + 1) objs' p"
proof -
  let ?n = "write_name meta now (rnd (n + 1))"
  have "inj rnd" using assms(2) by (simp add: fresh_draws_def)
  then have not_later: "fst (ObjectPaths meta ?n) \<notin> later_paths rnd (n + 1)"
    "snd (ObjectPaths meta ?n) \<notin> later_paths rnd (n + 1)"
    using assms(3) draw_not_later reserved_not_later by (auto simp: name_ok_def write_name_def)
  note fresh = fresh_draws_Suc [OF assms(2)]
  note data = fresh_draws_upd [OF fresh not_later(1)]
  from assms(1) show ?thesis
    by (cases rule: data_then_manifest.cases)
      (use fresh data fresh_draws_upd [OF data not_later(2)] in \<open>simp_all only:\<close>)
qed

end
