(* ===== verification/Checkpoint.thy ===== *)
theory Checkpoint
  imports Archive
begin

text \<open>
  Package \<^verbatim>\<open>internal/checkpoint\<close>: replay checkpoints behind a per-topic lease. The locale \<open>lease_store\<close>
  is the contract of \<^verbatim>\<open>checkpoint.Lease\<close> the subscriber relies on; it is interpreted on the in-memory
  store (\<^verbatim>\<open>memory.go\<close>) and on the Redis store (\<^verbatim>\<open>redis.go\<close>).

  A store operation is atomic (the memory store's mutex, the Lua scripts of the Redis store) and
  gets the instant at which it runs. Waiting for a lease is a sequence of attempts, each with the
  state of the store it finds, so any number of other collectors may act in between.
\<close>

definition Key :: "string \<Rightarrow> string \<Rightarrow> string" where
  "Key inst topic =
     (let r = map (\<lambda>c. if c = CHR ''{'' \<or> c = CHR ''}'' then CHR ''_'' else c)
      in r inst @ ''/'' @ r topic)"

section \<open>The contract\<close>

datatype lease_op = OpAcquire duration | OpCommit string | OpRenew | OpRelease | OpClear

text \<open>
  \<open>cp\<close> is the stored checkpoint, \<open>holder\<close> the owner whose lease is current at an instant, \<open>me\<close> the
  owner on whose behalf the operations below act, and \<open>ok\<close> says that the lease and the checkpoint
  are stored apart.
\<close>

locale lease_store =
  fixes commit :: "ctx \<Rightarrow> time \<Rightarrow> string \<Rightarrow> 'l \<Rightarrow> goerror option \<times> 'l"
    and renew :: "ctx \<Rightarrow> time \<Rightarrow> 'l \<Rightarrow> goerror option \<times> 'l"
    and release :: "ctx \<Rightarrow> time \<Rightarrow> 'l \<Rightarrow> goerror option \<times> 'l"
    and clear :: "ctx \<Rightarrow> time \<Rightarrow> 'l \<Rightarrow> goerror option \<times> 'l"
    and cp :: "'l \<Rightarrow> string option"
    and holder :: "time \<Rightarrow> 'l \<Rightarrow> string option"
    and me :: "'l \<Rightarrow> string"
    and ok :: "'l \<Rightarrow> bool"
  assumes commit_ok: "commit c now rid l = (None, l') \<Longrightarrow> cp l' = Some rid \<and> rid \<noteq> []"
    and commit_err: "commit c now rid l = (Some err, l') \<Longrightarrow> cp l' = cp l \<or> cp l' = Some rid"
    and commit_fenced: "holder now l \<noteq> Some (me l) \<Longrightarrow> commit c now rid l = (r, l')
      \<Longrightarrow> r \<noteq> None \<and> cp l' = cp l \<and> holder t l' = holder t l"
    and renew_cp: "renew c now l = (r, l') \<Longrightarrow> cp l' = cp l"
    and renew_fenced: "holder now l \<noteq> Some (me l) \<Longrightarrow> renew c now l = (r, l')
      \<Longrightarrow> r \<noteq> None \<and> holder t l' = holder t l"
    and release_cp: "ok l \<Longrightarrow> release c now l = (r, l') \<Longrightarrow> cp l' = cp l"
    and release_fenced: "holder now l \<noteq> Some (me l) \<Longrightarrow> release c now l = (r, l')
      \<Longrightarrow> holder t l' = holder t l"
    and clear_ok: "clear c now l = (None, l') \<Longrightarrow> cp l' = None"
    and clear_fenced: "holder now l \<noteq> Some (me l) \<Longrightarrow> clear c now l = (r, l')
      \<Longrightarrow> r \<noteq> None \<and> cp l' = cp l \<and> holder t l' = holder t l"
    and me_kept: "commit c now rid l = (r, l') \<Longrightarrow> me l' = me l"
      "renew c now l = (r, l') \<Longrightarrow> me l' = me l" "release c now l = (r, l') \<Longrightarrow> me l' = me l"
      "clear c now l = (r, l') \<Longrightarrow> me l' = me l"
    and ok_kept: "commit c now rid l = (r, l') \<Longrightarrow> ok l' = ok l"
      "renew c now l = (r, l') \<Longrightarrow> ok l' = ok l" "release c now l = (r, l') \<Longrightarrow> ok l' = ok l"
      "clear c now l = (r, l') \<Longrightarrow> ok l' = ok l"
begin

text \<open>An operation of the lease, its result dropped.\<close>

definition apply_op :: "time \<Rightarrow> lease_op \<Rightarrow> 'l \<Rightarrow> 'l" where
  "apply_op now op l =
     (case op of
        OpCommit rid \<Rightarrow> snd (commit None now rid l)
      | OpRenew \<Rightarrow> snd (renew None now l)
      | OpRelease \<Rightarrow> snd (release None now l)
      | OpClear \<Rightarrow> snd (clear None now l)
      | OpAcquire _ \<Rightarrow> l)"

lemma apply_op_fenced:
  assumes "holder now l \<noteq> Some (me l)" "ok l"
  shows "cp (apply_op now op l) = cp l \<and> holder t (apply_op now op l) = holder t l
    \<and> me (apply_op now op l) = me l \<and> ok (apply_op now op l)"
  using commit_fenced [OF assms(1) prod.collapse [symmetric]] renew_fenced [OF assms(1) prod.collapse [symmetric]]
    release_fenced [OF assms(1) prod.collapse [symmetric]] clear_fenced [OF assms(1) prod.collapse [symmetric]]
    me_kept(1) [OF prod.collapse [symmetric]] me_kept(2) [OF prod.collapse [symmetric]]
    me_kept(3) [OF prod.collapse [symmetric]] me_kept(4) [OF prod.collapse [symmetric]]
    renew_cp [OF prod.collapse [symmetric]] release_cp [OF assms(2) prod.collapse [symmetric]]
    ok_kept(1) [OF prod.collapse [symmetric]] ok_kept(2) [OF prod.collapse [symmetric]]
    ok_kept(3) [OF prod.collapse [symmetric]] ok_kept(4) [OF prod.collapse [symmetric]] assms(2)
  by (cases op) (simp_all add: apply_op_def)

text \<open>
  A collector that lost its lease is fenced: as long as another owner holds it, no sequence of its
  operations moves the checkpoint or takes the lease back.
\<close>

lemma fenced_run:
  assumes "\<And>now op. (now, op) \<in> set ops \<Longrightarrow> holder now l \<noteq> Some (me l)" "ok l"
  shows "cp (fold (\<lambda>(now, op). apply_op now op) ops l) = cp l
    \<and> holder t (fold (\<lambda>(now, op). apply_op now op) ops l) = holder t l"
  using assms
proof (induction ops arbitrary: l)
  case Nil
  then show ?case by simp
next
  case (Cons x ops)
  obtain now op where x: "x = (now, op)" by fastforce
  have fenced: "holder now l \<noteq> Some (me l)" using Cons.prems(1) x by auto
  note keep = apply_op_fenced [OF fenced Cons.prems(2)]
  have "cp (fold (\<lambda>(now, op). apply_op now op) ops (apply_op now op l)) = cp (apply_op now op l)
    \<and> holder t (fold (\<lambda>(now, op). apply_op now op) ops (apply_op now op l)) = holder t (apply_op now op l)"
    by (rule Cons.IH) (use Cons.prems(1) keep in auto)
  then show ?case using keep x by simp
qed

end

section \<open>The in-memory store\<close>

record memoryBackend =
  mb_leases :: "string \<rightharpoonup> string \<times> time"
  mb_checkpoints :: "string \<rightharpoonup> string"

record MemoryStore =
  st_owner :: string
  st_CommitHook :: "string \<Rightarrow> goerror option"
  st_AfterCommitHook :: "string \<Rightarrow> goerror option"
  st_LoadHook :: "goerror option"

text \<open>A new owner is the host's name and six random bytes; stores that share a backend have their own.\<close>

definition NewOwner :: "string \<Rightarrow> string \<Rightarrow> string" where "NewOwner host draw = host @ ''-'' @ hex_encode draw"

definition Share :: "string \<Rightarrow> string \<Rightarrow> MemoryStore" where
  "Share host draw =
     \<lparr>st_owner = NewOwner host draw, st_CommitHook = (\<lambda>k. None), st_AfterCommitHook = (\<lambda>k. None), st_LoadHook = None\<rparr>"

definition NewMemoryStore :: "string \<Rightarrow> string \<Rightarrow> MemoryStore \<times> memoryBackend" where
  "NewMemoryStore host draw = (Share host draw, \<lparr>mb_leases = Map.empty, mb_checkpoints = Map.empty\<rparr>)"

record memoryLease =
  ml_store :: MemoryStore
  ml_key :: string
  ml_ttl :: duration

definition mem_try_acquire ::
  "MemoryStore \<Rightarrow> string \<Rightarrow> duration \<Rightarrow> time \<Rightarrow> memoryBackend \<Rightarrow> (memoryLease \<times> memoryBackend) option" where
  "mem_try_acquire s key ttl now b =
     (if (case mb_leases b key of
            None \<Rightarrow> True
          | Some (owner, expires) \<Rightarrow> expires < now \<or> owner = st_owner s)
      then Some (\<lparr>ml_store = s, ml_key = key, ml_ttl = ttl\<rparr>,
                 b\<lparr>mb_leases := (mb_leases b)(key \<mapsto> (st_owner s, now + ttl))\<rparr>)
      else None)"

text \<open>\<open>Acquire\<close> polls every 10 ms; \<open>None\<close> means it still waits after the given attempts.\<close>

fun MemoryStore_Acquire ::
  "ctx \<Rightarrow> string \<Rightarrow> duration \<Rightarrow> MemoryStore \<Rightarrow> (time \<times> memoryBackend) list
   \<Rightarrow> (memoryLease \<times> memoryBackend) result option" where
  "MemoryStore_Acquire c key ttl s [] = None"
| "MemoryStore_Acquire c key ttl s ((now, b) # polls) =
     (case mem_try_acquire s key ttl now b of
        Some r \<Rightarrow> Some (Inr r)
      | None \<Rightarrow>
          if ctx_done c (now + 10 * millisecond) then Some (Inl ErrCanceled)
          else MemoryStore_Acquire c key ttl s polls)"

definition mem_holds :: "memoryLease \<Rightarrow> time \<Rightarrow> memoryBackend \<Rightarrow> bool" where
  "mem_holds l now b =
     (case mb_leases b (ml_key l) of
        None \<Rightarrow> False
      | Some (owner, expires) \<Rightarrow> owner = st_owner (ml_store l) \<and> \<not> expires < now)"

definition mem_extend :: "memoryLease \<Rightarrow> time \<Rightarrow> memoryBackend \<Rightarrow> memoryBackend" where
  "mem_extend l now b =
     b\<lparr>mb_leases := (mb_leases b)(ml_key l \<mapsto> (st_owner (ml_store l), now + ml_ttl l))\<rparr>"

definition mem_Load :: "memoryLease \<Rightarrow> memoryBackend \<Rightarrow> string option result" where
  "mem_Load l b =
     (case st_LoadHook (ml_store l) of
        Some err \<Rightarrow> Inl err
      | None \<Rightarrow> Inr (mb_checkpoints b (ml_key l)))"

definition mem_Commit ::
  "memoryLease \<Rightarrow> ctx \<Rightarrow> time \<Rightarrow> string \<Rightarrow> memoryBackend \<Rightarrow> goerror option \<times> memoryBackend" where
  "mem_Commit l c now rid b =
     (if rid = [] then (Some (Err ''refusing to commit an empty replay ID''), b)
      else case st_CommitHook (ml_store l) rid of
        Some err \<Rightarrow> (Some err, b)
      | None \<Rightarrow>
          if ctx_done c now then (Some ErrCanceled, b)
          else if \<not> mem_holds l now b then (Some ErrLeaseLost, b)
          else
            (st_AfterCommitHook (ml_store l) rid,
             mem_extend l now (b\<lparr>mb_checkpoints := (mb_checkpoints b)(ml_key l \<mapsto> rid)\<rparr>)))"

definition mem_Renew :: "memoryLease \<Rightarrow> time \<Rightarrow> memoryBackend \<Rightarrow> goerror option \<times> memoryBackend" where
  "mem_Renew l now b =
     (if \<not> mem_holds l now b then (Some ErrLeaseLost, b) else (None, mem_extend l now b))"

definition mem_Release :: "memoryLease \<Rightarrow> time \<Rightarrow> memoryBackend \<Rightarrow> goerror option \<times> memoryBackend" where
  "mem_Release l now b =
     (None, if mem_holds l now b then b\<lparr>mb_leases := (mb_leases b)(ml_key l := None)\<rparr> else b)"

definition mem_Clear :: "memoryLease \<Rightarrow> time \<Rightarrow> memoryBackend \<Rightarrow> goerror option \<times> memoryBackend" where
  "mem_Clear l now b =
     (if \<not> mem_holds l now b then (Some ErrLeaseLost, b)
      else (None, b\<lparr>mb_checkpoints := (mb_checkpoints b)(ml_key l := None)\<rparr>))"

text \<open>The direct setters of the tests.\<close>

definition mem_Set :: "string \<Rightarrow> string \<Rightarrow> memoryBackend \<Rightarrow> memoryBackend" where
  "mem_Set key rid b = b\<lparr>mb_checkpoints := (mb_checkpoints b)(key \<mapsto> rid)\<rparr>"

definition mem_ExpireLease :: "string \<Rightarrow> memoryBackend \<Rightarrow> memoryBackend" where
  "mem_ExpireLease key b = b\<lparr>mb_leases := (mb_leases b)(key := None)\<rparr>"

text \<open>The owner whose lease on a key is current at an instant.\<close>

definition mem_holder :: "time \<Rightarrow> memoryBackend \<Rightarrow> string \<Rightarrow> string option" where
  "mem_holder now b key =
     (case mb_leases b key of
        None \<Rightarrow> None
      | Some (owner, expires) \<Rightarrow> if expires < now then None else Some owner)"

lemma mem_holds_holder: "mem_holds l now b \<longleftrightarrow> mem_holder now b (ml_key l) = Some (st_owner (ml_store l))"
  by (auto simp: mem_holds_def mem_holder_def split: option.splits)

text \<open>The store as one collector sees it: its lease and the shared backend.\<close>

type_synonym mem_view = "memoryLease \<times> memoryBackend"

definition lift_view :: "('c \<Rightarrow> 'b \<Rightarrow> 'r \<times> 'b) \<Rightarrow> 'c \<times> 'b \<Rightarrow> 'r \<times> ('c \<times> 'b)" where
  "lift_view f v = (case f (fst v) (snd v) of (r, b) \<Rightarrow> (r, (fst v, b)))"

lemmas mem_op_defs = lift_view_def mem_Commit_def mem_Renew_def mem_Release_def mem_Clear_def
  mem_extend_def mem_holds_holder Let_def

interpretation mem: lease_store
  "\<lambda>c now rid. lift_view (\<lambda>l. mem_Commit l c now rid)"
  "\<lambda>c now. lift_view (\<lambda>l. mem_Renew l now)"
  "\<lambda>c now. lift_view (\<lambda>l. mem_Release l now)"
  "\<lambda>c now. lift_view (\<lambda>l. mem_Clear l now)"
  "\<lambda>v. mb_checkpoints (snd v) (ml_key (fst v))"
  "\<lambda>now v. mem_holder now (snd v) (ml_key (fst v))"
  "\<lambda>v. st_owner (ml_store (fst v))" "\<lambda>v. True"
  by unfold_locales
    (auto simp: mem_op_defs split: if_splits option.splits prod.splits dest: sym)

section \<open>The Redis store\<close>

text \<open>
  The server: each key has a value and perhaps an instant at which it expires. The commands are
  those the store uses, as Redis documents them.
\<close>

type_synonym redis = "string \<rightharpoonup> string \<times> time option"

definition redis_GET :: "time \<Rightarrow> string \<Rightarrow> redis \<Rightarrow> string option" where
  "redis_GET now k r =
     (case r k of
        None \<Rightarrow> None
      | Some (v, None) \<Rightarrow> Some v
      | Some (v, Some t) \<Rightarrow> if now < t then Some v else None)"

definition redis_SETNX :: "time \<Rightarrow> string \<Rightarrow> string \<Rightarrow> duration \<Rightarrow> redis \<Rightarrow> bool \<times> redis" where
  "redis_SETNX now k v ttl r =
     (if redis_GET now k r = None then (True, r(k \<mapsto> (v, Some (now + ttl)))) else (False, r))"

definition redis_SET :: "string \<Rightarrow> string \<Rightarrow> redis \<Rightarrow> redis" where
  "redis_SET k v r = r(k \<mapsto> (v, None))"

definition redis_PEXPIRE :: "time \<Rightarrow> string \<Rightarrow> int \<Rightarrow> redis \<Rightarrow> int \<times> redis" where
  "redis_PEXPIRE now k ms r =
     (case redis_GET now k r of
        None \<Rightarrow> (0, r)
      | Some v \<Rightarrow> (1, r(k \<mapsto> (v, Some (now + ms * millisecond)))))"

definition redis_DEL :: "time \<Rightarrow> string \<Rightarrow> redis \<Rightarrow> int \<times> redis" where
  "redis_DEL now k r = (if redis_GET now k r = None then 0 else 1, r(k := None))"

text \<open>The four Lua scripts; Redis runs each atomically.\<close>

definition renewScript :: "time \<Rightarrow> string \<Rightarrow> string \<Rightarrow> int \<Rightarrow> redis \<Rightarrow> int \<times> redis" where
  "renewScript now leaseKey owner ms r =
     (if redis_GET now leaseKey r = Some owner then redis_PEXPIRE now leaseKey ms r else (0, r))"

definition commitScript ::
  "time \<Rightarrow> string \<Rightarrow> string \<Rightarrow> string \<Rightarrow> int \<Rightarrow> string \<Rightarrow> redis \<Rightarrow> int \<times> redis" where
  "commitScript now leaseKey replayKey owner ms rid r =
     (if redis_GET now leaseKey r = Some owner
      then (1, snd (redis_PEXPIRE now leaseKey ms (redis_SET replayKey rid r)))
      else (0, r))"

definition clearScript :: "time \<Rightarrow> string \<Rightarrow> string \<Rightarrow> string \<Rightarrow> redis \<Rightarrow> int \<times> redis" where
  "clearScript now leaseKey replayKey owner r =
     (if redis_GET now leaseKey r = Some owner then (1, snd (redis_DEL now replayKey r)) else (0, r))"

definition releaseScript :: "time \<Rightarrow> string \<Rightarrow> string \<Rightarrow> redis \<Rightarrow> int \<times> redis" where
  "releaseScript now leaseKey owner r =
     (if redis_GET now leaseKey r = Some owner then redis_DEL now leaseKey r else (0, r))"

text \<open>
  A call to the server is answered, or fails before it reaches the server, or is executed and its
  reply lost.
\<close>

datatype net = Reply | NotSent goerror | ReplyLost goerror

definition redis_call :: "net \<Rightarrow> (redis \<Rightarrow> 'a \<times> redis) \<Rightarrow> redis \<Rightarrow> 'a result \<times> redis" where
  "redis_call n f r =
     (case n of
        Reply \<Rightarrow> (case f r of (a, r') \<Rightarrow> (Inr a, r'))
      | NotSent err \<Rightarrow> (Inl err, r)
      | ReplyLost err \<Rightarrow> (Inl err, snd (f r)))"

record RedisStore =
  rs_KeyPrefix :: string
  rs_Owner :: string
  rs_RetryInterval :: duration

record redisLease =
  rl_store :: RedisStore
  rl_leaseKey :: string
  rl_replayKey :: string
  rl_ttl :: duration

definition redis_keys :: "RedisStore \<Rightarrow> string \<Rightarrow> string \<times> string" where
  "redis_keys s key =
     (let base = rs_KeyPrefix s @ ''sfarch:{'' @ key @ ''}'' in (base @ '':lease'', base @ '':replay''))"

definition redis_try_acquire ::
  "RedisStore \<Rightarrow> string \<Rightarrow> duration \<Rightarrow> time \<Rightarrow> net \<Rightarrow> redis \<Rightarrow> redisLease option result \<times> redis" where
  "redis_try_acquire s key ttl now n r =
     (case redis_keys s key of (leaseKey, replayKey) \<Rightarrow>
        (case redis_call n (redis_SETNX now leaseKey (rs_Owner s) ttl) r of
           (Inl err, r') \<Rightarrow> (Inl (Wrap (''acquiring lease '' @ leaseKey) err), r')
         | (Inr ok, r') \<Rightarrow>
             (Inr (if ok then Some \<lparr>rl_store = s, rl_leaseKey = leaseKey, rl_replayKey = replayKey,
                                    rl_ttl = ttl\<rparr>
                   else None), r')))"

text \<open>\<open>None\<close>: still waiting after the given attempts.\<close>

fun redis_acquire_loop ::
  "ctx \<Rightarrow> string \<Rightarrow> duration \<Rightarrow> RedisStore \<Rightarrow> duration \<Rightarrow> (time \<times> net \<times> redis) list
   \<Rightarrow> (redisLease result \<times> time \<times> redis) option" where
  "redis_acquire_loop c key ttl s retry [] = None"
| "redis_acquire_loop c key ttl s retry ((now, n, r) # polls) =
     (case redis_try_acquire s key ttl now n r of
        (Inl err, r') \<Rightarrow> Some (Inl err, now, r')
      | (Inr (Some l), r') \<Rightarrow> Some (Inr l, now, r')
      | (Inr None, r') \<Rightarrow>
          if ctx_done c (now + retry) then Some (Inl ErrCanceled, now + retry, r')
          else redis_acquire_loop c key ttl s retry polls)"

definition RedisStore_Acquire ::
  "ctx \<Rightarrow> string \<Rightarrow> duration \<Rightarrow> RedisStore \<Rightarrow> (time \<times> net \<times> redis) list \<Rightarrow> time \<Rightarrow> redis
   \<Rightarrow> (redisLease result \<times> time \<times> redis) option" where
  "RedisStore_Acquire c key ttl s polls now r0 =
     (if ttl < second then Some (Inl (Err ''lease ttl must be at least 1s''), now, r0)
      else
        let retry = (if rs_RetryInterval s = 0 then ttl div 3 else rs_RetryInterval s)
        in redis_acquire_loop c key ttl s retry polls)"

definition rl_owner :: "redisLease \<Rightarrow> string" where "rl_owner l = rs_Owner (rl_store l)"
definition rl_ms :: "redisLease \<Rightarrow> int" where "rl_ms l = rl_ttl l div millisecond"

definition redis_Load :: "redisLease \<Rightarrow> time \<Rightarrow> net \<Rightarrow> redis \<Rightarrow> string option result" where
  "redis_Load l now n r =
     (case redis_call n (\<lambda>r. (redis_GET now (rl_replayKey l) r, r)) r of
        (Inl err, _) \<Rightarrow> Inl (Wrap (''loading checkpoint '' @ rl_replayKey l) err)
      | (Inr v, _) \<Rightarrow> Inr v)"

definition script_result :: "string \<Rightarrow> int result \<times> redis \<Rightarrow> goerror option \<times> redis" where
  "script_result what res =
     (case res of
        (Inl err, r) \<Rightarrow> (Some (Wrap what err), r)
      | (Inr n, r) \<Rightarrow> (if n \<noteq> 1 then Some ErrLeaseLost else None, r))"

definition redis_Commit :: "redisLease \<Rightarrow> net \<Rightarrow> time \<Rightarrow> string \<Rightarrow> redis \<Rightarrow> goerror option \<times> redis" where
  "redis_Commit l n now rid r =
     (if rid = [] then (Some (Err ''refusing to commit an empty replay ID''), r)
      else script_result (''committing checkpoint '' @ rl_replayKey l)
        (redis_call n (commitScript now (rl_leaseKey l) (rl_replayKey l) (rl_owner l) (rl_ms l) rid) r))"

definition redis_Renew :: "redisLease \<Rightarrow> net \<Rightarrow> time \<Rightarrow> redis \<Rightarrow> goerror option \<times> redis" where
  "redis_Renew l n now r =
     script_result (''renewing lease '' @ rl_leaseKey l)
       (redis_call n (renewScript now (rl_leaseKey l) (rl_owner l) (rl_ms l)) r)"

definition redis_Release :: "redisLease \<Rightarrow> net \<Rightarrow> time \<Rightarrow> redis \<Rightarrow> goerror option \<times> redis" where
  "redis_Release l n now r =
     (case redis_call n (releaseScript now (rl_leaseKey l) (rl_owner l)) r of
        (Inl err, r') \<Rightarrow> (Some err, r')
      | (Inr _, r') \<Rightarrow> (None, r'))"

definition redis_Clear :: "redisLease \<Rightarrow> net \<Rightarrow> time \<Rightarrow> redis \<Rightarrow> goerror option \<times> redis" where
  "redis_Clear l n now r =
     script_result (''clearing checkpoint '' @ rl_replayKey l)
       (redis_call n (clearScript now (rl_leaseKey l) (rl_replayKey l) (rl_owner l)) r)"

text \<open>
  One collector's view: its lease, the outcome of its n-th call, the number of calls made, and the
  server.
\<close>

record redis_view =
  rv_lease :: redisLease
  rv_net :: "nat \<Rightarrow> net"
  rv_calls :: nat
  rv_redis :: redis

definition rv_op :: "(redisLease \<Rightarrow> net \<Rightarrow> redis \<Rightarrow> 'r \<times> redis) \<Rightarrow> redis_view \<Rightarrow> 'r \<times> redis_view" where
  "rv_op f v =
     (case f (rv_lease v) (rv_net v (rv_calls v)) (rv_redis v) of
        (x, r) \<Rightarrow> (x, v\<lparr>rv_calls := rv_calls v + 1, rv_redis := r\<rparr>))"

text \<open>\<open>polls\<close> is what the attempts to acquire the lease find.\<close>

definition rv_Acquire ::
  "RedisStore \<Rightarrow> string \<Rightarrow> duration \<Rightarrow> (time \<times> net \<times> redis) list \<Rightarrow> ctx \<Rightarrow> time \<Rightarrow> redis_view
   \<Rightarrow> (goerror option \<times> time \<times> redis_view) option" where
  "rv_Acquire s key ttl polls c now v =
     (case RedisStore_Acquire c key ttl s polls now (rv_redis v) of
        None \<Rightarrow> None
      | Some (Inl err, t, r) \<Rightarrow> Some (Some err, t, v\<lparr>rv_redis := r\<rparr>)
      | Some (Inr l, t, r) \<Rightarrow> Some (None, t, v\<lparr>rv_lease := l, rv_redis := r\<rparr>))"

definition rv_Load :: "ctx \<Rightarrow> time \<Rightarrow> redis_view \<Rightarrow> string option result \<times> redis_view" where
  "rv_Load c now = rv_op (\<lambda>l n r. (redis_Load l now n r, r))"

definition rv_cp :: "redis_view \<Rightarrow> string option" where
  "rv_cp v = map_option fst (rv_redis v (rl_replayKey (rv_lease v)))"

definition rv_holder :: "time \<Rightarrow> redis_view \<Rightarrow> string option" where
  "rv_holder now v = redis_GET now (rl_leaseKey (rv_lease v)) (rv_redis v)"

definition rv_Commit :: "ctx \<Rightarrow> time \<Rightarrow> string \<Rightarrow> redis_view \<Rightarrow> goerror option \<times> redis_view" where
  "rv_Commit c now rid = rv_op (\<lambda>l n. redis_Commit l n now rid)"

definition rv_Renew :: "ctx \<Rightarrow> time \<Rightarrow> redis_view \<Rightarrow> goerror option \<times> redis_view" where
  "rv_Renew c now = rv_op (\<lambda>l n. redis_Renew l n now)"

definition rv_Release :: "ctx \<Rightarrow> time \<Rightarrow> redis_view \<Rightarrow> goerror option \<times> redis_view" where
  "rv_Release c now = rv_op (\<lambda>l n. redis_Release l n now)"

definition rv_Clear :: "ctx \<Rightarrow> time \<Rightarrow> redis_view \<Rightarrow> goerror option \<times> redis_view" where
  "rv_Clear c now = rv_op (\<lambda>l n. redis_Clear l n now)"

definition rv_owner :: "redis_view \<Rightarrow> string" where "rv_owner v = rl_owner (rv_lease v)"

definition rv_ok :: "redis_view \<Rightarrow> bool" where
  "rv_ok v \<longleftrightarrow> rl_leaseKey (rv_lease v) \<noteq> rl_replayKey (rv_lease v)"

lemma redis_keys_differ: "redis_keys s key = (leaseKey, replayKey) \<Longrightarrow> leaseKey \<noteq> replayKey"
  by (auto simp: redis_keys_def Let_def)

lemmas rv_defs = rv_Commit_def rv_Renew_def rv_Release_def rv_Clear_def rv_cp_def rv_holder_def
  rv_owner_def rv_ok_def rv_op_def rl_owner_def
lemmas redis_op_defs = redis_Commit_def redis_Renew_def redis_Release_def redis_Clear_def
  script_result_def redis_call_def commitScript_def renewScript_def releaseScript_def
  clearScript_def redis_SET_def redis_PEXPIRE_def redis_DEL_def

lemma redis_GET_Some: "redis_GET now k r = Some v \<Longrightarrow> \<exists>e. r k = Some (v, e)"
  by (auto simp: redis_GET_def split: option.splits if_splits)

lemma redis_GET_upd [simp]:
  "redis_GET now k (r(k \<mapsto> (v, None))) = Some v"
  "j \<noteq> k \<Longrightarrow> redis_GET now k (r(j \<mapsto> x)) = redis_GET now k r"
  "redis_GET now k (r(k := None)) = None"
  "j \<noteq> k \<Longrightarrow> redis_GET now k (r(j := None)) = redis_GET now k r"
  by (auto simp: redis_GET_def)

interpretation redis: lease_store rv_Commit rv_Renew rv_Release rv_Clear rv_cp rv_holder rv_owner rv_ok
  by unfold_locales
    (auto simp: rv_defs redis_op_defs Let_def split: if_splits option.splits prod.splits net.splits sum.splits
      dest: redis_GET_Some)

section \<open>Several collectors on one server\<close>

text \<open>An attempt of the collector \<open>s\<close> on a key: acquire, or an operation of a lease it once got.\<close>

definition redis_lease_of :: "RedisStore \<Rightarrow> string \<Rightarrow> duration \<Rightarrow> redisLease" where
  "redis_lease_of s key ttl =
     \<lparr>rl_store = s, rl_leaseKey = fst (redis_keys s key), rl_replayKey = snd (redis_keys s key),
      rl_ttl = ttl\<rparr>"

definition redis_apply ::
  "RedisStore \<Rightarrow> string \<Rightarrow> duration \<Rightarrow> time \<Rightarrow> net \<Rightarrow> lease_op \<Rightarrow> redis \<Rightarrow> redis" where
  "redis_apply s key ttl now n op r =
     (let l = redis_lease_of s key ttl in
      case op of
        OpAcquire d \<Rightarrow> snd (redis_try_acquire s key d now n r)
      | OpCommit rid \<Rightarrow> snd (redis_Commit l n now rid r)
      | OpRenew \<Rightarrow> snd (redis_Renew l n now r)
      | OpRelease \<Rightarrow> snd (redis_Release l n now r)
      | OpClear \<Rightarrow> snd (redis_Clear l n now r))"

text \<open>One attempt: who, when, with what network outcome, and what.\<close>

type_synonym attempt = "RedisStore \<times> duration \<times> time \<times> net \<times> lease_op"

definition redis_attempt :: "string \<Rightarrow> attempt \<Rightarrow> redis \<Rightarrow> redis" where
  "redis_attempt key a r = (case a of (s, ttl, now, n, op) \<Rightarrow> redis_apply s key ttl now n op r)"

definition foreign :: "string \<Rightarrow> string \<Rightarrow> time \<Rightarrow> attempt \<Rightarrow> bool" where
  "foreign prefix owner until a =
     (case a of (s, ttl, now, n, op) \<Rightarrow> rs_KeyPrefix s = prefix \<and> rs_Owner s \<noteq> owner \<and> now < until)"

lemma redis_keys_prefix: "rs_KeyPrefix s = rs_KeyPrefix s' \<Longrightarrow> redis_keys s key = redis_keys s' key"
  by (simp add: redis_keys_def)

lemma redis_apply_foreign:
  assumes "rs_KeyPrefix s = rs_KeyPrefix a" "rs_Owner s \<noteq> rs_Owner a" "now < e"
    and "r (fst (redis_keys a key)) = Some (rs_Owner a, Some e)"
  shows "redis_apply s key ttl now n op r = r"
proof -
  have held: "redis_GET now (fst (redis_keys s key)) r = Some (rs_Owner a)"
    using assms by (simp add: redis_GET_def redis_keys_prefix [OF assms(1)])
  then show ?thesis
    using assms(2)
    by (cases op) (auto simp: redis_apply_def redis_lease_of_def redis_try_acquire_def redis_SETNX_def
        redis_op_defs rl_owner_def Let_def split: prod.splits net.splits if_splits)
qed

lemma rv_Load_effect:
  "rv_Load c now v = (res, v') \<Longrightarrow> rv_cp v' = rv_cp v \<and> rv_ok v' = rv_ok v
     \<and> (\<forall>rid. res = Inr (Some rid) \<longrightarrow> rv_cp v = Some rid)"
  by (auto simp: rv_Load_def rv_op_def rv_cp_def rv_ok_def redis_Load_def redis_call_def
      split: net.splits dest: redis_GET_Some)

lemma redis_acquire_loop_lease:
  "redis_acquire_loop c key ttl s retry polls = Some (Inr l, t, r) \<Longrightarrow> rl_leaseKey l \<noteq> rl_replayKey l"
  by (induction polls)
    (auto simp: redis_try_acquire_def redis_keys_def Let_def split: prod.splits sum.splits option.splits if_splits)

lemma rv_Acquire_ok: "rv_Acquire s key ttl polls c now v = Some (None, t, v') \<Longrightarrow> rv_ok v'"
  by (auto simp: rv_Acquire_def rv_ok_def RedisStore_Acquire_def Let_def redis_acquire_loop_lease
      split: option.splits prod.splits sum.splits if_splits)

text \<open>
  C2: the lease fences other collectors. While the lease on a topic is held by one collector until
  \<open>e\<close>, any sequence of attempts by any other collectors before \<open>e\<close> (to acquire the lease, to commit,
  renew, release or clear with a lease they once held), with any network failures, leaves the
  server unchanged: the checkpoint of the topic cannot be moved by anyone but the holder.
\<close>

theorem redis_lease_exclusive:
  assumes "r (fst (redis_keys a key)) = Some (rs_Owner a, Some e)"
    and "\<forall>x \<in> set attempts. foreign (rs_KeyPrefix a) (rs_Owner a) e x"
  shows "fold (redis_attempt key) attempts r = r"
  using assms(2)
proof (induction attempts)
  case (Cons x attempts)
  have "redis_attempt key x r = r"
    using Cons.prems redis_apply_foreign [where r = r and a = a and e = e and key = key] assms(1)
    by (auto simp: redis_attempt_def foreign_def split: prod.splits)
  then show ?case using Cons by simp
qed simp

definition wit_store :: "string \<Rightarrow> RedisStore" where
  "wit_store owner = \<lparr>rs_KeyPrefix = [], rs_Owner = owner, rs_RetryInterval = 0\<rparr>"

lemma redis_lease_exclusive_witness:
  "fold (redis_attempt ''i/t'')
     [(wit_store ''b'', 30 * second, 5, Reply, OpAcquire (30 * second)),
      (wit_store ''b'', 30 * second, 6, ReplyLost (Err ''timeout''), OpCommit ''x''),
      (wit_store ''c'', 30 * second, 7, Reply, OpClear)]
     [''sfarch:{i/t}:lease'' \<mapsto> (''a'', Some 10), ''sfarch:{i/t}:replay'' \<mapsto> (''r'', None)]
   = [''sfarch:{i/t}:lease'' \<mapsto> (''a'', Some 10), ''sfarch:{i/t}:replay'' \<mapsto> (''r'', None)]"
  by (rule redis_lease_exclusive [where a = "wit_store ''a''" and e = 10])
    (simp_all add: redis_keys_def wit_store_def foreign_def)

text \<open>
  A lease is handed over, never shared: an attempt to acquire that is answered with the lease
  found no current holder, and the new holder's lease runs for the whole TTL.
\<close>

theorem redis_acquire_exclusive:
  assumes "redis_try_acquire s key ttl now n r = (Inr (Some l), r')"
  shows "redis_GET now (fst (redis_keys s key)) r = None
    \<and> r' = r(fst (redis_keys s key) \<mapsto> (rs_Owner s, Some (now + ttl)))
    \<and> l = redis_lease_of s key ttl"
  using assms
  by (auto simp: redis_try_acquire_def redis_SETNX_def redis_call_def redis_lease_of_def
      split: prod.splits net.splits if_splits)

lemma redis_acquire_exclusive_witness:
  "redis_GET 5 ''sfarch:{i/t}:lease'' [''sfarch:{i/t}:lease'' \<mapsto> (''b'', Some 5)] = None"
  using redis_acquire_exclusive
    [of "wit_store ''a''" "''i/t''" 30 5 Reply "[''sfarch:{i/t}:lease'' \<mapsto> (''b'', Some 5)]"
        "redis_lease_of (wit_store ''a'') ''i/t'' 30"
        "[''sfarch:{i/t}:lease'' \<mapsto> (''a'', Some 35)]"]
  by (simp add: redis_try_acquire_def redis_SETNX_def redis_call_def redis_lease_of_def redis_keys_def
      wit_store_def redis_GET_def)

end
