(* ===== verification/Subscriber.thy ===== *)
theory Subscriber
  imports Sinks Checkpoint
begin

text \<open>
  \<^verbatim>\<open>internal/integration/stream/subscriber.go\<close>: the collector of one Pub/Sub topic.

  The subscriber's dependencies are the record \<open>env\<close>: the archive sink and the lease (both defined
  in this library), the Pub/Sub client, and oracles for what the code does not control, the latency
  of a call and the random part of a delay. A session is driven by the sequence of channel
  receptions its \<^verbatim>\<open>select\<close> makes, each with the instant of the reception; a reception from a
  channel that is not ready at that instant is ignored. Every call takes at least one nanosecond.

  Metrics and log lines are not modelled.
\<close>

section \<open>Errors and options\<close>

definition fatal :: "goerror \<Rightarrow> goerror" where "fatal err = FatalError err"

fun is_FatalError :: "goerror \<Rightarrow> bool" where
  "is_FatalError (FatalError _) = True" | "is_FatalError _ = False"

fun is_AuthError :: "goerror \<Rightarrow> bool" where
  "is_AuthError (AuthError _) = True" | "is_AuthError _ = False"

fun is_SchemaFetchError :: "goerror \<Rightarrow> bool" where
  "is_SchemaFetchError (SchemaFetchError _ _) = True" | "is_SchemaFetchError _ = False"

definition IsFatal :: "goerror \<Rightarrow> bool" where "IsFatal err \<longleftrightarrow> errors_as is_FatalError err \<noteq> None"
definition isAuthError :: "goerror \<Rightarrow> bool" where
  "isAuthError err \<longleftrightarrow> errors_as is_AuthError err \<noteq> None"
definition isSchemaError :: "goerror \<Rightarrow> bool" where
  "isSchemaError err \<longleftrightarrow> errors_as is_SchemaFetchError err \<noteq> None"

definition IsFatal_opt :: "goerror option \<Rightarrow> bool" where
  "IsFatal_opt r = (case r of None \<Rightarrow> False | Some err \<Rightarrow> IsFatal err)"

definition EOF :: goerror where "EOF = Err ''EOF''"

lemma IsFatal_fatal [simp]: "IsFatal (fatal err)"
  by (simp add: IsFatal_def fatal_def chain_simps)

lemma IsFatal_FatalError [simp]: "IsFatal (FatalError err)"
  by (simp add: IsFatal_def chain_simps)

definition MaxAppetite :: int where "MaxAppetite = 100"
definition ReplayEarliest :: string where "ReplayEarliest = ''EARLIEST''"
definition ReplayLatest :: string where "ReplayLatest = ''LATEST''"
definition errorCodeAuth :: string where
  "errorCodeAuth = ''sfdc.platform.eventbus.grpc.service.auth.error''"
definition maxAuthFailures :: int where "maxAuthFailures = 5"
definition streamIdleTimeout :: duration where "streamIdleTimeout = 300 * 1000000000"

record SubscriberOptions =
  so_Topic :: string
  so_Instance :: string
  so_OrgId :: string
  so_Env :: string
  so_Appetite :: int
  so_MaxEvents :: int
  so_MaxAge :: duration
  so_InitialReplay :: string
  so_LeaseTTL :: duration
  so_WriteAttempts :: int
  so_ShutdownFlushTimeout :: duration
  so_MaxBackoff :: duration
  so_RetryDelay :: duration

definition SubscriberOptions_defaults :: "SubscriberOptions \<Rightarrow> SubscriberOptions" where
  "SubscriberOptions_defaults opts =
     (let o1 = (if so_Appetite opts \<le> 0 then opts\<lparr>so_Appetite := MaxAppetite\<rparr> else opts);
          o2 = (if MaxAppetite < so_Appetite o1 then o1\<lparr>so_Appetite := MaxAppetite\<rparr> else o1);
          o3 = (if so_MaxEvents o2 \<le> 0 then o2\<lparr>so_MaxEvents := 1000\<rparr> else o2);
          o4 = (if so_MaxAge o3 \<le> 0 then o3\<lparr>so_MaxAge := 60 * second\<rparr> else o3);
          o5 = (if so_LeaseTTL o4 \<le> 0 then o4\<lparr>so_LeaseTTL := 30 * second\<rparr> else o4);
          o6 = (if so_WriteAttempts o5 \<le> 0 then o5\<lparr>so_WriteAttempts := 5\<rparr> else o5);
          o7 = (if so_ShutdownFlushTimeout o6 \<le> 0
                then o6\<lparr>so_ShutdownFlushTimeout := 90 * second\<rparr> else o6);
          o8 = (if so_MaxBackoff o7 \<le> 0 then o7\<lparr>so_MaxBackoff := 60 * second\<rparr> else o7);
          o9 = (if so_RetryDelay o8 \<le> 0 then o8\<lparr>so_RetryDelay := second\<rparr> else o8)
      in o9\<lparr>so_InitialReplay := ToUpper (TrimSpace (so_InitialReplay o9))\<rparr>)"

section \<open>The client\<close>

record ConsumerEvent =
  ev_ReplayId :: string
  ev_SchemaId :: string
  ev_Payload :: string

record FetchResponse =
  fr_Events :: "ConsumerEvent list"
  fr_LatestReplayId :: string
  fr_PendingNumRequested :: int

datatype ReplayPreset = LATEST | EARLIEST | CUSTOM string

record FetchRequest =
  fq_TopicName :: string
  fq_NumRequested :: int
  fq_ReplayPreset :: ReplayPreset

text \<open>An error of \<^verbatim>\<open>Recv\<close> with the \<^verbatim>\<open>error-code\<close> trailer and whether its status is Unauthenticated.\<close>

record stream_error =
  se_err :: goerror
  se_code :: string
  se_Unauthenticated :: bool

text \<open>What the \<^verbatim>\<open>select\<close> of a session can receive.\<close>

datatype session_event =
    CtxDone
  | RenewErr goerror
  | IdleTimeout
  | FlushTimer
  | Recv FetchResponse
  | RecvErr stream_error

text \<open>
  A subscription stream: what its sends return and what the session receives while it is open.
\<close>

record stream =
  sc_Send0 :: "goerror option"
  sc_Send :: "nat \<Rightarrow> goerror option"
  sc_events :: "(time \<times> session_event) list"

record ('s, 'l) env =
  env_codec :: codec
  env_Write :: "'s sink_write"
  env_Acquire :: "ctx \<Rightarrow> time \<Rightarrow> 'l \<Rightarrow> (goerror option \<times> time \<times> 'l) option"
  env_Load :: "ctx \<Rightarrow> time \<Rightarrow> 'l \<Rightarrow> string option result \<times> 'l"
  env_Commit :: "ctx \<Rightarrow> time \<Rightarrow> string \<Rightarrow> 'l \<Rightarrow> goerror option \<times> 'l"
  env_Release :: "ctx \<Rightarrow> time \<Rightarrow> 'l \<Rightarrow> goerror option \<times> 'l"
  env_Authenticate :: "nat \<Rightarrow> string result"
  env_Subscribe :: "nat \<Rightarrow> FetchRequest \<Rightarrow> stream result"
  env_DecodeEvent :: "time \<Rightarrow> ConsumerEvent \<Rightarrow> (payload \<times> string) result"
  env_latency :: "nat \<Rightarrow> duration"
  env_rand :: "nat \<Rightarrow> int"

text \<open>The subscriber, with the client's and the session's state.\<close>

record ('s, 'l) sub =
  su_committed :: "string option"
  su_buffer :: "Record list"
  su_bufferStart :: time
  su_sessionHealthy :: bool
  su_authFailures :: int
  su_active :: bool
  su_OrgId :: string
  su_auths :: nat
  su_streams :: nat
  su_pending :: int
  su_sends :: nat
  su_flushAt :: "time option"
  su_idleAt :: time
  su_sink :: 's
  su_lease :: 'l
  su_now :: time
  su_ticks :: nat

definition NewSubscriber :: "'s \<Rightarrow> 'l \<Rightarrow> time \<Rightarrow> ('s, 'l) sub" where
  "NewSubscriber sink lease now =
     \<lparr>su_committed = None, su_buffer = [], su_bufferStart = zero_time, su_sessionHealthy = False,
      su_authFailures = 0, su_active = False, su_OrgId = [], su_auths = 0, su_streams = 0,
      su_pending = 0, su_sends = 0, su_flushAt = None, su_idleAt = 0, su_sink = sink,
      su_lease = lease, su_now = now, su_ticks = 0\<rparr>"

definition tick :: "('s, 'l) env \<Rightarrow> ('s, 'l) sub \<Rightarrow> ('s, 'l) sub" where
  "tick E st = st\<lparr>su_now := su_now st + max 1 (env_latency E (su_ticks st)),
                  su_ticks := su_ticks st + 1\<rparr>"

definition sleep :: "ctx \<Rightarrow> duration \<Rightarrow> ('s, 'l) sub \<Rightarrow> goerror option \<times> ('s, 'l) sub" where
  "sleep c d st =
     (let until = su_now st + max 0 d in
      case c of
        None \<Rightarrow> (None, st\<lparr>su_now := until\<rparr>)
      | Some t \<Rightarrow>
          if t \<le> until then (Some ErrCanceled, st\<lparr>su_now := max (su_now st) t\<rparr>)
          else (None, st\<lparr>su_now := until\<rparr>))"

text \<open>\<^verbatim>\<open>rand.N(half)\<close> is in \<open>[0, half)\<close>.\<close>

definition jitter :: "duration \<Rightarrow> int \<Rightarrow> duration" where
  "jitter d r = (if d < 2 then d else let half = d div 2 in half + r mod half)"

definition backoff_next :: "duration \<Rightarrow> duration \<Rightarrow> duration" where
  "backoff_next d limit = (if limit < 2 * d then limit else 2 * d)"

definition encodeReplay :: "string \<Rightarrow> string" where
  "encodeReplay b = (if b = [] then [] else b64_encode b)"

section \<open>Archiving a batch\<close>

text \<open>
  Once the collector's context is done at \<open>t\<close>, a flush has \<open>ShutdownFlushTimeout\<close> from then, or from
  its own start when that is later.
\<close>

definition flushContext :: "SubscriberOptions \<Rightarrow> ctx \<Rightarrow> time \<Rightarrow> ctx" where
  "flushContext opts c now =
     (case c of None \<Rightarrow> None | Some t \<Rightarrow> Some (max t now + so_ShutdownFlushTimeout opts))"

fun write_attempts ::
  "('s, 'l) env \<Rightarrow> ctx \<Rightarrow> ObjectMeta \<Rightarrow> Record list \<Rightarrow> duration \<Rightarrow> nat \<Rightarrow> goerror
   \<Rightarrow> ('s, 'l) sub \<Rightarrow> goerror option \<times> ('s, 'l) sub" where
  "write_attempts E c meta rs delay 0 lastErr st =
     (Some (fatal (Wrap ''archive write failed after retries, checkpoint not advanced'' lastErr)), st)"
| "write_attempts E c meta rs delay (Suc left) lastErr st =
     (case WriteRecords (env_codec E) (env_Write E) c (su_now st) meta rs (su_sink st) of
        (Inr m, sink') \<Rightarrow> (None, tick E (st\<lparr>su_sink := sink'\<rparr>))
      | (Inl err, sink') \<Rightarrow>
          let st1 = tick E (st\<lparr>su_sink := sink'\<rparr>) in
          if left = 0 then write_attempts E c meta rs delay 0 err st1
          else
            (case sleep c (jitter delay (env_rand E (su_ticks st1))) st1 of
               (Some _, st2) \<Rightarrow> write_attempts E c meta rs delay 0 err st2
             | (None, st2) \<Rightarrow>
                 write_attempts E c meta rs (backoff_next delay (30 * second)) left err st2))"

definition writeWithRetry ::
  "('s, 'l) env \<Rightarrow> SubscriberOptions \<Rightarrow> ctx \<Rightarrow> ObjectMeta \<Rightarrow> Record list \<Rightarrow> ('s, 'l) sub
   \<Rightarrow> goerror option \<times> ('s, 'l) sub" where
  "writeWithRetry E opts c meta rs st =
     write_attempts E c meta rs (so_RetryDelay opts) (nat (so_WriteAttempts opts)) (Err ''%!w(<nil>)'') st"

definition commitBudget :: "SubscriberOptions \<Rightarrow> duration" where
  "commitBudget opts =
     (let budget = so_LeaseTTL opts - so_LeaseTTL opts div 3
      in if 5 * second < budget then budget else 5 * second)"

lemma tick_now: "su_now st < su_now (tick E st)"
  by (simp add: tick_def)

lemma sleep_now: "sleep c d st = (r, st') \<Longrightarrow> su_now st \<le> su_now st'"
  by (auto simp: sleep_def Let_def split: option.splits if_splits)

lemma tick_lease_now: "\<not> d < su_now (tick E (st\<lparr>su_lease := l\<rparr>)) \<Longrightarrow> su_now st \<le> d"
  by (simp add: tick_def)

lemma sleep_tick_now:
  assumes "sleep c d (tick E st) = (r, st')"
  shows "su_now st < su_now st'"
  using sleep_now [OF assms] tick_now [of st E] by linarith

text \<open>
  The retry loop of \<open>commit\<close> ends: the clock advances with every call, and a failure after the
  deadline is the last.
\<close>

function commit_loop ::
  "('s, 'l) env \<Rightarrow> ctx \<Rightarrow> time \<Rightarrow> duration \<Rightarrow> string \<Rightarrow> ('s, 'l) sub
   \<Rightarrow> goerror option \<times> ('s, 'l) sub" where
  "commit_loop E c deadline delay rid st =
     (case env_Commit E c (su_now st) rid (su_lease st) of
        (None, lease') \<Rightarrow> (None, (tick E (st\<lparr>su_lease := lease'\<rparr>))\<lparr>su_committed := Some rid\<rparr>)
      | (Some err, lease') \<Rightarrow>
          let st1 = tick E (st\<lparr>su_lease := lease'\<rparr>);
              failed = Some (fatal (Wrap ''committing checkpoint failed'' err))
          in if errors_is err ErrLeaseLost \<or> deadline < su_now st1 then (failed, st1)
             else
               (case sleep c (jitter delay (env_rand E (su_ticks st1))) st1 of
                  (Some _, st2) \<Rightarrow> (failed, st2)
                | (None, st2) \<Rightarrow> commit_loop E c deadline (backoff_next delay (5 * second)) rid st2))"
  by pat_completeness auto
termination
  by (relation "measure (\<lambda>(E, c, deadline, delay, rid, st). nat (deadline + 1 - su_now st))")
    (auto dest: sleep_tick_now [OF sym] tick_lease_now)

declare commit_loop.simps [simp del]

definition commit ::
  "('s, 'l) env \<Rightarrow> SubscriberOptions \<Rightarrow> ctx \<Rightarrow> string \<Rightarrow> ('s, 'l) sub
   \<Rightarrow> goerror option \<times> ('s, 'l) sub" where
  "commit E opts c rid st =
     commit_loop E c (su_now st + commitBudget opts) (so_RetryDelay opts) rid st"

text \<open>The groups of a batch in first-seen order of their type.\<close>

definition group_order :: "Record list \<Rightarrow> string list" where
  "group_order rs = foldl (\<lambda>order r. if rec_Type r \<in> set order then order else order @ [rec_Type r]) [] rs"

definition group :: "Record list \<Rightarrow> string \<Rightarrow> Record list" where
  "group rs ty = filter (\<lambda>r. rec_Type r = ty) rs"

definition batch_meta ::
  "SubscriberOptions \<Rightarrow> string \<Rightarrow> time \<Rightarrow> string \<Rightarrow> Record list \<Rightarrow> ObjectMeta" where
  "batch_meta opts orgId part eventType records =
     \<lparr>meta_Source = SourceStream, meta_OrgId = orgId, meta_Instance = so_Instance opts,
      meta_Env = so_Env opts, meta_EventType = eventType, meta_PartitionTime = part,
      meta_Name = [],
      meta_Lineage = [(''topic'', so_Topic opts),
                      (''replayIdFirst'', encodeReplay (rec_ReplayId (hd records))),
                      (''replayIdLast'', encodeReplay (rec_ReplayId (last records)))]\<rparr>"

fun write_groups ::
  "('s, 'l) env \<Rightarrow> SubscriberOptions \<Rightarrow> ctx \<Rightarrow> string \<Rightarrow> time \<Rightarrow> Record list \<Rightarrow> string list
   \<Rightarrow> ('s, 'l) sub \<Rightarrow> goerror option \<times> ('s, 'l) sub" where
  "write_groups E opts c orgId part buf [] st = (None, st)"
| "write_groups E opts c orgId part buf (ty # order) st =
     (let records = group buf ty in
      case writeWithRetry E opts c (batch_meta opts orgId part ty records) records st of
        (Some err, st1) \<Rightarrow> (Some err, st1)
      | (None, st1) \<Rightarrow> write_groups E opts c orgId part buf order st1)"

definition flush ::
  "('s, 'l) env \<Rightarrow> SubscriberOptions \<Rightarrow> ctx \<Rightarrow> ('s, 'l) sub \<Rightarrow> goerror option \<times> ('s, 'l) sub" where
  "flush E opts c st =
     (if su_buffer st = [] then (None, st)
      else
        let orgId = (if so_OrgId opts = [] then su_OrgId st else so_OrgId opts);
            buf = su_buffer st
        in case write_groups E opts c orgId (su_now st) buf (group_order buf) st of
             (Some err, st1) \<Rightarrow> (Some err, st1)
           | (None, st1) \<Rightarrow>
               (case commit E opts c (rec_ReplayId (last buf)) st1 of
                  (Some err, st2) \<Rightarrow> (Some err, st2)
                | (None, st2) \<Rightarrow> (None, st2\<lparr>su_buffer := []\<rparr>)))"

definition flushNow ::
  "('s, 'l) env \<Rightarrow> SubscriberOptions \<Rightarrow> ctx \<Rightarrow> ('s, 'l) sub \<Rightarrow> goerror option \<times> ('s, 'l) sub" where
  "flushNow E opts c st = flush E opts (flushContext opts c (su_now st)) st"

section \<open>One session\<close>

text \<open>A handler either lets the session go on or ends it with the value \<open>session\<close> returns.\<close>

datatype 'st step = Cont 'st | Ret "goerror option" 'st

definition authFailed :: "goerror \<Rightarrow> ('s, 'l) sub \<Rightarrow> goerror \<times> ('s, 'l) sub" where
  "authFailed err st =
     (let n = su_authFailures st + 1; st1 = st\<lparr>su_authFailures := n\<rparr>
      in if maxAuthFailures \<le> n
         then (fatal (Wrap (''authentication failed '' @ Itoa n @ '' times in a row'') err), st1)
         else (AuthError (Wrap (''attempt '' @ Itoa n @ '' of '' @ Itoa maxAuthFailures) err), st1))"

definition Authenticate :: "('s, 'l) env \<Rightarrow> ('s, 'l) sub \<Rightarrow> goerror option \<times> ('s, 'l) sub" where
  "Authenticate E st =
     (let st1 = tick E (st\<lparr>su_auths := su_auths st + 1\<rparr>) in
      case env_Authenticate E (su_auths st) of
        Inl err \<Rightarrow> (Some err, st1)
      | Inr org \<Rightarrow> (None, st1\<lparr>su_OrgId := org\<rparr>))"

definition classifyStreamError ::
  "('s, 'l) env \<Rightarrow> stream_error \<Rightarrow> ('s, 'l) sub \<Rightarrow> goerror \<times> ('s, 'l) sub" where
  "classifyStreamError E e st =
     (if se_code e = errorCodeAuth \<or> se_Unauthenticated e then
        let st1 = (if su_sessionHealthy st then st\<lparr>su_authFailures := 0\<rparr> else st) in
        case Authenticate E st1 of
          (Some err, st2) \<Rightarrow> authFailed (Wrap ''re-authenticating'' err) st2
        | (None, st2) \<Rightarrow>
            if \<not> su_sessionHealthy st2 then
              (case authFailed (se_err e) st2 of
                 (err, st3) \<Rightarrow> if IsFatal err then (err, st3) else (AuthError (se_err e), st3))
            else (AuthError (se_err e), st2)
      else if Contains (ToLower (se_code e)) ''replayid'' then
        (fatal (Wrap (''error-code '' @ se_code e) ErrReplayUnavailable), st)
      else if se_err e = EOF then (Err ''subscription stream closed by server'', st)
      else (Wrap ''subscription stream error'' (se_err e), st))"

text \<open>\<^verbatim>\<open>streamEventId\<close> and \<^verbatim>\<open>eventTimestamp\<close>.\<close>

definition streamEventId :: "payload \<Rightarrow> string" where
  "streamEventId flds =
     (case str_field flds ''EventUuid'' of
        Some (c # v) \<Rightarrow> c # v
      | _ \<Rightarrow> (case str_field flds ''EventIdentifier'' of Some v \<Rightarrow> v | None \<Rightarrow> []))"

definition millis_field :: "payload \<Rightarrow> string \<Rightarrow> time option" where
  "millis_field flds name =
     (case map_of flds name of
        Some (AInt64 v) \<Rightarrow> Some (UnixMilli v)
      | Some (AInt32 v) \<Rightarrow> Some (UnixMilli v)
      | Some (AFloat m e) \<Rightarrow> Some (UnixMilli (float_to_int64 m e))
      | _ \<Rightarrow> None)"

definition eventTimestamp :: "payload \<Rightarrow> time \<Rightarrow> time" where
  "eventTimestamp flds now =
     (case millis_field flds ''EventDate'' of
        Some t \<Rightarrow> t
      | None \<Rightarrow> (case millis_field flds ''CreatedDate'' of Some t \<Rightarrow> t | None \<Rightarrow> now))"

definition decode :: "('s, 'l) env \<Rightarrow> ConsumerEvent \<Rightarrow> ('s, 'l) sub \<Rightarrow> Record result" where
  "decode E ev st =
     (case env_DecodeEvent E (su_now st) ev of
        Inl err \<Rightarrow> Inl err
      | Inr (flds, eventType) \<Rightarrow>
          Inr \<lparr>rec_Type = eventType, rec_Timestamp = eventTimestamp flds (su_now st),
               rec_Id = streamEventId flds, rec_Payload = Some flds, rec_ReplayId = ev_ReplayId ev\<rparr>)"

text \<open>The loop over the events of a response.\<close>

fun handle_events ::
  "('s, 'l) env \<Rightarrow> SubscriberOptions \<Rightarrow> ctx \<Rightarrow> ConsumerEvent list \<Rightarrow> ('s, 'l) sub \<Rightarrow> ('s, 'l) sub step" where
  "handle_events E opts c [] st = Cont st"
| "handle_events E opts c (ev # evs) st0 =
     (let st = tick E st0;
          what = ''event with replay ID '' @ encodeReplay (ev_ReplayId ev) in
      case decode E ev st of
        Inl err \<Rightarrow>
          if isSchemaError err then Ret (Some (Wrap what err)) st
          else Ret (Some (fatal (Wrap (''decoding '' @ what) err))) st
      | Inr rec \<Rightarrow>
          let st1 = (if su_buffer st = []
                     then st\<lparr>su_bufferStart := su_now st, su_flushAt := Some (su_now st + so_MaxAge opts)\<rparr>
                     else st);
              st2 = st1\<lparr>su_buffer := su_buffer st1 @ [rec], su_pending := su_pending st1 - 1\<rparr>
          in if so_MaxEvents opts \<le> int (length (su_buffer st2)) then
               (case flushNow E opts c (st2\<lparr>su_flushAt := None\<rparr>) of
                  (Some err, st3) \<Rightarrow> Ret (Some err) st3
                | (None, st3) \<Rightarrow> handle_events E opts c evs st3)
             else handle_events E opts c evs st2)"

definition pin_position ::
  "('s, 'l) env \<Rightarrow> SubscriberOptions \<Rightarrow> ctx \<Rightarrow> ('s, 'l) sub \<Rightarrow> ('s, 'l) sub step" where
  "pin_position E opts c st =
     (if su_committed st = None \<and> su_buffer st \<noteq> [] then
        (case flushNow E opts c (st\<lparr>su_flushAt := None\<rparr>) of
           (Some err, st1) \<Rightarrow> Ret (Some err) st1
         | (None, st1) \<Rightarrow> Cont st1)
      else Cont st)"

definition keepalive ::
  "('s, 'l) env \<Rightarrow> SubscriberOptions \<Rightarrow> ctx \<Rightarrow> FetchResponse \<Rightarrow> ('s, 'l) sub \<Rightarrow> ('s, 'l) sub step" where
  "keepalive E opts c resp st =
     (if fr_Events resp = [] \<and> su_buffer st = [] \<and> 0 < fr_PendingNumRequested resp
         \<and> fr_LatestReplayId resp \<noteq> [] then
        (case commit E opts c (fr_LatestReplayId resp) st of
           (Some err, st1) \<Rightarrow> Ret (if ctx_done c (su_now st1) then None else Some err) st1
         | (None, st1) \<Rightarrow> Cont st1)
      else Cont st)"

definition request_more ::
  "('s, 'l) env \<Rightarrow> SubscriberOptions \<Rightarrow> stream \<Rightarrow> ('s, 'l) sub \<Rightarrow> ('s, 'l) sub step" where
  "request_more E opts sc st =
     (if su_pending st \<le> so_Appetite opts div 2 then
        let more = so_Appetite opts - su_pending st;
            st1 = st\<lparr>su_sends := su_sends st + 1\<rparr>
        in case sc_Send sc (su_sends st) of
             Some err \<Rightarrow>
               if err \<noteq> EOF then Ret (Some (Wrap ''requesting more events'' err)) st1
               else Cont (st1\<lparr>su_pending := su_pending st + more\<rparr>)
           | None \<Rightarrow> Cont (st1\<lparr>su_pending := su_pending st + more\<rparr>)
      else Cont st)"

fun bind_step :: "'st step \<Rightarrow> ('st \<Rightarrow> 'st step) \<Rightarrow> 'st step" where
  "bind_step (Cont st) f = f st"
| "bind_step (Ret r st) f = Ret r st"

definition handle_response ::
  "('s, 'l) env \<Rightarrow> SubscriberOptions \<Rightarrow> ctx \<Rightarrow> stream \<Rightarrow> FetchResponse \<Rightarrow> ('s, 'l) sub
   \<Rightarrow> ('s, 'l) sub step" where
  "handle_response E opts c sc resp st =
     (let st1 = st\<lparr>su_idleAt := su_now st + streamIdleTimeout\<rparr>;
          st2 = (if \<not> su_sessionHealthy st1
                 then st1\<lparr>su_sessionHealthy := True, su_authFailures := 0, su_active := True\<rparr>
                 else st1)
      in bind_step (handle_events E opts c (fr_Events resp) st2)
         (\<lambda>st3. bind_step (pin_position E opts c st3)
           (\<lambda>st4. bind_step (keepalive E opts c resp st4)
             (\<lambda>st5. request_more E opts sc st5))))"

text \<open>Which receptions are possible at the current instant.\<close>

definition ready :: "ctx \<Rightarrow> session_event \<Rightarrow> ('s, 'l) sub \<Rightarrow> bool" where
  "ready c ev st =
     (case ev of
        CtxDone \<Rightarrow> ctx_done c (su_now st)
      | IdleTimeout \<Rightarrow> su_idleAt st \<le> su_now st
      | FlushTimer \<Rightarrow> (case su_flushAt st of None \<Rightarrow> False | Some t \<Rightarrow> t \<le> su_now st)
      | _ \<Rightarrow> True)"

definition handle ::
  "('s, 'l) env \<Rightarrow> SubscriberOptions \<Rightarrow> ctx \<Rightarrow> stream \<Rightarrow> session_event \<Rightarrow> ('s, 'l) sub
   \<Rightarrow> ('s, 'l) sub step" where
  "handle E opts c sc ev st =
     (case ev of
        CtxDone \<Rightarrow> Ret None st
      | RenewErr err \<Rightarrow> Ret (Some (fatal (Wrap ''checkpoint lease could not be kept'' err))) st
      | IdleTimeout \<Rightarrow>
          Ret (Some (Err ''no message or keepalive received within the idle timeout'')) st
      | FlushTimer \<Rightarrow>
          (case flushNow E opts c (st\<lparr>su_flushAt := None\<rparr>) of
             (Some err, st1) \<Rightarrow> Ret (Some err) st1
           | (None, st1) \<Rightarrow> Cont st1)
      | RecvErr e \<Rightarrow> (case classifyStreamError E e st of (err, st1) \<Rightarrow> Ret (Some err) st1)
      | Recv resp \<Rightarrow> handle_response E opts c sc resp st)"

text \<open>
  The session's loop over the receptions it makes; \<open>Cont\<close> at their end: it is still waiting.
\<close>

fun session_loop ::
  "('s, 'l) env \<Rightarrow> SubscriberOptions \<Rightarrow> ctx \<Rightarrow> stream \<Rightarrow> (time \<times> session_event) list \<Rightarrow> ('s, 'l) sub
   \<Rightarrow> ('s, 'l) sub step" where
  "session_loop E opts c sc [] st = Cont st"
| "session_loop E opts c sc ((t, ev) # evs) st =
     (let st1 = st\<lparr>su_now := max (su_now st) t\<rparr> in
      if ready c ev st1
      then bind_step (handle E opts c sc ev st1) (session_loop E opts c sc evs)
      else session_loop E opts c sc evs st1)"

text \<open>The deferred function: persist what is buffered, unless the session ended fatally.\<close>

definition deferred_flush ::
  "('s, 'l) env \<Rightarrow> SubscriberOptions \<Rightarrow> ctx \<Rightarrow> goerror option \<Rightarrow> ('s, 'l) sub
   \<Rightarrow> goerror option \<times> ('s, 'l) sub" where
  "deferred_flush E opts c ret st =
     (if su_buffer st = [] \<or> IsFatal_opt ret then (ret, st\<lparr>su_buffer := []\<rparr>)
      else
        (case flushNow E opts c st of
           (None, st1) \<Rightarrow> (ret, st1)
         | (Some err, st1) \<Rightarrow> (if ret = None \<or> \<not> IsFatal_opt ret then Some err else ret, st1)))"

definition first_request :: "SubscriberOptions \<Rightarrow> ('s, 'l) sub \<Rightarrow> FetchRequest" where
  "first_request opts st =
     \<lparr>fq_TopicName = so_Topic opts, fq_NumRequested = so_Appetite opts,
      fq_ReplayPreset =
        (case su_committed st of
           Some rid \<Rightarrow> CUSTOM rid
         | None \<Rightarrow> if so_InitialReplay opts = ReplayEarliest then EARLIEST else LATEST)\<rparr>"

definition open_stream ::
  "('s, 'l) env \<Rightarrow> SubscriberOptions \<Rightarrow> ctx \<Rightarrow> ('s, 'l) sub \<Rightarrow> ('s, 'l) sub step" where
  "open_stream E opts c st0 =
     (let st = tick E (st0\<lparr>su_sessionHealthy := False, su_streams := su_streams st0 + 1\<rparr>) in
      case env_Subscribe E (su_streams st0) (first_request opts st) of
        Inl err \<Rightarrow> Ret (Some (Wrap ''opening subscription'' err)) st
      | Inr sc \<Rightarrow>
          if sc_Send0 sc \<noteq> None \<and> sc_Send0 sc \<noteq> Some EOF
          then Ret (Some (Wrap ''sending initial fetch request'' (the (sc_Send0 sc)))) st
          else
            (case session_loop E opts c sc (sc_events sc)
                    (st\<lparr>su_pending := so_Appetite opts, su_sends := 0, su_flushAt := None,
                        su_idleAt := su_now st + streamIdleTimeout\<rparr>) of
               Cont st1 \<Rightarrow> Cont st1
             | Ret ret st1 \<Rightarrow> (case deferred_flush E opts c ret st1 of (ret', st2) \<Rightarrow> Ret ret' st2)))"

definition session ::
  "('s, 'l) env \<Rightarrow> SubscriberOptions \<Rightarrow> ctx \<Rightarrow> ('s, 'l) sub \<Rightarrow> ('s, 'l) sub step" where
  "session E opts c st =
     (if su_OrgId st = [] then
        (case Authenticate E st of
           (Some err, st1) \<Rightarrow>
             (case authFailed (Wrap ''authenticating'' err) st1 of (err', st2) \<Rightarrow> Ret (Some err') st2)
         | (None, st1) \<Rightarrow> open_stream E opts c st1)
      else open_stream E opts c st)"

section \<open>The subscriber\<close>

text \<open>
  The reconnect loop for at most \<open>n\<close> sessions; \<open>Cont\<close> when it is still running after them.
\<close>

fun run_loop ::
  "('s, 'l) env \<Rightarrow> SubscriberOptions \<Rightarrow> ctx \<Rightarrow> nat \<Rightarrow> duration \<Rightarrow> ('s, 'l) sub \<Rightarrow> ('s, 'l) sub step" where
  "run_loop E opts c 0 backoff st = Cont st"
| "run_loop E opts c (Suc n) backoff st =
     (case session E opts c st of
        Cont st1 \<Rightarrow> Cont st1
      | Ret err st0 \<Rightarrow>
          let healthy = su_sessionHealthy st0;
              st1 = (if healthy then st0\<lparr>su_active := False\<rparr> else st0) in
          if ctx_done c (su_now st1) then Ret (if IsFatal_opt err then err else None) st1
          else if IsFatal_opt err then Ret err st1
          else
            let progressed = (healthy \<and> \<not> (case err of None \<Rightarrow> False | Some e \<Rightarrow> isSchemaError e));
                backoff1 = (if progressed then so_RetryDelay opts else backoff)
            in case sleep c (jitter backoff1 (env_rand E (su_ticks st1))) st1 of
                 (Some _, st2) \<Rightarrow> Ret None st2
               | (None, st2) \<Rightarrow>
                   run_loop E opts c n
                     (if progressed then backoff1 else backoff_next backoff1 (so_MaxBackoff opts)) st2)"

definition Run ::
  "('s, 'l) env \<Rightarrow> SubscriberOptions \<Rightarrow> ctx \<Rightarrow> nat \<Rightarrow> ('s, 'l) sub \<Rightarrow> ('s, 'l) sub step" where
  "Run E opts c n st =
     (if so_InitialReplay opts \<noteq> [] \<and> so_InitialReplay opts \<noteq> ReplayEarliest
         \<and> so_InitialReplay opts \<noteq> ReplayLatest
      then Ret (Some (fatal (Err ''invalid initialReplay''))) st
      else
        case env_Acquire E c (su_now st) (su_lease st) of
          None \<Rightarrow> Cont st
        | Some (Some err, t, lease1) \<Rightarrow>
            let st1 = st\<lparr>su_now := max (su_now st) t, su_lease := lease1\<rparr> in
            if ctx_done c (su_now st1) then Ret None st1
            else Ret (Some (fatal (Wrap ''acquiring checkpoint lease'' err))) st1
        | Some (None, t, lease1) \<Rightarrow>
            let st1 = st\<lparr>su_now := max (su_now st) t, su_lease := lease1\<rparr>;
                release = (\<lambda>r. case r of
                    Cont st' \<Rightarrow> Cont st'
                  | Ret e st' \<Rightarrow>
                      Ret e (st'\<lparr>su_lease := snd (env_Release E (Some (su_now st' + 5 * second))
                                                    (su_now st') (su_lease st'))\<rparr>))
            in release
                 (case env_Load E c (su_now st1) lease1 of
                    (Inl err, lease2) \<Rightarrow>
                      if ctx_done c (su_now st1) then Ret None (st1\<lparr>su_lease := lease2\<rparr>)
                      else Ret (Some (fatal (Wrap ''loading checkpoint'' err))) (st1\<lparr>su_lease := lease2\<rparr>)
                  | (Inr (Some rid), lease2) \<Rightarrow>
                      run_loop E opts c n (so_RetryDelay opts)
                        (st1\<lparr>su_lease := lease2, su_committed := Some rid\<rparr>)
                  | (Inr None, lease2) \<Rightarrow>
                      if so_InitialReplay opts = []
                      then Ret (Some (fatal ErrNoCheckpoint)) (st1\<lparr>su_lease := lease2\<rparr>)
                      else run_loop E opts c n (so_RetryDelay opts) (st1\<lparr>su_lease := lease2\<rparr>)))"

definition result_state :: "'st step \<Rightarrow> 'st" where
  "result_state res = (case res of Cont st' \<Rightarrow> st' | Ret r st' \<Rightarrow> st')"

section \<open>Keeping the lease\<close>

text \<open>One tick of \<open>renewLease\<close>: the instant of the last success, and the error it reports.\<close>

definition renew_tick ::
  "SubscriberOptions \<Rightarrow> time \<Rightarrow> goerror option \<Rightarrow> time \<Rightarrow> goerror option \<times> time" where
  "renew_tick opts now res lastOK =
     (let interval = so_LeaseTTL opts div 3 in
      case res of
        None \<Rightarrow> (None, now)
      | Some err \<Rightarrow>
          if errors_is err ErrLeaseLost \<or> so_LeaseTTL opts - interval div 2 < now - lastOK
          then (Some (fatal (Wrap ''checkpoint lease could not be kept'' err)), lastOK)
          else (None, lastOK))"

fun renewLease ::
  "SubscriberOptions \<Rightarrow> (time \<times> goerror option) list \<Rightarrow> time \<Rightarrow> goerror option \<times> time" where
  "renewLease opts [] lastOK = (None, lastOK)"
| "renewLease opts ((now, res) # ticks) lastOK =
     (case renew_tick opts now res lastOK of
        (Some err, t) \<Rightarrow> (Some err, t)
      | (None, t) \<Rightarrow> renewLease opts ticks t)"

end
