(* ===== verification/Sink_Local.thy ===== *)
theory Sink_Local
  imports Sinks
begin

text \<open>
  \<^verbatim>\<open>archive.LocalSink\<close> (\<^verbatim>\<open>local.go\<close>): each object is written to a temporary file, synced, renamed to
  its path, and the directory is synced. The directory tree is a map from the key to the file's
  bytes. \<open>ls_files\<close> is what a reader sees, \<open>ls_durable\<close> what survives a crash: a rename becomes durable
  when the directory is synced. Every file system call may fail; the outcome of the n-th call is
  \<open>ls_fault n\<close>, and \<open>ls_delay n\<close> is how long after the start of the write it is made.
\<close>

record LocalSink =
  ls_Prefix :: string
  ls_files :: "(string \<times> string) list"
  ls_durable :: "(string \<times> string) list"
  ls_temp :: "string option"
  ls_writes :: nat
  ls_calls :: nat
  ls_fault :: "nat \<Rightarrow> goerror option"
  ls_delay :: "nat \<Rightarrow> duration"
  ls_rand :: "nat \<Rightarrow> string"
  ls_create :: "nat \<Rightarrow> goerror option"
  ls_finish :: "nat \<Rightarrow> goerror option"

type_synonym fs_step = "LocalSink \<Rightarrow> goerror option \<times> LocalSink"

definition fs_call :: "(LocalSink \<Rightarrow> LocalSink) \<Rightarrow> fs_step" where
  "fs_call eff s =
     (let s1 = s\<lparr>ls_calls := ls_calls s + 1\<rparr>
      in case ls_fault s (ls_calls s) of Some err \<Rightarrow> (Some err, s1) | None \<Rightarrow> (None, eff s1))"

fun fs_seq :: "fs_step list \<Rightarrow> fs_step" where
  "fs_seq [] s = (None, s)"
| "fs_seq (f # fs) s = (case f s of (Some err, s') \<Rightarrow> (Some err, s') | (None, s') \<Rightarrow> fs_seq fs s')"

definition MkdirAll :: fs_step where "MkdirAll = fs_call (\<lambda>s. s)"
definition CreateTemp :: fs_step where "CreateTemp = fs_call (\<lambda>s. s\<lparr>ls_temp := Some []\<rparr>)"
definition SyncTemp :: fs_step where "SyncTemp = fs_call (\<lambda>s. s)"
definition CloseTemp :: fs_step where "CloseTemp = fs_call (\<lambda>s. s)"

text \<open>\<^verbatim>\<open>io.Copy\<close> through \<^verbatim>\<open>ctxReader\<close>, which fails once the context is done.\<close>

definition CopyTemp :: "ctx \<Rightarrow> time \<Rightarrow> string \<Rightarrow> fs_step" where
  "CopyTemp c now content s =
     (if ctx_done c (now + max 0 (ls_delay s (ls_calls s)))
      then (Some ErrCanceled, s\<lparr>ls_calls := ls_calls s + 1\<rparr>)
      else fs_call (\<lambda>s. s\<lparr>ls_temp := Some content\<rparr>) s)"

definition Rename :: "string \<Rightarrow> fs_step" where
  "Rename path = fs_call (\<lambda>s. case ls_temp s of
       None \<Rightarrow> s
     | Some content \<Rightarrow> s\<lparr>ls_files := AList.update path content (ls_files s), ls_temp := None\<rparr>)"

definition syncDir :: "string \<Rightarrow> fs_step" where
  "syncDir path = fs_call (\<lambda>s. case map_of (ls_files s) path of
       None \<Rightarrow> s
     | Some content \<Rightarrow> s\<lparr>ls_durable := AList.update path content (ls_durable s)\<rparr>)"

text \<open>The deferred \<^verbatim>\<open>os.Remove\<close> of the temporary file runs on every path.\<close>

definition atomicWrite :: "ctx \<Rightarrow> time \<Rightarrow> string \<Rightarrow> string \<Rightarrow> fs_step" where
  "atomicWrite c now key content s =
     (case fs_seq [MkdirAll, CreateTemp, CopyTemp c now content, SyncTemp, CloseTemp,
                   Rename key, syncDir key] s of
        (r, s') \<Rightarrow> (r, s'\<lparr>ls_temp := None\<rparr>))"

definition atomicWriteBytes :: "string \<Rightarrow> string \<Rightarrow> fs_step" where
  "atomicWriteBytes key b = atomicWrite None 0 key b"

definition ls_store ::
  "codec \<Rightarrow> ctx \<Rightarrow> time \<Rightarrow> ObjectMeta \<Rightarrow> string \<Rightarrow> Manifest \<Rightarrow> LocalSink \<Rightarrow> Manifest result \<times> LocalSink" where
  "ls_store C c now meta body m s =
     (if ctx_done c now then (Inl ErrCanceled, s)
      else
        let name = (if meta_Name meta = []
                    then UniqueName (man_IngestedAt m) (ls_rand s (ls_writes s))
                    else meta_Name meta);
            dataKey = joinPrefix (ls_Prefix s) (fst (ObjectPaths meta name));
            manifestKey = joinPrefix (ls_Prefix s) (snd (ObjectPaths meta name));
            m' = m\<lparr>man_ObjectKey := dataKey\<rparr>
        in case atomicWrite c now dataKey body s of
             (Some err, s1) \<Rightarrow> (Inl (Wrap ''writing data object'' err), s1)
           | (None, s1) \<Rightarrow>
               (case manEncode C m' of
                  Inl err \<Rightarrow> (Inl err, s1)
                | Inr mb \<Rightarrow>
                    (case atomicWriteBytes manifestKey mb s1 of
                       (Some err, s2) \<Rightarrow> (Inl (Wrap ''writing manifest'' err), s2)
                     | (None, s2) \<Rightarrow> (Inr m', s2))))"

definition NewLocalSink :: "string \<Rightarrow> goerror option \<Rightarrow> LocalSink \<Rightarrow> LocalSink result" where
  "NewLocalSink prefix mkdir s =
     (case mkdir of Some err \<Rightarrow> Inl err | None \<Rightarrow> Inr (s\<lparr>ls_Prefix := prefix\<rparr>))"

definition LocalSink_Write :: "codec \<Rightarrow> LocalSink sink_write" where
  "LocalSink_Write C c now meta fill s0 =
     (let s = s0\<lparr>ls_writes := ls_writes s0 + 1\<rparr>; n = ls_writes s
      in encodeObject C now (ls_create s n) (ls_finish s n) meta fill (ls_store C c now meta) s)"

text \<open>A crash loses what was not synced.\<close>

definition crash :: "LocalSink \<Rightarrow> LocalSink" where
  "crash s = s\<lparr>ls_files := ls_durable s, ls_temp := None\<rparr>"

definition ls_lookup :: "LocalSink \<Rightarrow> string \<Rightarrow> string option" where
  "ls_lookup s = map_of (ls_durable s)"

definition ls_keys :: "LocalSink \<Rightarrow> ObjectMeta \<Rightarrow> string \<times> string" where
  "ls_keys s meta = map_prod (joinPrefix (ls_Prefix s)) (joinPrefix (ls_Prefix s))
     (ObjectPaths meta (meta_Name meta))"

definition ls_manifested :: "codec \<Rightarrow> LocalSink \<Rightarrow> Manifest \<Rightarrow> bool" where
  "ls_manifested C s m \<longleftrightarrow>
     (\<exists>key mb. manEncode C m = Inr mb \<and> ls_lookup s key = Some mb)"

definition ls_inv :: "LocalSink \<Rightarrow> bool" where
  "ls_inv s \<longleftrightarrow> fresh_draws (ls_rand s) (ls_writes s) (ls_lookup s) (ls_Prefix s)"

section \<open>One atomic write\<close>

text \<open>What no step touches.\<close>

definition ls_env :: "LocalSink \<Rightarrow> string \<times> nat \<times> (nat \<Rightarrow> string)" where
  "ls_env s = (ls_Prefix s, ls_writes s, ls_rand s)"

lemmas step_defs = MkdirAll_def CreateTemp_def SyncTemp_def CloseTemp_def CopyTemp_def Rename_def
  syncDir_def fs_call_def Let_def

lemma atomicWrite_ok:
  "atomicWrite c now key content s = (None, s') \<Longrightarrow>
     ls_env s' = ls_env s \<and> ls_lookup s' = (ls_lookup s)(key \<mapsto> content)
     \<and> map_of (ls_files s') = (map_of (ls_files s))(key \<mapsto> content)"
  by (auto simp: atomicWrite_def step_defs ls_env_def ls_lookup_def update_conv'
      split: option.splits if_splits)

lemma atomicWrite_err:
  "atomicWrite c now key content s = (Some err, s') \<Longrightarrow>
     ls_env s' = ls_env s \<and> ls_lookup s' = ls_lookup s \<and> ls_temp s' = None"
  by (auto simp: atomicWrite_def step_defs ls_env_def ls_lookup_def update_conv'
      split: option.splits if_splits)

lemma ls_env_lookup:
  "ls_env s' = ls_env s \<Longrightarrow>
     ls_Prefix s' = ls_Prefix s \<and> ls_writes s' = ls_writes s \<and> ls_rand s' = ls_rand s"
  by (simp add: ls_env_def)

section \<open>The contract\<close>

lemma ls_store_cases:
  assumes "ls_store C c now meta body m s = (r, s')" "man_IngestedAt m = now"
  defines "kd \<equiv> joinPrefix (ls_Prefix s) (fst (ObjectPaths meta (write_name meta now (ls_rand s (ls_writes s)))))"
    and "km \<equiv> joinPrefix (ls_Prefix s) (snd (ObjectPaths meta (write_name meta now (ls_rand s (ls_writes s)))))"
  shows "ls_env s' = ls_env s \<and>
    ((\<exists>err. r = Inl err \<and> ls_lookup s' = ls_lookup s)
     \<or> (\<exists>err. r = Inl err \<and> ls_lookup s' = (ls_lookup s)(kd \<mapsto> body))
     \<or> (\<exists>mb. r = Inr (m\<lparr>man_ObjectKey := kd\<rparr>) \<and> manEncode C (m\<lparr>man_ObjectKey := kd\<rparr>) = Inr mb
          \<and> ls_lookup s' = (ls_lookup s)(kd \<mapsto> body, km \<mapsto> mb)))"
  using assms(1,2) unfolding ls_store_def Let_def kd_def km_def write_name_def atomicWriteBytes_def
  by (auto split: if_splits prod.splits option.splits sum.splits
      dest!: atomicWrite_ok atomicWrite_err)

lemma LocalSink_Write_dtm:
  assumes "LocalSink_Write C c now meta fill s = (r, s')"
  shows "ls_Prefix s' = ls_Prefix s \<and> ls_rand s' = ls_rand s \<and> ls_writes s' = ls_writes s + 1
    \<and> data_then_manifest C (ls_Prefix s) (ls_rand s (ls_writes s + 1)) now meta fill
        (ls_lookup s) r (ls_lookup s')"
  using assms unfolding LocalSink_Write_def Let_def
proof (cases rule: encodeObject_cases)
  case (failed err)
  then show ?thesis by (simp add: data_then_manifest.nothing ls_lookup_def)
next
  case (stored meta' e)
  note effect = ls_store_cases [OF stored(4), simplified]
  note rules = data_then_manifest.nothing data_then_manifest.data [where fill = fill and meta' = meta', OF stored(1,2) refl]
    data_then_manifest.both [where fill = fill and meta' = meta', OF stored(1,2) refl refl refl]
  show ?thesis
    using effect rules by (auto simp: ls_env_def ls_lookup_def)
qed

lemmas LocalSink_Write_two = LocalSink_Write_dtm [THEN conjunct2, THEN conjunct2, THEN conjunct2]

interpretation local: archive_sink C "LocalSink_Write C" ls_lookup "ls_manifested C" ls_keys ls_inv
  for C :: codec
proof
  fix s s' :: LocalSink and c now meta fill m
  assume "LocalSink_Write C c now meta fill s = (Inr m, s')"
  from data_then_manifest_durable [OF LocalSink_Write_two [OF this]]
  show "\<exists>e meta'. (meta' = meta \<or> meta' = meta\<lparr>meta_PartitionTime := now\<rparr>)
         \<and> fill (newEncoder meta') = Inr e
         \<and> m = (finish C e)\<lparr>man_IngestedAt := now, man_ObjectKey := man_ObjectKey m\<rparr>
         \<and> ls_lookup s' (man_ObjectKey m) = Some (object_body C (enc_lines e))
         \<and> ls_manifested C s' m"
    unfolding ls_manifested_def by blast
next
  fix s s' :: LocalSink and c now meta fill r k b
  assume "ls_inv s" "meta_Name meta = []" "LocalSink_Write C c now meta fill s = (r, s')"
    "ls_lookup s k = Some b"
  then show "ls_lookup s' k = Some b"
    using data_then_manifest_generated LocalSink_Write_dtm unfolding ls_inv_def by blast
next
  fix s s' :: LocalSink and c now meta fill r k
  assume "meta_Name meta \<noteq> []" "LocalSink_Write C c now meta fill s = (r, s')"
    "k \<noteq> fst (ls_keys s meta)" "k \<noteq> snd (ls_keys s meta)"
  then show "ls_lookup s' k = ls_lookup s k"
    using data_then_manifest_confined [OF LocalSink_Write_two]
    by (simp add: ls_keys_def write_name_def)
next
  fix s s' :: LocalSink and c now meta fill m
  assume name: "meta_Name meta \<noteq> []" and W: "LocalSink_Write C c now meta fill s = (Inr m, s')"
  have "man_ObjectKey m = joinPrefix (ls_Prefix s)
      (fst (ObjectPaths meta (write_name meta now (ls_rand s (ls_writes s + 1)))))"
    using data_then_manifest_durable [OF LocalSink_Write_two [OF W]] by blast
  then show "man_ObjectKey m = fst (ls_keys s meta)"
    using name by (simp add: ls_keys_def write_name_def)
next
  fix s s' :: LocalSink and c now meta fill r
  assume "ls_inv s" "name_ok (meta_Name meta)" "LocalSink_Write C c now meta fill s = (r, s')"
  then show "ls_inv s'"
    using data_then_manifest_fresh LocalSink_Write_dtm unfolding ls_inv_def by metis
qed

interpretation local_named: named_sink C "LocalSink_Write C" ls_lookup "ls_manifested C" ls_keys ls_inv
  for C :: codec
proof
  fix c now meta fill r and s s' :: LocalSink
  show "LocalSink_Write C c now meta fill s = (r, s') \<Longrightarrow> ls_keys s' = ls_keys s"
    by (drule LocalSink_Write_dtm) (simp add: ls_keys_def fun_eq_iff)
qed (auto simp: ls_keys_def data_key_not_manifest_key dest: data_key_inject)

end
