(* ===== verification/Sink_S3.thy ===== *)
theory Sink_S3
  imports Sinks
begin

text \<open>
  \<^verbatim>\<open>archive.S3Sink\<close> (\<^verbatim>\<open>s3.go\<close>). The SDK's uploader is a parameter: the n-th upload, given its context
  and input, has the outcome \<open>s3_upload n\<close>. What the sink relies on is in the outcome's type: an
  upload that reports success has stored exactly its input under its key; one that reports an error
  may or may not have stored it, and names the multipart upload it left open, if any.
\<close>

record S3Options =
  opt_Bucket :: string
  opt_Prefix :: string
  opt_Region :: string
  opt_Endpoint :: string
  opt_ForcePathStyle :: bool
  opt_KmsKeyId :: string
  opt_StorageClass :: string
  opt_MaxAttempts :: int
  opt_UploadTimeout :: duration

record put_input =
  pi_Bucket :: string
  pi_Key :: string
  pi_Body :: string
  pi_ContentType :: string
  pi_ChecksumAlgorithm :: string
  pi_Metadata :: attrs
  pi_ServerSideEncryption :: string
  pi_SSEKMSKeyId :: string
  pi_BucketKeyEnabled :: bool
  pi_StorageClass :: string

datatype put_outcome = PutOk | PutErr goerror bool string

record S3Sink =
  s3_opts :: S3Options
  s3_bucket :: "(string \<times> put_input) list"
  s3_uploads :: nat
  s3_upload :: "nat \<Rightarrow> ctx \<Rightarrow> put_input \<Rightarrow> put_outcome"
  s3_aborted :: "(string \<times> string \<times> string) list"
  s3_writes :: nat
  s3_rand :: "nat \<Rightarrow> string"
  s3_create :: "nat \<Rightarrow> goerror option"
  s3_finish :: "nat \<Rightarrow> goerror option"

text \<open>\<open>awsErr\<close> is the error of loading the AWS configuration; \<open>s\<close> is the service the client talks to.\<close>

definition NewS3Sink :: "S3Options \<Rightarrow> goerror option \<Rightarrow> S3Sink \<Rightarrow> S3Sink result" where
  "NewS3Sink opts awsErr s =
     (if opt_Bucket opts = [] then Inl (Err ''s3 bucket is required'')
      else
        let o1 = (if opt_MaxAttempts opts \<le> 0 then opts\<lparr>opt_MaxAttempts := 5\<rparr> else opts);
            o2 = (if opt_UploadTimeout o1 \<le> 0 then o1\<lparr>opt_UploadTimeout := 5 * minute\<rparr> else o1)
        in case awsErr of
             Some err \<Rightarrow> Inl (Wrap ''loading AWS config'' err)
           | None \<Rightarrow> Inr (s\<lparr>s3_opts := o2\<rparr>))"

definition WithTimeout :: "ctx \<Rightarrow> time \<Rightarrow> duration \<Rightarrow> ctx" where
  "WithTimeout c now d = (case c of None \<Rightarrow> Some (now + d) | Some t \<Rightarrow> Some (min t (now + d)))"

text \<open>\<^verbatim>\<open>abortMultipart\<close>: only an error that names an upload has one to abort.\<close>

definition abortMultipart :: "string \<Rightarrow> string \<Rightarrow> S3Sink \<Rightarrow> S3Sink" where
  "abortMultipart key uploadId s =
     (if uploadId = [] then s
      else s\<lparr>s3_aborted := s3_aborted s @ [(opt_Bucket (s3_opts s), key, uploadId)]\<rparr>)"

definition s3_input :: "S3Options \<Rightarrow> string \<Rightarrow> string \<Rightarrow> string \<Rightarrow> Manifest option \<Rightarrow> put_input" where
  "s3_input opts key body contentType m =
     \<lparr>pi_Bucket = opt_Bucket opts, pi_Key = key, pi_Body = body, pi_ContentType = contentType,
      pi_ChecksumAlgorithm = ''SHA256'',
      pi_Metadata = (case m of None \<Rightarrow> []
        | Some m \<Rightarrow> [(''record-count'', Itoa (man_RecordCount m)), (''sha256'', man_SHA256 m),
                     (''source'', man_Source m)]),
      pi_ServerSideEncryption = (if opt_KmsKeyId opts \<noteq> [] then ''aws:kms'' else []),
      pi_SSEKMSKeyId = opt_KmsKeyId opts,
      pi_BucketKeyEnabled = (opt_KmsKeyId opts \<noteq> []),
      pi_StorageClass = opt_StorageClass opts\<rparr>"

definition put :: "ctx \<Rightarrow> time \<Rightarrow> string \<Rightarrow> string \<Rightarrow> string \<Rightarrow> Manifest option \<Rightarrow> S3Sink
    \<Rightarrow> goerror option \<times> S3Sink" where
  "put c now key body contentType m s =
     (let input = s3_input (s3_opts s) key body contentType m;
          uploadCtx = WithTimeout c now (opt_UploadTimeout (s3_opts s));
          s1 = s\<lparr>s3_uploads := s3_uploads s + 1\<rparr>;
          stored = s1\<lparr>s3_bucket := AList.update key input (s3_bucket s)\<rparr>
      in case s3_upload s (s3_uploads s) uploadCtx input of
           PutOk \<Rightarrow> (None, stored)
         | PutErr err ok uploadId \<Rightarrow>
             (Some err, abortMultipart key uploadId (if ok then stored else s1)))"

definition s3_store ::
  "codec \<Rightarrow> ctx \<Rightarrow> time \<Rightarrow> ObjectMeta \<Rightarrow> string \<Rightarrow> Manifest \<Rightarrow> S3Sink \<Rightarrow> Manifest result \<times> S3Sink" where
  "s3_store C c now meta body m s =
     (let name = (if meta_Name meta = []
                  then UniqueName (man_IngestedAt m) (s3_rand s (s3_writes s))
                  else meta_Name meta);
          dataKey = joinPrefix (opt_Prefix (s3_opts s)) (fst (ObjectPaths meta name));
          manifestKey = joinPrefix (opt_Prefix (s3_opts s)) (snd (ObjectPaths meta name));
          m' = m\<lparr>man_ObjectKey := dataKey\<rparr>
      in case put c now dataKey body ''application/gzip'' (Some m') s of
           (Some err, s1) \<Rightarrow>
             (Inl (Wrap (''uploading data object s3://'' @ opt_Bucket (s3_opts s) @ ''/'' @ dataKey) err), s1)
         | (None, s1) \<Rightarrow>
             (case manEncode C m' of
                Inl err \<Rightarrow> (Inl err, s1)
              | Inr mb \<Rightarrow>
                  (case put c now manifestKey mb ''application/json'' None s1 of
                     (Some err, s2) \<Rightarrow>
                       (Inl (Wrap (''uploading manifest s3://'' @ opt_Bucket (s3_opts s) @ ''/'' @ manifestKey) err), s2)
                   | (None, s2) \<Rightarrow> (Inr m', s2))))"

definition S3Sink_Write :: "codec \<Rightarrow> S3Sink sink_write" where
  "S3Sink_Write C c now meta fill s0 =
     (let s = s0\<lparr>s3_writes := s3_writes s0 + 1\<rparr>; n = s3_writes s
      in encodeObject C now (s3_create s n) (s3_finish s n) meta fill (s3_store C c now meta) s)"

definition s3_lookup :: "S3Sink \<Rightarrow> string \<Rightarrow> string option" where
  "s3_lookup s k = map_option pi_Body (map_of (s3_bucket s) k)"

definition s3_keys :: "S3Sink \<Rightarrow> ObjectMeta \<Rightarrow> string \<times> string" where
  "s3_keys s meta = map_prod (joinPrefix (opt_Prefix (s3_opts s))) (joinPrefix (opt_Prefix (s3_opts s)))
     (ObjectPaths meta (meta_Name meta))"

definition s3_manifested :: "codec \<Rightarrow> S3Sink \<Rightarrow> Manifest \<Rightarrow> bool" where
  "s3_manifested C s m \<longleftrightarrow>
     (\<exists>key mb. manEncode C m = Inr mb \<and> s3_lookup s key = Some mb)"

definition s3_inv :: "S3Sink \<Rightarrow> bool" where
  "s3_inv s \<longleftrightarrow> fresh_draws (s3_rand s) (s3_writes s) (s3_lookup s) (opt_Prefix (s3_opts s))"

section \<open>One upload\<close>

definition s3_env :: "S3Sink \<Rightarrow> S3Options \<times> nat \<times> (nat \<Rightarrow> string)" where
  "s3_env s = (s3_opts s, s3_writes s, s3_rand s)"

lemma s3_lookup_upd: "s3_lookup (s\<lparr>s3_bucket := AList.update k i b\<rparr>)
    = (map_option pi_Body \<circ> map_of b)(k \<mapsto> pi_Body i)"
  by (rule ext) (simp add: s3_lookup_def update_conv)

lemma pi_Body_input [simp]: "pi_Body (s3_input opts key body ct m) = body"
  by (simp add: s3_input_def)

lemma put_ok:
  "put c now key body ct m s = (None, s') \<Longrightarrow>
     s3_env s' = s3_env s \<and> s3_lookup s' = (s3_lookup s)(key \<mapsto> body)"
  by (auto simp: put_def Let_def s3_env_def s3_lookup_def update_conv fun_eq_iff
      split: put_outcome.splits)

lemma put_err:
  "put c now key body ct m s = (Some err, s') \<Longrightarrow>
     s3_env s' = s3_env s \<and> (s3_lookup s' = s3_lookup s \<or> s3_lookup s' = (s3_lookup s)(key \<mapsto> body))"
  by (auto simp: put_def Let_def s3_env_def s3_lookup_def abortMultipart_def update_conv fun_eq_iff
      split: put_outcome.splits if_splits)

section \<open>The contract\<close>

text \<open>A failed manifest upload may still have stored the manifest.\<close>

inductive s3_effect ::
  "codec \<Rightarrow> string \<Rightarrow> string \<Rightarrow> Manifest \<Rightarrow> string \<Rightarrow> (string \<Rightarrow> string option)
   \<Rightarrow> Manifest result \<Rightarrow> (string \<Rightarrow> string option) \<Rightarrow> bool"
  for C kd km m body objs where
  "s3_effect C kd km m body objs (Inl err) objs"
| "s3_effect C kd km m body objs (Inl err) (objs(kd \<mapsto> body))"
| "manEncode C m = Inr mb \<Longrightarrow> s3_effect C kd km m body objs (Inl err) (objs(kd \<mapsto> body, km \<mapsto> mb))"
| "manEncode C m = Inr mb \<Longrightarrow> s3_effect C kd km m body objs (Inr m) (objs(kd \<mapsto> body, km \<mapsto> mb))"

lemma s3_store_effect:
  assumes "s3_store C c now meta body m s = (r, s')" "man_IngestedAt m = now"
  defines "kd \<equiv> joinPrefix (opt_Prefix (s3_opts s))
             (fst (ObjectPaths meta (write_name meta now (s3_rand s (s3_writes s)))))"
    and "km \<equiv> joinPrefix (opt_Prefix (s3_opts s))
             (snd (ObjectPaths meta (write_name meta now (s3_rand s (s3_writes s)))))"
  shows "s3_env s' = s3_env s
    \<and> s3_effect C kd km (m\<lparr>man_ObjectKey := kd\<rparr>) body (s3_lookup s) r (s3_lookup s')"
  using assms(1,2) unfolding s3_store_def Let_def kd_def km_def write_name_def
  by (auto split: if_splits prod.splits option.splits sum.splits intro: s3_effect.intros
      dest!: put_ok put_err)

lemma s3_lookup_record: "s3_lookup (s\<lparr>s3_writes := n\<rparr>) = s3_lookup s"
  by (rule ext) (simp add: s3_lookup_def)

lemma S3Sink_Write_dtm:
  assumes "S3Sink_Write C c now meta fill s = (r, s')"
  shows "opt_Prefix (s3_opts s') = opt_Prefix (s3_opts s) \<and> s3_rand s' = s3_rand s \<and> s3_writes s' = s3_writes s + 1
    \<and> data_then_manifest C (opt_Prefix (s3_opts s)) (s3_rand s (s3_writes s + 1)) now meta fill
        (s3_lookup s) r (s3_lookup s')"
  using assms unfolding S3Sink_Write_def Let_def
proof (cases rule: encodeObject_cases)
  case (failed err)
  then show ?thesis by (simp add: data_then_manifest.nothing s3_lookup_record)
next
  case (stored meta' e)
  note effect = s3_store_effect [OF stored(4), simplified]
  note rules = data_then_manifest.nothing data_then_manifest.data [where fill = fill and meta' = meta', OF stored(1,2) refl]
    data_then_manifest.unreported [where fill = fill and meta' = meta', OF stored(1,2) refl refl refl]
    data_then_manifest.both [where fill = fill and meta' = meta', OF stored(1,2) refl refl refl]
  from effect [THEN conjunct2] show ?thesis
    by (cases rule: s3_effect.cases)
      (use effect rules in \<open>auto simp: s3_env_def s3_lookup_record\<close>)
qed

lemmas S3Sink_Write_two = S3Sink_Write_dtm [THEN conjunct2, THEN conjunct2, THEN conjunct2]

interpretation s3: archive_sink C "S3Sink_Write C" s3_lookup "s3_manifested C" s3_keys s3_inv
  for C :: codec
proof
  fix s s' :: S3Sink and c now meta fill m
  assume "S3Sink_Write C c now meta fill s = (Inr m, s')"
  from data_then_manifest_durable [OF S3Sink_Write_two [OF this]]
  show "\<exists>e meta'. (meta' = meta \<or> meta' = meta\<lparr>meta_PartitionTime := now\<rparr>)
         \<and> fill (newEncoder meta') = Inr e
         \<and> m = (finish C e)\<lparr>man_IngestedAt := now, man_ObjectKey := man_ObjectKey m\<rparr>
         \<and> s3_lookup s' (man_ObjectKey m) = Some (object_body C (enc_lines e))
         \<and> s3_manifested C s' m"
    unfolding s3_manifested_def by blast
next
  fix s s' :: S3Sink and c now meta fill r k b
  assume "s3_inv s" "meta_Name meta = []" "S3Sink_Write C c now meta fill s = (r, s')"
    "s3_lookup s k = Some b"
  then show "s3_lookup s' k = Some b"
    using data_then_manifest_generated S3Sink_Write_dtm unfolding s3_inv_def by blast
next
  fix s s' :: S3Sink and c now meta fill r k
  assume "meta_Name meta \<noteq> []" "S3Sink_Write C c now meta fill s = (r, s')"
    "k \<noteq> fst (s3_keys s meta)" "k \<noteq> snd (s3_keys s meta)"
  then show "s3_lookup s' k = s3_lookup s k"
    using data_then_manifest_confined [OF S3Sink_Write_two]
    by (simp add: s3_keys_def write_name_def)
next
  fix s s' :: S3Sink and c now meta fill m
  assume name: "meta_Name meta \<noteq> []" and W: "S3Sink_Write C c now meta fill s = (Inr m, s')"
  have "man_ObjectKey m = joinPrefix (opt_Prefix (s3_opts s))
      (fst (ObjectPaths meta (write_name meta now (s3_rand s (s3_writes s + 1)))))"
    using data_then_manifest_durable [OF S3Sink_Write_two [OF W]] by blast
  then show "man_ObjectKey m = fst (s3_keys s meta)"
    using name by (simp add: s3_keys_def write_name_def)
next
  fix s s' :: S3Sink and c now meta fill r
  assume "s3_inv s" "name_ok (meta_Name meta)" "S3Sink_Write C c now meta fill s = (r, s')"
  then show "s3_inv s'"
    using data_then_manifest_fresh S3Sink_Write_dtm unfolding s3_inv_def by metis
qed

interpretation s3_named: named_sink C "S3Sink_Write C" s3_lookup "s3_manifested C" s3_keys s3_inv
  for C :: codec
proof
  fix c now meta fill r and s s' :: S3Sink
  show "S3Sink_Write C c now meta fill s = (r, s') \<Longrightarrow> s3_keys s' = s3_keys s"
    by (drule S3Sink_Write_dtm) (simp add: s3_keys_def fun_eq_iff)
qed (auto simp: s3_keys_def data_key_not_manifest_key dest: data_key_inject)

end
