(* ===== verification/Subscriber_Safety.thy ===== *)
theory Subscriber_Safety
  imports Subscriber Sink_Local Sink_S3
begin

text \<open>
  The subscriber's invariant: the committed replay ID never covers an event that is not durably
  stored in the archive. It is proved once, in the locale \<open>stream_deps\<close>, from the contracts of the
  sink and of the lease, for every run: any failures of uploads, commits, logins and streams, any
  interleaving of responses, timers and shutdown.

  The topic is its list of events in replay order. What is assumed of Pub/Sub is \<open>feed_ok\<close>: a
  stream delivers the events that follow the requested position in order and without gaps, and the
  latest replay ID of an empty response with outstanding demand is not past what was delivered.
\<close>

section \<open>Positions and the feed\<close>

type_synonym decoder = "time \<Rightarrow> ConsumerEvent \<Rightarrow> (payload \<times> string) result"

definition archived :: "codec \<Rightarrow> decoder \<Rightarrow> (string \<Rightarrow> string option) \<Rightarrow> ConsumerEvent \<Rightarrow> bool" where
  "archived C dec objs e \<longleftrightarrow>
     (\<exists>l t. holds C objs l \<and> dec t e = Inr (line_Payload l, line_EventType l)
        \<and> line_ReplayId l = encodeReplay (ev_ReplayId e) \<and> line_Source l = SourceStream
        \<and> line_EventId l = streamEventId (line_Payload l))"

definition covered ::
  "codec \<Rightarrow> decoder \<Rightarrow> (string \<Rightarrow> string option) \<Rightarrow> ConsumerEvent list \<Rightarrow> nat \<Rightarrow> nat \<Rightarrow> bool" where
  "covered C dec objs topic b n \<longleftrightarrow> (\<forall>j. b \<le> j \<and> j < n \<longrightarrow> archived C dec objs (topic ! j))"

text \<open>A replay ID stands for the position after its event.\<close>

definition position :: "ConsumerEvent list \<Rightarrow> string \<Rightarrow> nat \<Rightarrow> bool" where
  "position topic rid n \<longleftrightarrow> 0 < n \<and> n \<le> length topic \<and> rid = ev_ReplayId (topic ! (n - 1))"

fun in_order :: "ConsumerEvent list \<Rightarrow> nat \<Rightarrow> (time \<times> session_event) list \<Rightarrow> bool" where
  "in_order topic p [] = True"
| "in_order topic p ((t, Recv r) # evs) =
     (p + length (fr_Events r) \<le> length topic
      \<and> fr_Events r = take (length (fr_Events r)) (drop p topic)
      \<and> (fr_Events r = [] \<and> 0 < fr_PendingNumRequested r \<and> fr_LatestReplayId r \<noteq> [] \<longrightarrow>
           (\<exists>n \<le> p. position topic (fr_LatestReplayId r) n))
      \<and> in_order topic (p + length (fr_Events r)) evs)"
| "in_order topic p (_ # evs) = in_order topic p evs"

definition no_response :: "(time \<times> session_event) list \<Rightarrow> bool" where
  "no_response evs \<longleftrightarrow> (\<forall>(t, e) \<in> set evs. case e of Recv _ \<Rightarrow> False | _ \<Rightarrow> True)"

text \<open>\<open>latest i\<close> is where the i-th stream starts when it asks for LATEST.\<close>

definition feed_ok :: "ConsumerEvent list \<Rightarrow> (nat \<Rightarrow> nat) \<Rightarrow> ('s, 'l) env \<Rightarrow> bool" where
  "feed_ok topic latest E \<longleftrightarrow>
     distinct (map ev_ReplayId topic) \<and> (\<forall>i. latest i \<le> length topic)
     \<and> (\<forall>i req sc. env_Subscribe E i req = Inr sc \<longrightarrow>
          (case fq_ReplayPreset req of
             CUSTOM rid \<Rightarrow> (\<exists>n. position topic rid n \<and> in_order topic n (sc_events sc))
                            \<or> no_response (sc_events sc)
           | EARLIEST \<Rightarrow> in_order topic 0 (sc_events sc)
           | LATEST \<Rightarrow> in_order topic (latest i) (sc_events sc)))"

text \<open>Where the collector is responsible from: the loaded checkpoint, or the bootstrap position.\<close>

definition base_ok ::
  "SubscriberOptions \<Rightarrow> ConsumerEvent list \<Rightarrow> (nat \<Rightarrow> nat) \<Rightarrow> string option \<Rightarrow> nat \<Rightarrow> bool" where
  "base_ok opts topic latest loaded b \<longleftrightarrow>
     (case loaded of
        Some rid \<Rightarrow> position topic rid b
      | None \<Rightarrow> if so_InitialReplay opts = ReplayEarliest then b = 0 else (\<exists>i. b = latest i))"

text \<open>Every event from the base through the replay ID is in the archive.\<close>

definition safe_position ::
  "codec \<Rightarrow> decoder \<Rightarrow> (string \<Rightarrow> string option) \<Rightarrow> ConsumerEvent list \<Rightarrow> (nat \<Rightarrow> bool) \<Rightarrow> string \<Rightarrow> bool" where
  "safe_position C dec objs topic base rid \<longleftrightarrow>
     (\<exists>b n. base b \<and> position topic rid n \<and> covered C dec objs topic b n)"

lemma position_unique:
  assumes "distinct (map ev_ReplayId topic)" "position topic rid n" "position topic rid m"
  shows "n = m"
proof -
  have "map ev_ReplayId topic ! (n - 1) = map ev_ReplayId topic ! (m - 1)"
    using assms(2,3) by (auto simp: position_def)
  then have "n - 1 = m - 1"
    using assms by (subst (asm) nth_eq_iff_index_eq) (auto simp: position_def)
  then show ?thesis using assms(2,3) by (auto simp: position_def)
qed

lemma archived_mono:
  "archived C dec objs e \<Longrightarrow> (\<And>l. holds C objs l \<Longrightarrow> holds C objs' l) \<Longrightarrow> archived C dec objs' e"
  unfolding archived_def by blast

lemma covered_mono:
  "covered C dec objs topic b n \<Longrightarrow> (\<And>l. holds C objs l \<Longrightarrow> holds C objs' l)
   \<Longrightarrow> covered C dec objs' topic b n"
  unfolding covered_def using archived_mono by blast

lemma safe_position_mono:
  "safe_position C dec objs topic base rid \<Longrightarrow> (\<And>l. holds C objs l \<Longrightarrow> holds C objs' l)
   \<Longrightarrow> safe_position C dec objs' topic base rid"
  unfolding safe_position_def using covered_mono by meson

lemma covered_self [simp]: "covered C dec objs topic b b"
  by (auto simp: covered_def)

lemma covered_le: "covered C dec objs topic b n \<Longrightarrow> m \<le> n \<Longrightarrow> covered C dec objs topic b m"
  unfolding covered_def by auto

text \<open>The groups of a batch are the whole batch.\<close>

lemma set_group_order: "set (group_order rs) = rec_Type ` set rs"
proof -
  have "set (foldl (\<lambda>order r. if rec_Type r \<in> set order then order else order @ [rec_Type r]) acc rs)
      = set acc \<union> rec_Type ` set rs" for acc
    by (induction rs arbitrary: acc) auto
  then show ?thesis by (simp add: group_order_def)
qed

lemma group_order_covers: "r \<in> set rs \<Longrightarrow> \<exists>ty \<in> set (group_order rs). r \<in> set (group rs ty)"
  by (auto simp: set_group_order group_def)

definition decoded :: "decoder \<Rightarrow> Record \<Rightarrow> ConsumerEvent \<Rightarrow> bool" where
  "decoded dec r e \<longleftrightarrow>
     (\<exists>t flds. dec t e = Inr (flds, rec_Type r) \<and> rec_Payload r = Some flds
        \<and> rec_Id r = streamEventId flds \<and> rec_ReplayId r = ev_ReplayId e)"

lemma decoded_archived:
  assumes "decoded dec r e" "holds C objs (line_of meta r)" "meta_Source meta = SourceStream"
  shows "archived C dec objs e"
  using assms unfolding decoded_def archived_def
  by (auto simp: line_of_def encodeReplay_def intro!: exI [of _ "line_of meta r"])

lemma decode_decoded: "decode E ev st = Inr r \<Longrightarrow> decoded (env_DecodeEvent E) r ev"
  by (auto simp: decode_def decoded_def split: sum.splits)

section \<open>The contract of the dependencies\<close>

locale stream_deps =
  archive_sink C swrite lookup manifested keys_of inv +
  lease_store lcommit lrenew lrelease lclear cp holder me ok
  for C :: codec and swrite :: "'s sink_write" and lookup manifested keys_of inv
    and lcommit :: "ctx \<Rightarrow> time \<Rightarrow> string \<Rightarrow> 'l \<Rightarrow> goerror option \<times> 'l"
    and lrenew lrelease lclear cp holder me ok +
  fixes E :: "('s, 'l) env"
  assumes env: "env_codec E = C" "env_Write E = swrite" "env_Commit E = lcommit"
      "env_Release E = lrelease"
    and load: "env_Load E c now l = (r, l') \<Longrightarrow> cp l' = cp l \<and> ok l' = ok l
      \<and> (\<forall>rid. r = Inr (Some rid) \<longrightarrow> cp l = Some rid)"
begin

text \<open>Writes never lose what is archived.\<close>

definition keeps :: "('s, 'l) sub \<Rightarrow> ('s, 'l) sub \<Rightarrow> bool" where
  "keeps st st' \<longleftrightarrow> (inv (su_sink st) \<longrightarrow> inv (su_sink st')
     \<and> (\<forall>l. holds C (lookup (su_sink st)) l \<longrightarrow> holds C (lookup (su_sink st')) l))"

definition same_ctl :: "('s, 'l) sub \<Rightarrow> ('s, 'l) sub \<Rightarrow> bool" where
  "same_ctl st st' \<longleftrightarrow> su_committed st' = su_committed st \<and> su_buffer st' = su_buffer st
     \<and> su_lease st' = su_lease st"

lemma keeps_refl: "su_sink st' = su_sink st \<Longrightarrow> keeps st st'"
  by (simp add: keeps_def)

lemma keeps_trans: "keeps st st1 \<Longrightarrow> keeps st1 st2 \<Longrightarrow> keeps st st2"
  by (simp add: keeps_def)

lemma sleep_fields:
  "sleep c d st = (r, st') \<Longrightarrow> su_sink st' = su_sink st \<and> same_ctl st st'"
  by (auto simp: sleep_def same_ctl_def Let_def split: option.splits if_splits)

lemma tick_fields [simp]:
  "su_sink (tick F st) = su_sink st" "su_committed (tick F st) = su_committed st"
  "su_buffer (tick F st) = su_buffer st" "su_lease (tick F st) = su_lease st"
  by (simp_all add: tick_def)

lemma same_ctl_trans: "same_ctl st st1 \<Longrightarrow> same_ctl st1 st2 \<Longrightarrow> same_ctl st st2"
  by (simp add: same_ctl_def)

lemma write_step:
  assumes "WriteRecords C swrite c now meta rs (su_sink st) = (r, sink')" "meta_Name meta = []"
  shows "keeps st (tick F (st\<lparr>su_sink := sink'\<rparr>)) \<and> same_ctl st (tick F (st\<lparr>su_sink := sink'\<rparr>))"
  using WriteRecords_keep [OF _ assms(2,1)] WriteRecords_inv [OF _ _ assms(1)] assms(2)
  by (auto simp: keeps_def same_ctl_def name_ok_def)

lemma write_attempts_effect:
  assumes "write_attempts E c meta rs delay left lastErr st = (r, st')" "meta_Name meta = []"
  shows "keeps st st' \<and> same_ctl st st'
    \<and> (r = None \<longrightarrow> inv (su_sink st) \<longrightarrow> (\<forall>x \<in> set rs. holds C (lookup (su_sink st')) (line_of meta x)))
    \<and> (\<forall>err. r = Some err \<longrightarrow> IsFatal err)"
  using assms(1)
proof (induction left arbitrary: delay lastErr st)
  case 0
  then show ?case by (auto simp: keeps_refl same_ctl_def)
next
  case (Suc left)
  obtain res sink' where W: "WriteRecords C swrite c (su_now st) meta rs (su_sink st) = (res, sink')"
    by fastforce
  let ?st1 = "tick E (st\<lparr>su_sink := sink'\<rparr>)"
  note step = write_step [OF W assms(2), of E]
  show ?case
  proof (cases res)
    case (Inr m)
    then have "r = None" "st' = ?st1" using Suc.prems W by (simp_all add: env)
    moreover have "\<forall>x \<in> set rs. holds C (lookup sink') (line_of meta x)" if "inv (su_sink st)"
      using WriteRecords_holds [OF that W [unfolded Inr]] by blast
    ultimately show ?thesis using step by simp
  next
    case (Inl err)
    consider (last) "left = 0 \<or> (\<exists>e st2. sleep c (jitter delay (env_rand E (su_ticks ?st1))) ?st1 = (Some e, st2))"
      | (retry) st2 where "left \<noteq> 0" "sleep c (jitter delay (env_rand E (su_ticks ?st1))) ?st1 = (None, st2)"
      by (cases "sleep c (jitter delay (env_rand E (su_ticks ?st1))) ?st1") (metis option.exhaust)
    then show ?thesis
    proof cases
      case last
      then have "st' = ?st1 \<or> (\<exists>e. sleep c (jitter delay (env_rand E (su_ticks ?st1))) ?st1 = (Some e, st'))"
        and r: "\<exists>err. r = Some err \<and> IsFatal err"
        using Suc.prems W Inl by (auto simp: env Let_def split: if_splits)
      then have "su_sink st' = su_sink ?st1" "same_ctl ?st1 st'"
        using sleep_fields by (auto simp: same_ctl_def)
      then show ?thesis
        using r step by (auto simp: keeps_def same_ctl_def)
    next
      case retry
      then have R: "write_attempts E c meta rs (backoff_next delay (30 * second)) left err st2 = (r, st')"
        using Suc.prems W Inl by (simp add: env Let_def)
      have "keeps st st2" "same_ctl st st2"
        using step sleep_fields [OF retry(2)] by (simp_all add: keeps_def same_ctl_def)
      then show ?thesis
        using Suc.IH [OF R] by (simp add: keeps_def same_ctl_def)
    qed
  qed
qed

lemma writeWithRetry_effect:
  assumes "writeWithRetry E opts c meta rs st = (r, st')" "meta_Name meta = []"
  shows "keeps st st' \<and> same_ctl st st'
    \<and> (r = None \<longrightarrow> inv (su_sink st) \<longrightarrow> (\<forall>x \<in> set rs. holds C (lookup (su_sink st')) (line_of meta x)))
    \<and> (\<forall>err. r = Some err \<longrightarrow> IsFatal err)"
  using write_attempts_effect assms unfolding writeWithRetry_def by blast

lemma batch_meta_fields [simp]:
  "meta_Name (batch_meta opts org part ty rs) = []"
  "meta_Source (batch_meta opts org part ty rs) = SourceStream"
  by (simp_all add: batch_meta_def)

lemma write_groups_effect:
  assumes "write_groups E opts c org part buf order st = (r, st')"
  shows "keeps st st' \<and> same_ctl st st'
    \<and> (r = None \<longrightarrow> inv (su_sink st) \<longrightarrow> (\<forall>ty \<in> set order. \<forall>x \<in> set (group buf ty).
          \<exists>meta. meta_Source meta = SourceStream \<and> holds C (lookup (su_sink st')) (line_of meta x)))
    \<and> (\<forall>err. r = Some err \<longrightarrow> IsFatal err)"
  using assms
proof (induction order arbitrary: st)
  case Nil
  then show ?case by (auto simp: keeps_refl same_ctl_def)
next
  case (Cons ty order)
  let ?meta = "batch_meta opts org part ty (group buf ty)"
  obtain r1 st1 where W: "writeWithRetry E opts c ?meta (group buf ty) st = (r1, st1)"
    by fastforce
  note step = writeWithRetry_effect [OF W batch_meta_fields(1)]
  show ?case
  proof (cases r1)
    case None
    then have G: "write_groups E opts c org part buf order st1 = (r, st')"
      using Cons.prems W by (simp add: Let_def)
    note IH = Cons.IH [OF G]
    have "keeps st st'" "same_ctl st st'"
      using step IH keeps_trans same_ctl_trans by blast+
    moreover have "\<exists>meta. meta_Source meta = SourceStream \<and> holds C (lookup (su_sink st')) (line_of meta x)"
      if "r = None" "inv (su_sink st)" "ty' \<in> set (ty # order)" "x \<in> set (group buf ty')" for ty' x
    proof (cases "ty' \<in> set order")
      case True
      have "inv (su_sink st1)" using step that(2) by (simp add: keeps_def)
      then show ?thesis using IH that True by blast
    next
      case False
      with that have "ty' = ty" by simp
      then have "holds C (lookup (su_sink st1)) (line_of ?meta x)"
        using step None that by blast
      moreover have "inv (su_sink st1)" using step that(2) by (simp add: keeps_def)
      ultimately have "holds C (lookup (su_sink st')) (line_of ?meta x)"
        using IH by (simp add: keeps_def)
      then show ?thesis using batch_meta_fields(2) by blast
    qed
    ultimately show ?thesis using IH by blast
  next
    case (Some err)
    then show ?thesis using Cons.prems W step by (auto simp: Let_def)
  qed
qed

lemma commit_loop_effect:
  assumes "commit_loop F c deadline delay rid st = (r, st')" "F = E"
  shows "su_sink st' = su_sink st \<and> su_buffer st' = su_buffer st
    \<and> (r = None \<longrightarrow> su_committed st' = Some rid \<and> cp (su_lease st') = Some rid)
    \<and> (\<forall>err. r = Some err \<longrightarrow> IsFatal err \<and> su_committed st' = su_committed st
         \<and> (cp (su_lease st') = cp (su_lease st) \<or> cp (su_lease st') = Some rid))
    \<and> ok (su_lease st') = ok (su_lease st)"
  using assms
proof (induction F c deadline delay rid st rule: commit_loop.induct)
  case (1 F c deadline delay rid st)
  obtain res lease' where L: "lcommit c (su_now st) rid (su_lease st) = (res, lease')"
    by fastforce
  let ?st1 = "tick F (st\<lparr>su_lease := lease'\<rparr>)"
  show ?case
  proof (cases res)
    case None
    then have "r = None" "st' = ?st1\<lparr>su_committed := Some rid\<rparr>"
      using "1.prems" L by (simp_all add: env commit_loop.simps [of E c deadline delay rid st])
    then show ?thesis
      using commit_ok L [unfolded None] ok_kept(1) [OF L] by auto
  next
    case (Some err)
    note lease = commit_err [OF L [unfolded Some]] ok_kept(1) [OF L]
    consider (give_up) st2 where "r = Some (fatal (Wrap ''committing checkpoint failed'' err))" "st' = st2"
        "su_sink st2 = su_sink st" "same_ctl ?st1 st2"
      | (retry) st2 where "sleep c (jitter delay (env_rand F (su_ticks ?st1))) ?st1 = (None, st2)"
        "\<not> (errors_is err ErrLeaseLost \<or> deadline < su_now ?st1)"
        "commit_loop F c deadline (backoff_next delay (5 * second)) rid st2 = (r, st')"
    proof (cases "errors_is err ErrLeaseLost \<or> deadline < su_now ?st1")
      case True
      then show ?thesis
        using "1.prems" L Some
        by (intro give_up [of ?st1])
          (auto simp: env commit_loop.simps [of E c deadline delay rid st] Let_def same_ctl_def)
    next
      case False
      obtain q st2 where S: "sleep c (jitter delay (env_rand F (su_ticks ?st1))) ?st1 = (q, st2)"
        by fastforce
      then show ?thesis
        using "1.prems" L Some False sleep_fields [OF S] give_up [of st2] retry [of st2]
        by (cases q) (simp_all add: env commit_loop.simps [of E c deadline delay rid st] Let_def)
    qed
    then show ?thesis
    proof cases
      case give_up
      then show ?thesis using lease by (auto simp: same_ctl_def)
    next
      case retry
      have f: "su_sink st2 = su_sink st" "su_buffer st2 = su_buffer st"
        "su_committed st2 = su_committed st" "su_lease st2 = lease'"
        using sleep_fields [OF retry(1)] by (auto simp: same_ctl_def)
      have "env_Commit F c (su_now st) rid (su_lease st) = (Some err, lease')"
        using L Some "1.prems"(2) env by simp
      note IH = "1.IH" [OF this [symmetric] refl refl refl retry(2) retry(1) [symmetric] refl retry(3) "1.prems"(2)]
      show ?thesis using IH f lease by auto
    qed
  qed
qed

lemma commit_effect:
  assumes "commit E opts c rid st = (r, st')"
  shows "su_sink st' = su_sink st \<and> su_buffer st' = su_buffer st
    \<and> (r = None \<longrightarrow> su_committed st' = Some rid \<and> cp (su_lease st') = Some rid)
    \<and> (\<forall>err. r = Some err \<longrightarrow> IsFatal err \<and> su_committed st' = su_committed st
         \<and> (cp (su_lease st') = cp (su_lease st) \<or> cp (su_lease st') = Some rid))
    \<and> ok (su_lease st') = ok (su_lease st)"
  using commit_loop_effect assms unfolding commit_def by blast

text \<open>The state between sessions.\<close>

definition safe ::
  "ConsumerEvent list \<Rightarrow> (nat \<Rightarrow> bool) \<Rightarrow> string option \<Rightarrow> string option \<Rightarrow> ('s, 'l) sub \<Rightarrow> string \<Rightarrow> bool" where
  "safe topic base loaded cp0 st rid \<longleftrightarrow>
     safe_position C (env_DecodeEvent E) (lookup (su_sink st)) topic base rid"

definition good ::
  "ConsumerEvent list \<Rightarrow> (nat \<Rightarrow> bool) \<Rightarrow> string option \<Rightarrow> string option \<Rightarrow> ('s, 'l) sub \<Rightarrow> bool" where
  "good topic base loaded cp0 st \<longleftrightarrow>
     inv (su_sink st) \<and> ok (su_lease st)
     \<and> (su_committed st = None \<longrightarrow> loaded = None)
     \<and> (\<forall>rid. su_committed st = Some rid \<longrightarrow>
          safe topic base loaded cp0 st rid \<or> (\<forall>n. \<not> position topic rid n))
     \<and> (\<forall>rid. cp (su_lease st) = Some rid \<longrightarrow> cp0 = Some rid \<or> safe topic base loaded cp0 st rid)"

text \<open>
  Within a session that started from the base \<open>b\<close>: events up to \<open>f\<close> are archived, those from \<open>f\<close> on
  are the buffer.
\<close>

definition sess ::
  "ConsumerEvent list \<Rightarrow> (nat \<Rightarrow> bool) \<Rightarrow> string option \<Rightarrow> string option \<Rightarrow> nat \<Rightarrow> nat \<Rightarrow> ('s, 'l) sub \<Rightarrow> bool" where
  "sess topic base loaded cp0 b f st \<longleftrightarrow>
     good topic base loaded cp0 st \<and> base b
     \<and> covered C (env_DecodeEvent E) (lookup (su_sink st)) topic b f
     \<and> f + length (su_buffer st) \<le> length topic
     \<and> list_all2 (decoded (env_DecodeEvent E)) (su_buffer st)
          (take (length (su_buffer st)) (drop f topic))"

lemma keeps_holds:
  assumes "keeps st st'" "inv (su_sink st)"
  shows "inv (su_sink st')" "holds C (lookup (su_sink st)) l \<Longrightarrow> holds C (lookup (su_sink st')) l"
  using assms by (simp_all add: keeps_def)

lemma sess_keeps:
  assumes "sess topic base loaded cp0 b f st" "keeps st st'"
  shows "covered C (env_DecodeEvent E) (lookup (su_sink st')) topic b f"
proof -
  have "inv (su_sink st)" using assms(1) by (simp add: sess_def good_def)
  note k = keeps_holds(2) [OF assms(2) this]
  show ?thesis
    by (rule covered_mono [where objs = "lookup (su_sink st)"]) (use assms(1) k in \<open>simp_all add: sess_def\<close>)
qed

lemma good_frame:
  assumes "good topic base loaded cp0 st" "keeps st st'"
    "su_committed st' = su_committed st" "su_lease st' = su_lease st"
  shows "good topic base loaded cp0 st'"
proof -
  have "inv (su_sink st)" using assms(1) by (simp add: good_def)
  note k = keeps_holds [OF assms(2) this]
  have "safe topic base loaded cp0 st' rid" if "safe topic base loaded cp0 st rid" for rid
    using that k(2) safe_position_mono unfolding safe_def by blast
  then show ?thesis using assms k(1) unfolding good_def by auto
qed

lemma sess_frame:
  assumes "sess topic base loaded cp0 b f st" "keeps st st'" "same_ctl st st'"
  shows "sess topic base loaded cp0 b f st'"
proof -
  have "good topic base loaded cp0 st'"
    using good_frame [OF _ assms(2)] assms(1,3) by (simp add: sess_def same_ctl_def)
  moreover have "covered C (env_DecodeEvent E) (lookup (su_sink st')) topic b f"
    by (rule sess_keeps [OF assms(1,2)])
  ultimately show ?thesis using assms(1,3) by (simp add: sess_def same_ctl_def)
qed

lemma good_commit:
  assumes "good topic base loaded cp0 st" "safe topic base loaded cp0 st rid"
    and "su_sink st' = su_sink st" "ok (su_lease st') = ok (su_lease st)"
    and "r = None \<longrightarrow> su_committed st' = Some rid \<and> cp (su_lease st') = Some rid"
    and "\<forall>err. r = Some err \<longrightarrow> IsFatal err \<and> su_committed st' = su_committed st
         \<and> (cp (su_lease st') = cp (su_lease st) \<or> cp (su_lease st') = Some rid)"
  shows "good topic base loaded cp0 st'"
  using assms by (cases r) (auto simp: good_def safe_def)

text \<open>When the groups are written, every event of the batch is archived.\<close>

lemma batch_covered:
  assumes "sess topic base loaded cp0 b f st" "keeps st st1"
    and "\<forall>ty \<in> set (group_order (su_buffer st)). \<forall>x \<in> set (group (su_buffer st) ty).
          \<exists>meta. meta_Source meta = SourceStream \<and> holds C (lookup (su_sink st1)) (line_of meta x)"
  shows "covered C (env_DecodeEvent E) (lookup (su_sink st1)) topic b (f + length (su_buffer st))"
  unfolding covered_def
proof (intro allI impI)
  fix j assume j: "b \<le> j \<and> j < f + length (su_buffer st)"
  show "archived C (env_DecodeEvent E) (lookup (su_sink st1)) (topic ! j)"
  proof (cases "j < f")
    case True
    have "covered C (env_DecodeEvent E) (lookup (su_sink st1)) topic b f"
      by (rule sess_keeps [OF assms(1,2)])
    with True j show ?thesis by (simp add: covered_def)
  next
    case False
    define i where "i = j - f"
    have i: "i < length (su_buffer st)" "j = f + i" using False j by (auto simp: i_def)
    let ?x = "su_buffer st ! i"
    have "decoded (env_DecodeEvent E) ?x (topic ! j)"
      using assms(1) i unfolding sess_def
      by (auto simp: list_all2_conv_all_nth)
    moreover have "?x \<in> set (su_buffer st)" using i by simp
    with assms(3) obtain meta where "meta_Source meta = SourceStream"
      "holds C (lookup (su_sink st1)) (line_of meta ?x)"
      using group_order_covers by metis
    ultimately show ?thesis using decoded_archived by blast
  qed
qed

lemma batch_last_position:
  assumes "sess topic base loaded cp0 b f st" "su_buffer st \<noteq> []"
  shows "position topic (rec_ReplayId (last (su_buffer st))) (f + length (su_buffer st))"
proof -
  let ?n = "length (su_buffer st)"
  have n: "0 < ?n" "f + ?n \<le> length topic" using assms by (auto simp: sess_def)
  have "decoded (env_DecodeEvent E) (su_buffer st ! (?n - 1)) (take ?n (drop f topic) ! (?n - 1))"
    using assms(1) n unfolding sess_def by (auto simp: list_all2_conv_all_nth)
  then have "rec_ReplayId (su_buffer st ! (?n - 1)) = ev_ReplayId (topic ! (f + ?n - 1))"
    using n by (auto simp: decoded_def)
  then show ?thesis using n assms(2) by (simp add: position_def last_conv_nth)
qed

lemma flush_effect:
  assumes S: "sess topic base loaded cp0 b f st" and F: "flush E opts c st = (r, st')"
  shows "(r = None \<longrightarrow> sess topic base loaded cp0 b (f + length (su_buffer st)) st' \<and> su_buffer st' = [])
    \<and> (\<forall>err. r = Some err \<longrightarrow> IsFatal err \<and> sess topic base loaded cp0 b f st')"
proof (cases "su_buffer st = []")
  case True
  then show ?thesis using S F by (simp add: flush_def)
next
  case False
  let ?buf = "su_buffer st" and ?rid = "rec_ReplayId (last (su_buffer st))"
  let ?org = "if so_OrgId opts = [] then su_OrgId st else so_OrgId opts"
  have inv: "inv (su_sink st)" using S by (simp add: sess_def good_def)
  obtain r1 st1 where W: "write_groups E opts c ?org (su_now st) ?buf (group_order ?buf) st = (r1, st1)"
    by fastforce
  note step = write_groups_effect [OF W]
  note S1 = sess_frame [OF S step [THEN conjunct1] step [THEN conjunct2, THEN conjunct1]]
  show ?thesis
  proof (cases r1)
    case (Some err)
    then show ?thesis using F W False step S1 by (auto simp: flush_def Let_def)
  next
    case None
    have cov: "covered C (env_DecodeEvent E) (lookup (su_sink st1)) topic b (f + length ?buf)"
      by (rule batch_covered [OF S]) (use step None inv in blast)+
    have pos: "position topic ?rid (f + length ?buf)"
      by (rule batch_last_position [OF S False])
    have safe: "safe topic base loaded cp0 st1 ?rid"
      using cov pos S unfolding safe_def safe_position_def sess_def by blast
    obtain r2 st2 where Cm: "commit E opts c ?rid st1 = (r2, st2)" by fastforce
    note ce = commit_effect [OF Cm]
    have good2: "good topic base loaded cp0 st2"
      by (rule good_commit [OF _ safe, of _ r2]) (use S1 ce in \<open>auto simp: sess_def\<close>)
    show ?thesis
    proof (cases r2)
      case None
      then have "r = None" "st' = st2\<lparr>su_buffer := []\<rparr>"
        using F W False \<open>r1 = None\<close> Cm by (simp_all add: flush_def Let_def)
      moreover have "good topic base loaded cp0 (st2\<lparr>su_buffer := []\<rparr>)"
        using good_frame [OF good2, of "st2\<lparr>su_buffer := []\<rparr>"] by (simp add: keeps_refl)
      ultimately show ?thesis
        using S cov ce by (auto simp: sess_def)
    next
      case (Some err)
      then have "r = Some err" "st' = st2"
        using F W False \<open>r1 = None\<close> Cm by (simp_all add: flush_def Let_def)
      moreover have "sess topic base loaded cp0 b f st2"
        using good2 S1 ce by (simp add: sess_def)
      ultimately show ?thesis using ce Some by auto
    qed
  qed
qed

section \<open>A session\<close>

text \<open>
  A handler that keeps the invariant: when it goes on, the events delivered so far are \<open>q\<close>.
\<close>

definition good_step ::
  "ConsumerEvent list \<Rightarrow> (nat \<Rightarrow> bool) \<Rightarrow> string option \<Rightarrow> string option \<Rightarrow> nat \<Rightarrow> nat \<Rightarrow> ('s, 'l) sub step \<Rightarrow> bool" where
  "good_step topic base loaded cp0 b q res \<longleftrightarrow>
     (case res of
        Cont st' \<Rightarrow> \<exists>f. sess topic base loaded cp0 b f st' \<and> f + length (su_buffer st') = q
      | Ret r st' \<Rightarrow> \<exists>f. sess topic base loaded cp0 b f st')"

lemma good_step_Cont:
  "sess topic base loaded cp0 b f st \<Longrightarrow> f + length (su_buffer st) = q \<Longrightarrow>
     good_step topic base loaded cp0 b q (Cont st)"
  by (auto simp: good_step_def)

lemma good_step_Ret: "sess topic base loaded cp0 b f st \<Longrightarrow> good_step topic base loaded cp0 b q (Ret r st)"
  by (auto simp: good_step_def)

lemma good_step_bind:
  assumes "good_step topic base loaded cp0 b q x"
    and "\<And>st f. sess topic base loaded cp0 b f st \<Longrightarrow> f + length (su_buffer st) = q
           \<Longrightarrow> good_step topic base loaded cp0 b q' (g st)"
  shows "good_step topic base loaded cp0 b q' (bind_step x g)"
  using assms by (cases x) (auto simp: good_step_def)

lemma sess_same:
  assumes "sess topic base loaded cp0 b f st" "su_sink st' = su_sink st" "same_ctl st st'"
  shows "sess topic base loaded cp0 b f st'"
  by (rule sess_frame [OF assms(1) keeps_refl [OF assms(2)] assms(3)])

lemma flushNow_effect:
  assumes "sess topic base loaded cp0 b f st" "flushNow E opts c st = (r, st')"
  shows "(r = None \<longrightarrow> sess topic base loaded cp0 b (f + length (su_buffer st)) st' \<and> su_buffer st' = [])
    \<and> (\<forall>err. r = Some err \<longrightarrow> IsFatal err \<and> sess topic base loaded cp0 b f st')"
  using flush_effect assms unfolding flushNow_def by blast

lemma flush_step:
  assumes "sess topic base loaded cp0 b f st" "f + length (su_buffer st) = q"
    and "\<And>st' f'. sess topic base loaded cp0 b f' st' \<Longrightarrow> f' + length (su_buffer st') = q
           \<Longrightarrow> good_step topic base loaded cp0 b q' (g st')"
  shows "good_step topic base loaded cp0 b q'
    (case flushNow E opts c st of (Some err, st1) \<Rightarrow> Ret (Some err) st1 | (None, st1) \<Rightarrow> g st1)"
proof (cases "flushNow E opts c st")
  case (Pair r st')
  note fe = flushNow_effect [OF assms(1) Pair]
  show ?thesis
  proof (cases r)
    case None
    then have "sess topic base loaded cp0 b q st'" "su_buffer st' = []" using fe assms(2) by auto
    then have "good_step topic base loaded cp0 b q' (g st')" using assms(3) by simp
    then show ?thesis using Pair None by simp
  next
    case (Some err)
    then show ?thesis using Pair fe good_step_Ret by auto
  qed
qed

lemma sess_append:
  assumes "sess topic base loaded cp0 b f st" "f + length (su_buffer st) < length topic"
    and "decoded (env_DecodeEvent E) r (topic ! (f + length (su_buffer st)))"
    and "su_sink st' = su_sink st" "su_committed st' = su_committed st" "su_lease st' = su_lease st"
    and "su_buffer st' = su_buffer st @ [r]"
  shows "sess topic base loaded cp0 b f st'"
proof -
  have "good topic base loaded cp0 st'"
    by (rule good_frame [where st = st]) (use assms in \<open>simp_all add: sess_def keeps_refl\<close>)
  moreover have "take (length (su_buffer st')) (drop f topic)
      = take (length (su_buffer st)) (drop f topic) @ [topic ! (f + length (su_buffer st))]"
    using assms(2,7) by (simp add: take_Suc_conv_app_nth)
  ultimately show ?thesis
    using assms by (simp add: sess_def list_all2_appendI)
qed

lemma handle_events_good:
  assumes "sess topic base loaded cp0 b f st" "f + length (su_buffer st) = p"
    and "p + length evs \<le> length topic" "evs = take (length evs) (drop p topic)"
  shows "good_step topic base loaded cp0 b (p + length evs) (handle_events E opts c evs st)"
  using assms
proof (induction evs arbitrary: f st p)
  case Nil
  then show ?case by (simp add: good_step_Cont)
next
  case (Cons ev evs)
  have p: "p < length topic" using Cons.prems(3) by simp
  have hd: "topic ! p = ev" and tl: "evs = take (length evs) (drop (Suc p) topic)"
    using Cons.prems(4) p by (simp_all add: Cons_nth_drop_Suc [symmetric])
  let ?st = "tick E st"
  have S: "sess topic base loaded cp0 b f ?st"
    by (rule sess_same [OF Cons.prems(1)]) (simp_all add: same_ctl_def)
  show ?case
  proof (cases "decode E ev ?st")
    case (Inl err)
    then show ?thesis using good_step_Ret [OF S] by (simp add: Let_def)
  next
    case (Inr rec)
    let ?st1 = "if su_buffer ?st = []
                then ?st\<lparr>su_bufferStart := su_now ?st, su_flushAt := Some (su_now ?st + so_MaxAge opts)\<rparr>
                else ?st"
    let ?st2 = "?st1\<lparr>su_buffer := su_buffer ?st1 @ [rec], su_pending := su_pending ?st1 - 1\<rparr>"
    have "decoded (env_DecodeEvent E) rec (topic ! (f + length (su_buffer ?st)))"
      using decode_decoded [OF Inr] hd Cons.prems(2) by simp
    then have S2: "sess topic base loaded cp0 b f ?st2"
      by (intro sess_append [OF S]) (use p Cons.prems(2) in auto)
    have len: "f + length (su_buffer ?st2) = Suc p" using Cons.prems(2) by auto
    have next_ok: "good_step topic base loaded cp0 b (p + length (ev # evs)) (handle_events E opts c evs st')"
      if "sess topic base loaded cp0 b f' st'" "f' + length (su_buffer st') = Suc p" for st' f'
      using Cons.IH [OF that _ tl] Cons.prems(3) by simp
    have S3: "sess topic base loaded cp0 b f (?st2\<lparr>su_flushAt := None\<rparr>)"
      by (rule sess_same [OF S2]) (simp_all add: same_ctl_def)
    show ?thesis
    proof (cases "so_MaxEvents opts \<le> int (length (su_buffer ?st2))")
      case True
      have "good_step topic base loaded cp0 b (p + length (ev # evs))
          (case flushNow E opts c (?st2\<lparr>su_flushAt := None\<rparr>) of
             (Some err, st3) \<Rightarrow> Ret (Some err) st3 | (None, st3) \<Rightarrow> handle_events E opts c evs st3)"
        by (rule flush_step [OF S3 _ next_ok]) (use len in simp)
      then show ?thesis using Inr True by (simp only: handle_events.simps Let_def sum.case if_True)
    next
      case False
      then show ?thesis
        using next_ok [OF S2 len] Inr by (simp only: handle_events.simps Let_def sum.case if_False)
    qed
  qed
qed

lemma pin_position_good:
  assumes "sess topic base loaded cp0 b f st" "f + length (su_buffer st) = q"
  shows "good_step topic base loaded cp0 b q (pin_position E opts c st)"
proof -
  have S: "sess topic base loaded cp0 b f (st\<lparr>su_flushAt := None\<rparr>)"
    by (rule sess_same [OF assms(1)]) (simp_all add: same_ctl_def)
  have "good_step topic base loaded cp0 b q
      (case flushNow E opts c (st\<lparr>su_flushAt := None\<rparr>) of
         (Some err, st1) \<Rightarrow> Ret (Some err) st1 | (None, st1) \<Rightarrow> Cont st1)"
    by (rule flush_step [OF S]) (use assms(2) good_step_Cont in auto)
  then show ?thesis
    using good_step_Cont [OF assms] by (simp add: pin_position_def)
qed

lemma good_kept_covered:
  assumes "sess topic base loaded cp0 b f st" "su_sink st' = su_sink st" "su_buffer st' = su_buffer st"
    and "good topic base loaded cp0 st'"
  shows "sess topic base loaded cp0 b f st'"
  using assms by (simp add: sess_def)

lemma keepalive_good:
  assumes S: "sess topic base loaded cp0 b f st" and q: "f + length (su_buffer st) = q"
    and latest: "fr_Events resp = [] \<and> 0 < fr_PendingNumRequested resp \<and> fr_LatestReplayId resp \<noteq> []
      \<Longrightarrow> \<exists>n \<le> q. position topic (fr_LatestReplayId resp) n"
  shows "good_step topic base loaded cp0 b q (keepalive E opts c resp st)"
proof (cases "fr_Events resp = [] \<and> su_buffer st = [] \<and> 0 < fr_PendingNumRequested resp
                \<and> fr_LatestReplayId resp \<noteq> []")
  case True
  then obtain n where n: "n \<le> f" "position topic (fr_LatestReplayId resp) n"
    using latest q by auto
  have safe: "safe topic base loaded cp0 st (fr_LatestReplayId resp)"
    using S n covered_le unfolding safe_def safe_position_def sess_def by blast
  obtain r st1 where Cm: "commit E opts c (fr_LatestReplayId resp) st = (r, st1)" by fastforce
  note ce = commit_effect [OF Cm]
  have "good topic base loaded cp0 st1"
    by (rule good_commit [OF _ safe, of _ r]) (use S ce in \<open>auto simp: sess_def\<close>)
  then have S1: "sess topic base loaded cp0 b f st1"
    using good_kept_covered [OF S] ce by blast
  then show ?thesis
    using True Cm q ce by (cases r) (auto simp: keepalive_def good_step_def)
next
  case False
  then show ?thesis using good_step_Cont [OF S q] unfolding keepalive_def by (simp only: if_False)
qed

lemma request_more_good:
  assumes "sess topic base loaded cp0 b f st" "f + length (su_buffer st) = q"
  shows "good_step topic base loaded cp0 b q (request_more E opts sc st)"
proof -
  have S: "sess topic base loaded cp0 b f st'" "f + length (su_buffer st') = q"
    if "su_sink st' = su_sink st" "same_ctl st st'" for st'
    using sess_same [OF assms(1) that] assms(2) that(2) by (simp_all add: same_ctl_def)
  show ?thesis
    unfolding request_more_def Let_def
    by (auto split: option.splits intro!: good_step_Cont good_step_Ret S assms simp: same_ctl_def)
qed

lemma handle_response_good:
  assumes "sess topic base loaded cp0 b f st" "f + length (su_buffer st) = p"
    and "in_order topic p ((t, Recv resp) # evs)"
  shows "good_step topic base loaded cp0 b (p + length (fr_Events resp))
    (handle_response E opts c sc resp st)"
proof -
  let ?st1 = "st\<lparr>su_idleAt := su_now st + streamIdleTimeout\<rparr>"
  let ?st2 = "if \<not> su_sessionHealthy ?st1
              then ?st1\<lparr>su_sessionHealthy := True, su_authFailures := 0, su_active := True\<rparr> else ?st1"
  let ?q = "p + length (fr_Events resp)"
  have S2: "sess topic base loaded cp0 b f ?st2"
    by (rule sess_same [OF assms(1)]) (simp_all add: same_ctl_def)
  have H: "good_step topic base loaded cp0 b ?q (handle_events E opts c (fr_Events resp) ?st2)"
    by (rule handle_events_good [OF S2]) (use assms(2,3) in auto)
  show ?thesis
    unfolding handle_response_def Let_def
  proof (rule good_step_bind [OF H], rule good_step_bind, erule (1) pin_position_good,
      rule good_step_bind)
    fix st f assume "sess topic base loaded cp0 b f st" "f + length (su_buffer st) = ?q"
    then show "good_step topic base loaded cp0 b ?q (keepalive E opts c resp st)"
      by (rule keepalive_good) (use assms(3) in auto)
  qed (erule (1) request_more_good)
qed

lemma classify_fields:
  "classifyStreamError E e st = (err, st') \<Longrightarrow> su_sink st' = su_sink st \<and> same_ctl st st'"
  by (auto simp: classifyStreamError_def Authenticate_def authFailed_def same_ctl_def Let_def
      split: if_splits prod.splits sum.splits option.splits)

lemma handle_good:
  assumes "sess topic base loaded cp0 b f st" "f + length (su_buffer st) = p"
    and "in_order topic p ((t, ev) # evs)"
  shows "\<exists>q. good_step topic base loaded cp0 b q (handle E opts c sc ev st) \<and> in_order topic q evs"
proof (cases ev)
  case FlushTimer
  have S: "sess topic base loaded cp0 b f (st\<lparr>su_flushAt := None\<rparr>)"
    by (rule sess_same [OF assms(1)]) (simp_all add: same_ctl_def)
  have "good_step topic base loaded cp0 b p
      (case flushNow E opts c (st\<lparr>su_flushAt := None\<rparr>) of
         (Some err, st1) \<Rightarrow> Ret (Some err) st1 | (None, st1) \<Rightarrow> Cont st1)"
    by (rule flush_step [OF S]) (use assms(2) good_step_Cont in auto)
  then show ?thesis using FlushTimer assms(3) by (auto simp: handle_def)
next
  case (Recv resp)
  have "good_step topic base loaded cp0 b (p + length (fr_Events resp)) (handle E opts c sc ev st)"
    using handle_response_good [OF assms(1,2)] assms(3) Recv by (simp add: handle_def)
  then show ?thesis using assms(3) Recv by auto
next
  case (RecvErr e)
  obtain err st1 where c: "classifyStreamError E e st = (err, st1)" by fastforce
  then have "sess topic base loaded cp0 b f st1"
    using sess_same [OF assms(1)] classify_fields [OF c] by blast
  then show ?thesis using RecvErr c assms(3) good_step_Ret by (auto simp: handle_def)
qed (use assms good_step_Ret in \<open>auto simp: handle_def\<close>)

lemma session_loop_good:
  assumes "sess topic base loaded cp0 b f st" "f + length (su_buffer st) = p" "in_order topic p evs"
  shows "\<exists>q. good_step topic base loaded cp0 b q (session_loop E opts c sc evs st)"
  using assms
proof (induction evs arbitrary: st f p)
  case Nil
  then show ?case using good_step_Cont [OF Nil(1,2)] by auto
next
  case (Cons x evs)
  obtain t ev where x: "x = (t, ev)" by fastforce
  let ?st1 = "st\<lparr>su_now := max (su_now st) t\<rparr>"
  have S1: "sess topic base loaded cp0 b f ?st1" "f + length (su_buffer ?st1) = p"
    using sess_same [OF Cons.prems(1), of ?st1] Cons.prems(2) by (simp_all add: same_ctl_def)
  show ?case
  proof (cases "ready c ev ?st1")
    case True
    obtain q where q: "good_step topic base loaded cp0 b q (handle E opts c sc ev ?st1)" "in_order topic q evs"
      using handle_good [OF S1] Cons.prems(3) x by blast
    show ?thesis
    proof (cases "handle E opts c sc ev ?st1")
      case (Cont st2)
      then obtain f' where "sess topic base loaded cp0 b f' st2" "f' + length (su_buffer st2) = q"
        using q(1) by (auto simp: good_step_def)
      then show ?thesis using Cons.IH q(2) Cont True x by (simp add: Let_def)
    next
      case (Ret r st2)
      then show ?thesis using q(1) True x by (auto simp: good_step_def Let_def)
    qed
  next
    case False
    have "in_order topic p evs"
      using Cons.prems(3) x False by (cases ev) (auto simp: ready_def)
    then show ?thesis using Cons.IH [OF S1] x False by (simp add: Let_def)
  qed
qed

text \<open>A stream that never answers leaves an empty buffer empty.\<close>

definition idle :: "ConsumerEvent list \<Rightarrow> (nat \<Rightarrow> bool) \<Rightarrow> string option \<Rightarrow> string option \<Rightarrow> ('s, 'l) sub \<Rightarrow> bool" where
  "idle topic base loaded cp0 st \<longleftrightarrow> good topic base loaded cp0 st \<and> su_buffer st = []"

lemma idle_same:
  "idle topic base loaded cp0 st \<Longrightarrow> su_sink st' = su_sink st \<Longrightarrow> same_ctl st st' \<Longrightarrow> idle topic base loaded cp0 st'"
  using good_frame [OF _ keeps_refl, of topic base loaded cp0 st st'] by (simp add: idle_def same_ctl_def)

definition idle_step ::
  "ConsumerEvent list \<Rightarrow> (nat \<Rightarrow> bool) \<Rightarrow> string option \<Rightarrow> string option \<Rightarrow> ('s, 'l) sub step \<Rightarrow> bool" where
  "idle_step topic base loaded cp0 res \<longleftrightarrow>
     (case res of Cont st' \<Rightarrow> idle topic base loaded cp0 st' | Ret r st' \<Rightarrow> idle topic base loaded cp0 st')"

lemma handle_idle:
  assumes "idle topic base loaded cp0 st" "\<forall>resp. ev \<noteq> Recv resp"
  shows "idle_step topic base loaded cp0 (handle E opts c sc ev st)"
proof (cases ev)
  case FlushTimer
  have "idle topic base loaded cp0 (st\<lparr>su_flushAt := None\<rparr>)"
    by (rule idle_same [OF assms(1)]) (simp_all add: same_ctl_def)
  then show ?thesis
    using FlushTimer assms(1) by (simp add: handle_def flushNow_def flush_def idle_def idle_step_def)
next
  case (RecvErr e)
  obtain err st1 where c: "classifyStreamError E e st = (err, st1)" by fastforce
  then have "idle topic base loaded cp0 st1"
    using idle_same [OF assms(1)] classify_fields [OF c] by blast
  then show ?thesis using RecvErr c by (simp add: handle_def idle_step_def)
qed (use assms in \<open>auto simp: handle_def idle_step_def\<close>)

lemma session_loop_idle:
  assumes "idle topic base loaded cp0 st" "no_response evs"
  shows "idle_step topic base loaded cp0 (session_loop E opts c sc evs st)"
  using assms
proof (induction evs arbitrary: st)
  case Nil
  then show ?case by (simp add: idle_step_def)
next
  case (Cons x evs)
  obtain t ev where x: "x = (t, ev)" by fastforce
  let ?st1 = "st\<lparr>su_now := max (su_now st) t\<rparr>"
  have nr: "\<forall>resp. ev \<noteq> Recv resp" "no_response evs"
    using Cons.prems(2) x by (auto simp: no_response_def)
  have S1: "idle topic base loaded cp0 ?st1"
    by (rule idle_same [OF Cons.prems(1)]) (simp_all add: same_ctl_def)
  show ?case
    using handle_idle [OF S1 nr(1), of opts c sc] Cons.IH [OF S1 nr(2)] Cons.IH [OF _ nr(2)] x
    by (cases "handle E opts c sc ev ?st1") (auto simp: Let_def idle_step_def)
qed

lemma sess_good: "sess topic base loaded cp0 b f st \<Longrightarrow> good topic base loaded cp0 st"
  by (simp add: sess_def)

text \<open>A session ends with the invariant, and with an empty buffer unless it ended fatally.\<close>

definition ended ::
  "ConsumerEvent list \<Rightarrow> (nat \<Rightarrow> bool) \<Rightarrow> string option \<Rightarrow> string option \<Rightarrow> ('s, 'l) sub step \<Rightarrow> bool" where
  "ended topic base loaded cp0 res \<longleftrightarrow>
     (case res of
        Cont st' \<Rightarrow> good topic base loaded cp0 st'
      | Ret r st' \<Rightarrow> good topic base loaded cp0 st' \<and> (\<not> IsFatal_opt r \<longrightarrow> su_buffer st' = []))"

lemma deferred_flush_sess:
  assumes "sess topic base loaded cp0 b f st" "deferred_flush E opts c r st = (r', st')"
  shows "good topic base loaded cp0 st' \<and> (\<not> IsFatal_opt r' \<longrightarrow> su_buffer st' = [])"
proof (cases "su_buffer st = [] \<or> IsFatal_opt r")
  case True
  then show ?thesis
    using assms(2) good_frame [OF sess_good [OF assms(1)] keeps_refl, of "st\<lparr>su_buffer := []\<rparr>"]
    by (auto simp: deferred_flush_def)
next
  case False
  obtain q st1 where F: "flushNow E opts c st = (q, st1)" by fastforce
  note fe = flushNow_effect [OF assms(1) F]
  show ?thesis
    using assms(2) False F fe sess_good by (cases q) (auto simp: deferred_flush_def IsFatal_opt_def)
qed

lemma deferred_flush_idle:
  "idle topic base loaded cp0 st \<Longrightarrow> deferred_flush E opts c r st = (r', st') \<Longrightarrow>
     good topic base loaded cp0 st' \<and> su_buffer st' = []"
  using good_frame [OF _ keeps_refl, of topic base loaded cp0 st "st\<lparr>su_buffer := []\<rparr>"]
  by (auto simp: deferred_flush_def idle_def)

lemma feed_okD:
  assumes "feed_ok topic latest E" "env_Subscribe E i req = Inr sc"
  shows "case fq_ReplayPreset req of
      CUSTOM rid \<Rightarrow> (\<exists>n. position topic rid n \<and> in_order topic n (sc_events sc)) \<or> no_response (sc_events sc)
    | EARLIEST \<Rightarrow> in_order topic 0 (sc_events sc)
    | LATEST \<Rightarrow> in_order topic (latest i) (sc_events sc)"
  using assms unfolding feed_ok_def by blast

lemma feed_ok_len: "feed_ok topic latest E \<Longrightarrow> latest i \<le> length topic"
  by (simp add: feed_ok_def)

lemma start_session:
  assumes "idle topic (base_ok opts topic latest loaded) loaded cp0 st" "feed_ok topic latest E"
    and "env_Subscribe E i (first_request opts st) = Inr sc"
  shows "(\<exists>b n. sess topic (base_ok opts topic latest loaded) loaded cp0 b n st
            \<and> in_order topic n (sc_events sc))
       \<or> no_response (sc_events sc)"
proof (cases "su_committed st")
  case None
  have loaded: "loaded = None" using assms(1) None by (simp add: idle_def good_def)
  let ?b = "if so_InitialReplay opts = ReplayEarliest then 0 else latest i"
  have "in_order topic ?b (sc_events sc)" "?b \<le> length topic"
    using feed_okD [OF assms(2,3)] assms(2) None
    by (auto simp: feed_ok_len first_request_def split: if_splits)
  moreover have "base_ok opts topic latest loaded ?b"
    using loaded by (auto simp: base_ok_def)
  ultimately show ?thesis
    using assms(1) by (intro disjI1 exI [of _ ?b]) (simp add: sess_def idle_def)
next
  case (Some rid)
  have "(\<exists>n. position topic rid n \<and> in_order topic n (sc_events sc)) \<or> no_response (sc_events sc)"
    using feed_okD [OF assms(2,3)] Some by (simp add: first_request_def)
  then show ?thesis
  proof
    assume "\<exists>n. position topic rid n \<and> in_order topic n (sc_events sc)"
    then obtain n where n: "position topic rid n" "in_order topic n (sc_events sc)" by blast
    have "safe topic (base_ok opts topic latest loaded) loaded cp0 st rid"
      using assms(1) Some n(1) by (auto simp: idle_def good_def)
    then obtain b m where b: "base_ok opts topic latest loaded b" "position topic rid m"
      "covered C (env_DecodeEvent E) (lookup (su_sink st)) topic b m"
      unfolding safe_def safe_position_def by blast
    have "m = n" using position_unique b(2) n(1) assms(2) by (auto simp: feed_ok_def)
    then have "sess topic (base_ok opts topic latest loaded) loaded cp0 b n st"
      using assms(1) b n(1) by (auto simp: sess_def idle_def position_def)
    with n show ?thesis by blast
  qed blast
qed

lemma open_stream_ended:
  assumes I: "idle topic (base_ok opts topic latest loaded) loaded cp0 st" and feed: "feed_ok topic latest E"
  shows "ended topic (base_ok opts topic latest loaded) loaded cp0 (open_stream E opts c st)"
proof -
  let ?base = "base_ok opts topic latest loaded"
  let ?st = "tick E (st\<lparr>su_sessionHealthy := False, su_streams := su_streams st + 1\<rparr>)"
  have I1: "idle topic ?base loaded cp0 ?st"
    by (rule idle_same [OF I]) (simp_all add: same_ctl_def)
  show ?thesis
  proof (cases "env_Subscribe E (su_streams st) (first_request opts ?st)")
    case (Inl err)
    then show ?thesis using I1 by (simp add: open_stream_def ended_def idle_def Let_def)
  next
    case (Inr sc)
    let ?st2 = "?st\<lparr>su_pending := so_Appetite opts, su_sends := 0, su_flushAt := None,
                    su_idleAt := su_now ?st + streamIdleTimeout\<rparr>"
    let ?loop = "session_loop E opts c sc (sc_events sc) ?st2"
    have I2: "idle topic ?base loaded cp0 ?st2"
      by (rule idle_same [OF I1]) (simp_all add: same_ctl_def)
    have req: "env_Subscribe E (su_streams st) (first_request opts ?st2) = Inr sc"
      using Inr by (simp add: first_request_def)
    have loop: "(\<exists>b f. (case ?loop of Cont st' \<Rightarrow> sess topic ?base loaded cp0 b f st'
                          | Ret r st' \<Rightarrow> sess topic ?base loaded cp0 b f st'))
             \<or> idle_step topic ?base loaded cp0 ?loop"
      using start_session [OF I2 feed req]
    proof
      assume "\<exists>b n. sess topic ?base loaded cp0 b n ?st2 \<and> in_order topic n (sc_events sc)"
      then obtain b n where live: "sess topic ?base loaded cp0 b n ?st2" "in_order topic n (sc_events sc)"
        by blast
      have "n + length (su_buffer ?st2) = n" using I2 by (simp add: idle_def)
      then obtain q where "good_step topic ?base loaded cp0 b q ?loop"
        using session_loop_good [OF live(1) _ live(2)] by blast
      then show ?thesis by (cases ?loop) (auto simp: good_step_def)
    next
      assume "no_response (sc_events sc)"
      then show ?thesis using session_loop_idle [OF I2] by blast
    qed
    show ?thesis
    proof (cases "sc_Send0 sc \<noteq> None \<and> sc_Send0 sc \<noteq> Some EOF")
      case True
      then show ?thesis using Inr I1 by (simp add: open_stream_def ended_def idle_def Let_def)
    next
      case False
      show ?thesis
      proof (cases ?loop)
        case (Cont st1)
        then have "open_stream E opts c st = Cont st1"
          using Inr False by (auto simp: open_stream_def Let_def)
        then show ?thesis using loop Cont sess_good by (auto simp: ended_def idle_step_def idle_def)
      next
        case (Ret r st1)
        obtain r' st3 where D: "deferred_flush E opts c r st1 = (r', st3)" by fastforce
        have "open_stream E opts c st = Ret r' st3"
          using Inr False Ret D by (auto simp: open_stream_def Let_def)
        then show ?thesis
          using loop Ret deferred_flush_sess [OF _ D] deferred_flush_idle [OF _ D]
          by (auto simp: ended_def idle_step_def)
      qed
    qed
  qed
qed

lemma session_ended:
  assumes I: "idle topic (base_ok opts topic latest loaded) loaded cp0 st" and feed: "feed_ok topic latest E"
  shows "ended topic (base_ok opts topic latest loaded) loaded cp0 (session E opts c st)"
proof (cases "su_OrgId st = []")
  case True
  obtain r st1 where A: "Authenticate E st = (r, st1)" by fastforce
  have I1: "idle topic (base_ok opts topic latest loaded) loaded cp0 st1"
    by (rule idle_same [OF I]) (use A in \<open>auto simp: Authenticate_def same_ctl_def Let_def split: sum.splits\<close>)
  show ?thesis
  proof (cases r)
    case None
    then show ?thesis using open_stream_ended [OF I1 feed] True A by (simp add: session_def)
  next
    case (Some err)
    obtain e st2 where F: "authFailed (Wrap ''authenticating'' err) st1 = (e, st2)" by fastforce
    have "idle topic (base_ok opts topic latest loaded) loaded cp0 st2"
      by (rule idle_same [OF I1]) (use F in \<open>auto simp: authFailed_def same_ctl_def Let_def split: if_splits\<close>)
    then show ?thesis using True A Some F by (simp add: session_def ended_def idle_def)
  qed
next
  case False
  then show ?thesis using open_stream_ended [OF I feed] by (simp add: session_def)
qed

lemma run_loop_good:
  assumes "idle topic (base_ok opts topic latest loaded) loaded cp0 st" "feed_ok topic latest E"
  shows "ended topic (base_ok opts topic latest loaded) loaded cp0 (run_loop E opts c n backoff st)"
  using assms(1)
proof (induction n arbitrary: backoff st)
  case 0
  then show ?case by (simp add: ended_def idle_def)
next
  case (Suc n)
  let ?base = "base_ok opts topic latest loaded"
  note S = session_ended [OF Suc.prems assms(2), of c]
  show ?case
  proof (cases "session E opts c st")
    case (Cont st1)
    then show ?thesis using S by (simp add: ended_def)
  next
    case (Ret err st0)
    let ?st1 = "if su_sessionHealthy st0 then st0\<lparr>su_active := False\<rparr> else st0"
    have E1: "good topic ?base loaded cp0 ?st1" "\<not> IsFatal_opt err \<longrightarrow> su_buffer ?st1 = []"
      using S Ret good_frame [OF _ keeps_refl, of topic ?base loaded cp0 st0 ?st1]
      by (auto simp: ended_def)
    have sleep_ok: "idle topic ?base loaded cp0 st2"
      if "sleep c d ?st1 = (q, st2)" "\<not> IsFatal_opt err" for d q st2
    proof (rule idle_same)
      show "idle topic ?base loaded cp0 ?st1" using E1 that(2) by (simp add: idle_def)
    qed (use sleep_fields [OF that(1)] in blast)+
    show ?thesis
    proof (cases "ctx_done c (su_now ?st1) \<or> IsFatal_opt err")
      case True
      then show ?thesis using Ret E1 by (auto simp: Let_def ended_def IsFatal_opt_def)
    next
      case False
      let ?progressed = "su_sessionHealthy st0 \<and> \<not> (case err of None \<Rightarrow> False | Some e \<Rightarrow> isSchemaError e)"
      let ?b1 = "if ?progressed then so_RetryDelay opts else backoff"
      obtain q st2 where Z: "sleep c (jitter ?b1 (env_rand E (su_ticks ?st1))) ?st1 = (q, st2)"
        by fastforce
      have I2: "idle topic ?base loaded cp0 st2" using sleep_ok [OF Z] False by blast
      show ?thesis
        using Ret False Z Suc.IH [OF I2] I2
        by (cases q) (simp_all add: Let_def ended_def idle_def)
    qed
  qed
qed

text \<open>
  The run: whatever it returns, or while it is still running, the stored checkpoint is the one it
  found or is safe, and a run that does not end fatally leaves no event behind in its buffer.
\<close>

theorem Run_safe:
  assumes "feed_ok topic latest E" "env_Acquire E c (su_now st) (su_lease st) = Some (None, t, l1)"
    and "so_InitialReplay opts \<in> {[], ReplayEarliest, ReplayLatest}"
    and "inv (su_sink st)" "ok l1" "su_committed st = None" "su_buffer st = []"
    and "env_Load E c (max (su_now st) t) l1 = (Inr loaded, l2)"
    and "cp (su_lease (result_state (Run E opts c n st))) = Some rid"
  shows "cp l1 = Some rid \<or> safe_position C (env_DecodeEvent E)
    (lookup (su_sink (result_state (Run E opts c n st)))) topic (base_ok opts topic latest loaded) rid"
proof -
  let ?base = "base_ok opts topic latest loaded"
  let ?st1 = "st\<lparr>su_now := max (su_now st) t, su_lease := l2\<rparr>"
  have l2: "cp l2 = cp l1" "ok l2" using load [OF assms(8)] assms(5) by auto
  let ?st2 = "case loaded of None \<Rightarrow> ?st1 | Some r \<Rightarrow> ?st1\<lparr>su_committed := Some r\<rparr>"
  have start: "safe topic ?base loaded (cp l1) ?st2 r \<or> (\<forall>n. \<not> position topic r n)" if "loaded = Some r" for r
  proof (cases "\<exists>n. position topic r n")
    case True
    then obtain n where "position topic r n" by blast
    then have "safe topic ?base loaded (cp l1) ?st2 r"
      using that unfolding safe_def safe_position_def
      by (intro exI [of _ n]) (simp add: base_ok_def)
    then show ?thesis by blast
  qed blast
  have I: "idle topic ?base loaded (cp l1) ?st2"
    using assms(4-7) l2 start by (cases loaded) (auto simp: idle_def good_def)
  let ?inner = "case loaded of
      None \<Rightarrow> if so_InitialReplay opts = [] then Ret (Some (fatal ErrNoCheckpoint)) ?st1
              else run_loop E opts c n (so_RetryDelay opts) ?st2
    | Some r \<Rightarrow> run_loop E opts c n (so_RetryDelay opts) ?st2"
  have ended: "ended topic ?base loaded (cp l1) ?inner"
    using run_loop_good [OF I assms(1), of c n "so_RetryDelay opts"] I
    by (cases loaded) (auto simp: ended_def idle_def)
  have run: "Run E opts c n st = (case ?inner of
      Cont st' \<Rightarrow> Cont st'
    | Ret e st' \<Rightarrow> Ret e (st'\<lparr>su_lease := snd (lrelease (Some (su_now st' + 5 * second)) (su_now st') (su_lease st'))\<rparr>))"
    using assms(2,3,8) by (cases loaded) (auto simp: Run_def env Let_def)
  obtain st' where st': "good topic ?base loaded (cp l1) st'"
    "su_sink (result_state (Run E opts c n st)) = su_sink st'"
    "cp (su_lease (result_state (Run E opts c n st))) = cp (su_lease st')"
  proof (cases ?inner)
    case (Cont st')
    then show ?thesis using that [of st'] ended run by (simp add: ended_def result_state_def)
  next
    case (Ret e st')
    then have good: "good topic ?base loaded (cp l1) st'" using ended by (simp add: ended_def)
    then have "ok (su_lease st')" by (simp add: good_def)
    then have "cp (snd (lrelease d now (su_lease st'))) = cp (su_lease st')" for d now
      by (rule release_cp [OF _ prod.collapse [symmetric]])
    then show ?thesis using that [OF good] run Ret by (simp add: result_state_def)
  qed
  have "cp (su_lease st') = Some rid" using assms(9) st'(3) by simp
  with st'(1) have "cp l1 = Some rid \<or> safe topic ?base loaded (cp l1) st' rid"
    by (simp add: good_def)
  then show ?thesis using st'(2) by (simp add: safe_def)
qed

end

end
