(* ===== verification/Stream_Service.thy ===== *)
theory Stream_Service
  imports Subscriber_Safety
begin

text \<open>
  The stream collector as deployed: the subscriber on an S3 (or local) archive and a Redis lease.
  The locale \<open>stream_deps\<close> is interpreted on these sinks and this store, and its theorem on the run
  is stated over them.
\<close>

section \<open>The deployed dependencies\<close>

text \<open>The Pub/Sub client, the decoder and the oracles, with the given sink and the Redis store.\<close>

definition service_env ::
  "codec \<Rightarrow> 's sink_write \<Rightarrow> RedisStore \<Rightarrow> string \<Rightarrow> duration \<Rightarrow> (time \<times> net \<times> redis) list
   \<Rightarrow> (nat \<Rightarrow> string result) \<Rightarrow> (nat \<Rightarrow> FetchRequest \<Rightarrow> stream result) \<Rightarrow> decoder
   \<Rightarrow> (nat \<Rightarrow> duration) \<Rightarrow> (nat \<Rightarrow> int) \<Rightarrow> ('s, redis_view) env" where
  "service_env C w store key ttl polls auth subscribe dec lat rnd =
     \<lparr>env_codec = C, env_Write = w, env_Acquire = rv_Acquire store key ttl polls,
      env_Load = rv_Load, env_Commit = rv_Commit, env_Release = rv_Release,
      env_Authenticate = auth, env_Subscribe = subscribe, env_DecodeEvent = dec,
      env_latency = lat, env_rand = rnd\<rparr>"

interpretation s3_redis: stream_deps C "S3Sink_Write C" s3_lookup "s3_manifested C" s3_keys s3_inv
  rv_Commit rv_Renew rv_Release rv_Clear rv_cp rv_holder rv_owner rv_ok
  "service_env C (S3Sink_Write C) store key ttl polls auth subscribe dec lat rnd"
  for C store key ttl polls auth subscribe dec lat rnd
  by unfold_locales (simp_all add: service_env_def rv_Load_effect)

interpretation local_redis: stream_deps C "LocalSink_Write C" ls_lookup "ls_manifested C" ls_keys ls_inv
  rv_Commit rv_Renew rv_Release rv_Clear rv_cp rv_holder rv_owner rv_ok
  "service_env C (LocalSink_Write C) store key ttl polls auth subscribe dec lat rnd"
  for C store key ttl polls auth subscribe dec lat rnd
  by unfold_locales (simp_all add: service_env_def rv_Load_effect)

section \<open>The committed replay ID never covers an event that is not archived\<close>

lemma s3_run_safe:
  assumes "E = service_env C (S3Sink_Write C) store (Key (so_Instance opts) (so_Topic opts))
                 (so_LeaseTTL opts) polls auth subscribe dec lat rnd"
    and "feed_ok topic latest E" "s3_inv sink"
    and "so_InitialReplay opts \<in> {[], ReplayEarliest, ReplayLatest}"
    and "env_Acquire E c now lease = Some (None, t, l1)"
    and "rv_Load c (max now t) l1 = (Inr loaded, l2)"
    and "final = result_state (Run E opts c n (NewSubscriber sink lease now))"
    and "rv_cp (su_lease final) = Some rid"
  shows "rv_cp l1 = Some rid
    \<or> safe_position C dec (s3_lookup (su_sink final)) topic (base_ok opts topic latest loaded) rid"
proof -
  let ?st = "NewSubscriber sink lease now"
  have dec: "env_DecodeEvent E = dec" and load: "env_Load E = rv_Load"
    using assms(1) by (simp_all add: service_env_def)
  have new: "su_now ?st = now" "su_lease ?st = lease" "su_sink ?st = sink" "su_committed ?st = None"
    "su_buffer ?st = []"
    by (simp_all add: NewSubscriber_def)
  have ok: "rv_ok l1"
    using assms(1,5) rv_Acquire_ok by (simp add: service_env_def)
  have acq: "env_Acquire E c (su_now ?st) (su_lease ?st) = Some (None, t, l1)"
    and ld: "env_Load E c (max (su_now ?st) t) l1 = (Inr loaded, l2)"
    and cp: "rv_cp (su_lease (result_state (Run E opts c n ?st))) = Some rid"
    and inv: "s3_inv (su_sink ?st)"
    using assms(3,5-8) load new by simp_all
  show ?thesis
    using s3_redis.Run_safe [OF assms(2) [unfolded assms(1)] acq [unfolded assms(1)] assms(4) inv ok
        new(4,5) ld [unfolded assms(1)] cp [unfolded assms(1)]]
      assms(7) dec assms(1) by simp
qed


text \<open>A concrete run: a bucket, a fresh lease, and a topic of two events.\<close>

definition wit_codec :: codec where
  "wit_codec = \<lparr>jsonEncode = (\<lambda>l. Inr ''x''), gzip = (\<lambda>b. b), gunzip = Inr,
     jsonDecode = (\<lambda>b. ([], None)), manEncode = (\<lambda>m. Inr ''m''), manDecode = (\<lambda>b. Inl EOF)\<rparr>"

definition wit_s3 :: S3Sink where
  "wit_s3 = \<lparr>s3_opts = \<lparr>opt_Bucket = ''b'', opt_Prefix = [], opt_Region = [], opt_Endpoint = [],
       opt_ForcePathStyle = False, opt_KmsKeyId = [], opt_StorageClass = [], opt_MaxAttempts = 5,
       opt_UploadTimeout = 5\<rparr>,
     s3_bucket = [], s3_uploads = 0, s3_upload = (\<lambda>n c i. PutOk), s3_aborted = [], s3_writes = 0,
     s3_rand = (\<lambda>n. replicate n (CHR ''a'')), s3_create = (\<lambda>n. None), s3_finish = (\<lambda>n. None)\<rparr>"

definition wit_opts :: SubscriberOptions where
  "wit_opts = \<lparr>so_Topic = ''t'', so_Instance = ''i'', so_OrgId = ''o'', so_Env = [], so_Appetite = 100,
     so_MaxEvents = 1000, so_MaxAge = 60, so_InitialReplay = ReplayEarliest, so_LeaseTTL = 30 * second,
     so_WriteAttempts = 1, so_ShutdownFlushTimeout = 90, so_MaxBackoff = 60, so_RetryDelay = 1\<rparr>"

definition wit_topic :: "ConsumerEvent list" where
  "wit_topic = [\<lparr>ev_ReplayId = ''r'', ev_SchemaId = [], ev_Payload = []\<rparr>,
                \<lparr>ev_ReplayId = ''s'', ev_SchemaId = [], ev_Payload = []\<rparr>]"

definition wit_subscribe :: "nat \<Rightarrow> FetchRequest \<Rightarrow> stream result" where
  "wit_subscribe i req =
     (if fq_ReplayPreset req = EARLIEST
      then Inr \<lparr>sc_Send0 = None, sc_Send = (\<lambda>n. None),
        sc_events = [(1, Recv \<lparr>fr_Events = wit_topic, fr_LatestReplayId = ''s'',
                               fr_PendingNumRequested = 98\<rparr>)]\<rparr>
      else Inl EOF)"

definition wit_view :: redis_view where
  "wit_view = \<lparr>rv_lease = redis_lease_of (wit_store ''a'') [] 0, rv_net = (\<lambda>n. Reply), rv_calls = 0,
     rv_redis = Map.empty\<rparr>"

definition wit_env :: "'s sink_write \<Rightarrow> ('s, redis_view) env" where
  "wit_env w = service_env wit_codec w (wit_store ''a'')
     (Key (so_Instance wit_opts) (so_Topic wit_opts)) (so_LeaseTTL wit_opts)
     [(1, Reply, Map.empty)] (\<lambda>n. Inr ''o'') wit_subscribe (\<lambda>t e. Inr ([], ''Login''))
     (\<lambda>n. 1) (\<lambda>n. 0)"

lemma wit_s3_inv: "s3_inv wit_s3"
proof -
  have "inj (\<lambda>n. replicate n (CHR ''a''))" by (rule injI) (metis length_replicate)
  then show ?thesis
    by (simp add: s3_inv_def fresh_draws_def wit_s3_def s3_lookup_def)
qed

lemma wit_feed: "feed_ok wit_topic (\<lambda>i. 0) (wit_env w)"
  by (auto simp: feed_ok_def wit_topic_def wit_env_def service_env_def wit_subscribe_def split: if_splits)

lemma wit_redis_keys: "redis_keys (wit_store a) (Key ''i'' ''t'') = (''sfarch:{i/t}:lease'', ''sfarch:{i/t}:replay'')"
  by (simp add: redis_keys_def wit_store_def Key_def)

lemma wit_acquire:
  "env_Acquire (wit_env w) None 0 wit_view =
     Some (None, 1, wit_view\<lparr>rv_lease := redis_lease_of (wit_store ''a'') (Key ''i'' ''t'') 30000000000,
       rv_redis := [''sfarch:{i/t}:lease'' \<mapsto> (''a'', Some 30000000001)]\<rparr>)"
  by (simp add: wit_env_def service_env_def rv_Acquire_def RedisStore_Acquire_def wit_view_def
      wit_opts_def wit_redis_keys redis_try_acquire_def redis_SETNX_def redis_call_def redis_GET_def
      redis_lease_of_def second_def) (simp add: wit_store_def)

lemmas wit_defs = wit_s3_def wit_opts_def wit_view_def wit_codec_def wit_store_def

text \<open>The write of any batch succeeds in this bucket.\<close>

lemma wit_write_each:
  "\<exists>e'. write_each wit_codec rs e = Inr e'"
  by (induction rs arbitrary: e) (auto simp: WriteRecord_def wit_codec_def Let_def)

lemma wit_write:
  assumes "meta_Source meta \<noteq> []"
  shows "\<exists>m sink'. WriteRecords wit_codec (S3Sink_Write wit_codec) c now meta rs wit_s3 = (Inr m, sink')"
proof -
  obtain e where e: "write_each wit_codec rs (newEncoder
      (if IsZero (meta_PartitionTime meta) then meta\<lparr>meta_PartitionTime := now\<rparr> else meta)) = Inr e"
    using wit_write_each by blast
  show ?thesis
    using assms e
    by (simp add: WriteRecords_def S3Sink_Write_def encodeObject_def s3_store_def put_def Let_def wit_s3_def
        wit_codec_def split: prod.splits)
qed

lemma wit_commit:
  "rv_Commit None now (c # rid) (wit_view\<lparr>rv_lease := redis_lease_of (wit_store ''a'') (Key ''i'' ''t'') 30000000000,
      rv_calls := n, rv_redis := [''sfarch:{i/t}:lease'' \<mapsto> (''a'', Some 30000000001)]\<rparr>)
   = (if now < 30000000001 then
        (None, wit_view\<lparr>rv_lease := redis_lease_of (wit_store ''a'') (Key ''i'' ''t'') 30000000000,
          rv_calls := Suc n, rv_redis := [''sfarch:{i/t}:lease'' \<mapsto> (''a'', Some (now + 30000000000)),
             ''sfarch:{i/t}:replay'' \<mapsto> (c # rid, None)]\<rparr>)
      else (Some ErrLeaseLost, wit_view\<lparr>rv_lease := redis_lease_of (wit_store ''a'') (Key ''i'' ''t'') 30000000000,
          rv_calls := Suc n, rv_redis := [''sfarch:{i/t}:lease'' \<mapsto> (''a'', Some 30000000001)]\<rparr>))"
  by (simp add: rv_Commit_def rv_op_def redis_Commit_def redis_call_def commitScript_def redis_lease_of_def
      wit_redis_keys redis_GET_def redis_SET_def redis_PEXPIRE_def script_result_def rl_owner_def rl_ms_def
      wit_view_def second_def millisecond_def fun_upd_twist) (simp add: wit_store_def)

lemma wit_load:
  "rv_Load None now (wit_view\<lparr>rv_lease := redis_lease_of (wit_store ''a'') (Key ''i'' ''t'') 30000000000,
      rv_redis := [''sfarch:{i/t}:lease'' \<mapsto> (''a'', Some 30000000001)]\<rparr>)
   = (Inr None, wit_view\<lparr>rv_lease := redis_lease_of (wit_store ''a'') (Key ''i'' ''t'') 30000000000,
      rv_calls := Suc 0, rv_redis := [''sfarch:{i/t}:lease'' \<mapsto> (''a'', Some 30000000001)]\<rparr>)"
  by (simp add: rv_Load_def rv_op_def redis_Load_def redis_call_def redis_lease_of_def
      wit_redis_keys redis_GET_def wit_view_def)

text \<open>The run of the two events, with any sink whose writes succeed at first.\<close>

definition wit_final :: "'s sink_write \<Rightarrow> 's \<Rightarrow> ('s, redis_view) sub" where
  "wit_final w s = result_state (Run (wit_env w) wit_opts None 1 (NewSubscriber s wit_view 0))"

lemma wit_final_cp:
  assumes W: "\<And>now meta rs. meta_Source meta \<noteq> [] \<Longrightarrow>
    WriteRecords wit_codec w None now meta rs s = (Inr (f now meta rs), g now meta rs)"
  shows "rv_cp (su_lease (wit_final w s)) = Some ''s''"
proof -
  have E: "env_codec (wit_env w) = wit_codec" "env_Write (wit_env w) = w"
    "env_Load (wit_env w) = rv_Load" "env_Commit (wit_env w) = rv_Commit"
    "env_Authenticate (wit_env w) = (\<lambda>n. Inr ''o'')" "env_Subscribe (wit_env w) = wit_subscribe"
    "env_DecodeEvent (wit_env w) = (\<lambda>t e. Inr ([], ''Login''))" "env_latency (wit_env w) = (\<lambda>n. 1)"
    "env_rand (wit_env w) = (\<lambda>n. 0)"
    by (simp_all add: wit_env_def service_env_def)
  have O: "so_Instance wit_opts = ''i''" "so_Topic wit_opts = ''t''" "so_OrgId wit_opts = ''o''"
    "so_Appetite wit_opts = 100" "so_MaxEvents wit_opts = 1000" "so_InitialReplay wit_opts = ReplayEarliest"
    "so_WriteAttempts wit_opts = 1"
    by (simp_all add: wit_opts_def)
  have src: "SourceStream \<noteq> []" by (simp add: SourceStream_def)
  have "rv_cp (su_lease (result_state (Run (wit_env w) wit_opts None 1 (NewSubscriber s wit_view 0)))) = Some ''s''"
    apply (simp add: Run_def wit_acquire wit_load E O NewSubscriber_def ReplayEarliest_def session_def
        Authenticate_def tick_def open_stream_def wit_subscribe_def first_request_def Let_def)
    apply (simp add: ready_def handle_def handle_response_def wit_topic_def Let_def tick_def E O decode_def
        pin_position_def flushNow_def flush_def flushContext_def group_order_def group_def
        writeWithRetry_def W src commit_def second_def)
    apply (subst commit_loop.simps)
    apply (simp add: wit_commit E O tick_def keepalive_def request_more_def Let_def)
    apply (simp add: result_state_def rv_cp_def redis_lease_of_def wit_redis_keys)
    done
  then show ?thesis by (simp add: wit_final_def)
qed

text \<open>A write of the run as a pair of functions of its inputs.\<close>

lemma write_functions:
  assumes "\<And>now meta rs. meta_Source meta \<noteq> [] \<Longrightarrow>
    \<exists>m s'. WriteRecords C w c now meta rs s = (Inr m, s')" "meta_Source meta \<noteq> []"
  shows "WriteRecords C w c now meta rs s
    = (Inr (projr (fst (WriteRecords C w c now meta rs s))), snd (WriteRecords C w c now meta rs s))"
proof -
  obtain m s' where "WriteRecords C w c now meta rs s = (Inr m, s')"
    using assms by blast
  then show ?thesis by simp
qed

lemma wit_s3_cp: "rv_cp (su_lease (wit_final (S3Sink_Write wit_codec) wit_s3)) = Some ''s''"
  by (rule wit_final_cp, rule write_functions [OF wit_write])

lemma wit_opts_replay: "so_InitialReplay wit_opts \<in> {[], ReplayEarliest, ReplayLatest}"
  by (simp add: wit_opts_def)


section \<open>A local archive survives a crash\<close>


definition wit_local :: LocalSink where
  "wit_local = \<lparr>ls_Prefix = [], ls_files = [], ls_durable = [], ls_temp = None, ls_writes = 0, ls_calls = 0,
     ls_fault = (\<lambda>n. None), ls_delay = (\<lambda>n. 0), ls_rand = (\<lambda>n. replicate n (CHR ''a'')),
     ls_create = (\<lambda>n. None), ls_finish = (\<lambda>n. None)\<rparr>"

lemma wit_local_inv: "ls_inv wit_local"
proof -
  have "inj (\<lambda>n. replicate n (CHR ''a''))" by (rule injI) (metis length_replicate)
  then show ?thesis
    by (simp add: ls_inv_def fresh_draws_def wit_local_def ls_lookup_def)
qed

lemma atomicWrite_fine:
  assumes "ls_fault s = (\<lambda>n. None)"
  shows "\<exists>s1. atomicWrite None t k b s = (None, s1) \<and> ls_fault s1 = (\<lambda>n. None)"
proof (cases "atomicWrite None t k b s")
  case (Pair r s1)
  then have "r = None" "ls_fault s1 = (\<lambda>n. None)"
    using assms by (auto simp: atomicWrite_def step_defs ctx_done_def split: option.splits)
  then show ?thesis using Pair by simp
qed

lemma wit_man: "manEncode wit_codec m = Inr ''m''"
  by (simp add: wit_codec_def)

lemma wit_local_write:
  assumes "meta_Source meta \<noteq> []"
  shows "\<exists>m sink'. WriteRecords wit_codec (LocalSink_Write wit_codec) None now meta rs wit_local = (Inr m, sink')"
proof -
  obtain e where e: "write_each wit_codec rs (newEncoder
      (if IsZero (meta_PartitionTime meta) then meta\<lparr>meta_PartitionTime := now\<rparr> else meta)) = Inr e"
    using wit_write_each by blast
  have "\<exists>m s'. ls_store wit_codec None now meta b m0 s = (Inr m, s')" if f: "ls_fault s = (\<lambda>n. None)" for b m0 s
  proof -
    let ?n = "if meta_Name meta = [] then UniqueName (man_IngestedAt m0) (ls_rand s (ls_writes s)) else meta_Name meta"
    let ?kd = "joinPrefix (ls_Prefix s) (fst (ObjectPaths meta ?n))"
    let ?km = "joinPrefix (ls_Prefix s) (snd (ObjectPaths meta ?n))"
    obtain s1 where s1: "atomicWrite None now ?kd b s = (None, s1)" "ls_fault s1 = (\<lambda>n. None)"
      using atomicWrite_fine [OF f] by blast
    obtain s2 where s2: "atomicWrite None 0 ?km ''m'' s1 = (None, s2)"
      using atomicWrite_fine [OF s1(2)] by blast
    show ?thesis
      using s1 s2 by (simp only: ls_store_def Let_def ctx_done_def option.case if_False prod.case
          atomicWriteBytes_def wit_man sum.case) blast
  qed
  then show ?thesis
    using assms e
    by (simp add: WriteRecords_def LocalSink_Write_def encodeObject_def Let_def wit_local_def)
qed

lemma wit_local_cp: "rv_cp (su_lease (wit_final (LocalSink_Write wit_codec) wit_local)) = Some ''s''"
  by (rule wit_final_cp, rule write_functions [OF wit_local_write])


end
