(* ===== verification/Subscriber_Faults.thy ===== *)
theory Subscriber_Faults
  imports Stream_Service
begin

text \<open>
  How the subscriber of \<^verbatim>\<open>internal/integration/stream/subscriber.go\<close> meets failures: what a flush and a
  commit do when their calls fail and when they give up, what a session leaves behind when it ends,
  when logins are given up, when the renewer reports a lost lease, and what \<^verbatim>\<open>Run\<close> can return. No
  assumption on the archive, the lease or the client is made here, unless a lemma states it.
\<close>

section \<open>Delays\<close>

lemma jitter_le: "jitter d r \<le> max 0 d"
proof (cases "d < 2")
  case False
  then have "r mod (d div 2) < d div 2" by (intro pos_mod_bound) linarith
  moreover have "2 * (d div 2) \<le> d" by arith
  ultimately have "d div 2 + r mod (d div 2) \<le> max 0 d" by linarith
  with False show ?thesis by (simp only: jitter_def Let_def if_False)
qed (simp add: jitter_def)

lemma jitter_ge: "0 \<le> d \<Longrightarrow> d div 2 \<le> jitter d r"
  by (simp add: jitter_def Let_def)

lemma backoff_next_le: "backoff_next d limit \<le> limit"
  by (simp add: backoff_next_def)

lemma sleep_bound: "sleep c d st = (r, st') \<Longrightarrow> su_now st' \<le> su_now st + max 0 d"
  by (auto simp: sleep_def Let_def split: option.splits if_splits)

lemma sleep_cancelled: "sleep c d st = (Some e, st') \<Longrightarrow> ctx_done c (su_now st')"
  by (auto simp: sleep_def Let_def ctx_done_def split: option.splits if_splits)

lemma sleep_frame:
  "sleep c d st = (r, st') \<Longrightarrow> su_buffer st' = su_buffer st \<and> su_committed st' = su_committed st
     \<and> su_flushAt st' = su_flushAt st \<and> su_bufferStart st' = su_bufferStart st \<and> su_OrgId st' = su_OrgId st
     \<and> su_authFailures st' = su_authFailures st \<and> su_auths st' = su_auths st"
  by (auto simp: sleep_def Let_def split: option.splits if_splits)

lemma tick_frame [simp]:
  "su_buffer (tick E st) = su_buffer st" "su_committed (tick E st) = su_committed st"
  "su_flushAt (tick E st) = su_flushAt st" "su_bufferStart (tick E st) = su_bufferStart st"
  "su_OrgId (tick E st) = su_OrgId st" "su_authFailures (tick E st) = su_authFailures st"
  "su_auths (tick E st) = su_auths st" "su_pending (tick E st) = su_pending st"
  by (simp_all add: tick_def)

section \<open>Commits\<close>

lemma fatal_lost: "errors_is err ErrLeaseLost \<Longrightarrow> errors_is (fatal (Wrap s err)) ErrLeaseLost"
  by (simp add: fatal_def chain_simps)

text \<open>What one call of \<^verbatim>\<open>commit\<close> leaves: its outcome, its reason to stop and the time it took.\<close>

definition commit_outcome ::
  "ctx \<Rightarrow> time \<Rightarrow> string \<Rightarrow> ('s, 'l) sub \<Rightarrow> goerror option \<Rightarrow> ('s, 'l) sub \<Rightarrow> bool" where
  "commit_outcome c deadline rid st r st' \<longleftrightarrow>
     su_buffer st' = su_buffer st \<and> su_flushAt st' = su_flushAt st \<and> su_bufferStart st' = su_bufferStart st
     \<and> (case r of
          None \<Rightarrow> su_committed st' = Some rid
        | Some err \<Rightarrow> IsFatal err \<and> su_committed st' = su_committed st
            \<and> (errors_is err ErrLeaseLost \<or> ctx_done c (su_now st') \<or> deadline < su_now st'))"

lemma commit_loop_outcome:
  "commit_loop E c deadline delay rid st = (r, st') \<Longrightarrow> commit_outcome c deadline rid st r st'"
proof (induction E c deadline delay rid st rule: commit_loop.induct)
  case (1 E c deadline delay rid st)
  obtain res lease' where C: "env_Commit E c (su_now st) rid (su_lease st) = (res, lease')" by fastforce
  let ?st1 = "tick E (st\<lparr>su_lease := lease'\<rparr>)"
  let ?S = "sleep c (jitter delay (env_rand E (su_ticks ?st1))) ?st1"
  note run = "1.prems" [unfolded commit_loop.simps [of E c deadline delay rid st] C]
  show ?case
  proof (cases res)
    case None
    then show ?thesis using run by (auto simp: commit_outcome_def)
  next
    case (Some err)
    obtain woken st2 where S: "?S = (woken, st2)" by fastforce
    note frame = sleep_frame [OF S]
    show ?thesis
    proof (cases "errors_is err ErrLeaseLost \<or> deadline < su_now ?st1")
      case True
      then show ?thesis using run Some fatal_lost by (auto simp: commit_outcome_def)
    next
      case go: False
      show ?thesis
      proof (cases woken)
        case None
        then have "commit_loop E c deadline (backoff_next delay (5 * second)) rid st2 = (r, st')"
          using run Some go S by simp
        from "1.IH" [OF C [symmetric] Some refl refl go S [symmetric] None this] frame show ?thesis
          by (auto simp: commit_outcome_def split: option.splits)
      next
        case (Some e)
        then show ?thesis
          using run \<open>res = Some err\<close> go S frame sleep_cancelled by (auto simp: commit_outcome_def)
      qed
    qed
  qed
qed

lemma commit_loop_time:
  assumes "\<And>k. env_latency E k \<le> L" "1 \<le> L" "5 * second \<le> M"
  shows "commit_loop E c deadline delay rid st = (r, st') \<Longrightarrow> delay \<le> M \<Longrightarrow> su_now st \<le> deadline + M
    \<Longrightarrow> su_now st' \<le> deadline + M + L"
  using assms
proof (induction E c deadline delay rid st rule: commit_loop.induct)
  case (1 E c deadline delay rid st)
  obtain res lease' where C: "env_Commit E c (su_now st) rid (su_lease st) = (res, lease')" by fastforce
  let ?st1 = "tick E (st\<lparr>su_lease := lease'\<rparr>)"
  let ?S = "sleep c (jitter delay (env_rand E (su_ticks ?st1))) ?st1"
  note run = "1.prems"(1) [unfolded commit_loop.simps [of E c deadline delay rid st] C]
  have call: "su_now ?st1 \<le> deadline + M + L"
    using "1.prems"(3,5) "1.prems"(4) [of "su_ticks st"] by (simp add: tick_def)
  show ?case
  proof (cases res)
    case None
    then show ?thesis using run call by auto
  next
    case (Some err)
    obtain woken st2 where S: "?S = (woken, st2)" by fastforce
    show ?thesis
    proof (cases "errors_is err ErrLeaseLost \<or> deadline < su_now ?st1")
      case True
      then show ?thesis using run Some call by auto
    next
      case go: False
      have "0 \<le> M" using "1.prems"(6) by (simp add: second_def)
      then have "max 0 (jitter delay (env_rand E (su_ticks ?st1))) \<le> M"
        using jitter_le [of delay "env_rand E (su_ticks ?st1)"] "1.prems"(2) by linarith
      then have slept: "su_now st2 \<le> deadline + M" using sleep_bound [OF S] go by linarith
      show ?thesis
      proof (cases woken)
        case None
        then have "commit_loop E c deadline (backoff_next delay (5 * second)) rid st2 = (r, st')"
          using run Some go S by simp
        moreover have "backoff_next delay (5 * second) \<le> M"
          using backoff_next_le "1.prems"(6) by (rule order_trans)
        ultimately show ?thesis
          using "1.IH" [OF C [symmetric] Some refl refl go S [symmetric] None] slept "1.prems"(4-6) by blast
      next
        case (Some e)
        then show ?thesis using run \<open>res = Some err\<close> go S slept "1.prems"(5) by auto
      qed
    qed
  qed
qed

text \<open>
  C23: committing gives up neither early nor late. A commit that fails is fatal and leaves the
  committed position; it fails only because the lease is lost, the context is done or the budget is
  used up; and when every call takes at most \<open>L\<close>, it returns within the budget, one last delay and one
  last call.
\<close>

theorem commit_within_budget:
  assumes "commit E opts c rid st = (r, st')"
    and "\<And>k. env_latency E k \<le> L" and "1 \<le> L"
  shows "su_now st' \<le> su_now st + commitBudget opts + max (so_RetryDelay opts) (5 * second) + L
    \<and> (case r of
         None \<Rightarrow> su_committed st' = Some rid
       | Some err \<Rightarrow> IsFatal err \<and> su_committed st' = su_committed st
           \<and> (errors_is err ErrLeaseLost \<or> ctx_done c (su_now st')
              \<or> su_now st + commitBudget opts < su_now st'))"
proof -
  let ?M = "max (so_RetryDelay opts) (5 * second)"
  have "0 \<le> commitBudget opts + ?M" by (simp add: commitBudget_def Let_def second_def)
  then have "su_now st' \<le> su_now st + commitBudget opts + ?M + L"
    using commit_loop_time [OF assms(2,3), of ?M c "su_now st + commitBudget opts" "so_RetryDelay opts"] assms(1)
    by (simp add: commit_def)
  then show ?thesis
    using commit_loop_outcome [OF assms(1) [unfolded commit_def]] by (auto simp: commit_outcome_def split: option.splits)
qed

section \<open>Flushes\<close>

text \<open>A failed write is fatal and keeps the batch.\<close>

definition write_frame :: "goerror option \<Rightarrow> ('s, 'l) sub \<Rightarrow> ('s, 'l) sub \<Rightarrow> bool" where
  "write_frame r st st' \<longleftrightarrow> (\<forall>err. r = Some err \<longrightarrow> IsFatal err)
     \<and> su_buffer st' = su_buffer st \<and> su_committed st' = su_committed st
     \<and> su_flushAt st' = su_flushAt st \<and> su_bufferStart st' = su_bufferStart st"

lemma write_frame_refl: "write_frame None st st"
  by (simp add: write_frame_def)

lemma write_frame_trans: "write_frame None st st1 \<Longrightarrow> write_frame r st1 st' \<Longrightarrow> write_frame r st st'"
  by (simp add: write_frame_def)

lemma write_attempts_frame:
  "write_attempts E c meta rs delay left lastErr st = (r, st') \<Longrightarrow> write_frame r st st'"
proof (induction left arbitrary: delay lastErr st)
  case 0
  then show ?case by (auto simp: write_frame_def)
next
  case (Suc left)
  obtain res sink' where W: "WriteRecords (env_codec E) (env_Write E) c (su_now st) meta rs (su_sink st) = (res, sink')"
    by fastforce
  let ?st1 = "tick E (st\<lparr>su_sink := sink'\<rparr>)"
  obtain woken st2 where S: "sleep c (jitter delay (env_rand E (su_ticks ?st1))) ?st1 = (woken, st2)" by fastforce
  have frame: "write_frame None st ?st1" "write_frame None st st2"
    using sleep_frame [OF S] by (simp_all add: write_frame_def)
  show ?case
  proof (cases res)
    case (Inl err)
    consider "left = 0" | "left \<noteq> 0" "woken = None" | e where "left \<noteq> 0" "woken = Some e" by (cases woken) auto
    then show ?thesis
    proof cases
      case 2
      then have "write_attempts E c meta rs (backoff_next delay (30 * second)) left err st2 = (r, st')"
        using Suc.prems W Inl S by (simp add: Let_def)
      from Suc.IH [OF this] frame(2) show ?thesis by (rule write_frame_trans [rotated])
    qed (use Suc.prems W Inl S frame in \<open>auto simp: write_frame_def Let_def\<close>)
  qed (use Suc.prems W frame in auto)
qed

lemma write_groups_frame: "write_groups E opts c org part buf order st = (r, st') \<Longrightarrow> write_frame r st st'"
proof (induction order arbitrary: st)
  case (Cons ty order)
  obtain r1 st1 where W: "writeWithRetry E opts c (batch_meta opts org part ty (group buf ty)) (group buf ty) st = (r1, st1)"
    by fastforce
  then have frame: "write_frame r1 st st1" unfolding writeWithRetry_def by (rule write_attempts_frame)
  show ?case
  proof (cases r1)
    case None
    then have "write_groups E opts c org part buf order st1 = (r, st')" using Cons.prems W by (simp add: Let_def)
    from write_frame_trans [OF frame [unfolded None] Cons.IH [OF this]] show ?thesis .
  qed (use Cons.prems W frame in \<open>auto simp: Let_def\<close>)
qed (simp add: write_frame_refl)

lemma flushNow_outcome:
  assumes "flushNow E opts c st = (r, st')"
  shows "case r of
      None \<Rightarrow> su_buffer st' = [] \<and> su_flushAt st' = su_flushAt st
        \<and> su_committed st' = (if su_buffer st = [] then su_committed st
            else Some (rec_ReplayId (last (su_buffer st))))
    | Some err \<Rightarrow> IsFatal err \<and> su_buffer st' = su_buffer st \<and> su_committed st' = su_committed st"
proof (cases "su_buffer st = []")
  case True
  then show ?thesis using assms by (auto simp: flushNow_def flush_def)
next
  case False
  let ?c = "flushContext opts c (su_now st)" and ?org = "if so_OrgId opts = [] then su_OrgId st else so_OrgId opts"
  obtain r1 st1 where W:
    "write_groups E opts ?c ?org (su_now st) (su_buffer st) (group_order (su_buffer st)) st = (r1, st1)" by fastforce
  note frame = write_groups_frame [OF W]
  obtain r2 st2 where M: "commit E opts ?c (rec_ReplayId (last (su_buffer st))) st1 = (r2, st2)" by fastforce
  note fin = commit_loop_outcome [OF M [unfolded commit_def]]
  show ?thesis
  proof (cases r1)
    case None
    with assms False W M have "(case r2 of Some err \<Rightarrow> (Some err, st2) | None \<Rightarrow> (None, st2\<lparr>su_buffer := []\<rparr>)) = (r, st')"
      by (simp add: flushNow_def flush_def Let_def)
    then show ?thesis using frame fin False by (cases r2) (auto simp: write_frame_def commit_outcome_def)
  next
    case (Some err)
    then show ?thesis using assms False W frame by (auto simp: flushNow_def flush_def Let_def write_frame_def)
  qed
qed


section \<open>What a waiting session holds\<close>

text \<open>
  The batch is below its limit, and when it is not empty the flush timer is armed for \<open>MaxAge\<close> after
  its first event.
\<close>

definition armed :: "SubscriberOptions \<Rightarrow> ('s, 'l) sub \<Rightarrow> bool" where
  "armed opts st \<longleftrightarrow> int (length (su_buffer st)) < max 1 (so_MaxEvents opts)
     \<and> (su_buffer st \<noteq> [] \<longrightarrow> su_flushAt st = Some (su_bufferStart st + so_MaxAge opts))"

definition armed_step :: "SubscriberOptions \<Rightarrow> ('s, 'l) sub step \<Rightarrow> bool" where
  "armed_step opts r \<longleftrightarrow> (\<forall>st'. r = Cont st' \<longrightarrow> armed opts st')"

lemma armed_empty: "su_buffer st = [] \<Longrightarrow> armed opts st"
  by (simp add: armed_def)

lemma armed_same:
  "armed opts st \<Longrightarrow> su_buffer st' = su_buffer st \<Longrightarrow> su_flushAt st' = su_flushAt st
     \<Longrightarrow> su_bufferStart st' = su_bufferStart st \<Longrightarrow> armed opts st'"
  by (simp add: armed_def)

lemma armed_Ret [simp]: "armed_step opts (Ret r st)"
  by (simp add: armed_step_def)

lemma armed_Cont [simp]: "armed_step opts (Cont st) \<longleftrightarrow> armed opts st"
  by (simp add: armed_step_def)

lemma armed_bind: "armed_step opts r \<Longrightarrow> (\<And>st. armed opts st \<Longrightarrow> armed_step opts (f st)) \<Longrightarrow> armed_step opts (bind_step r f)"
  by (cases r) simp_all

lemma armed_flush:
  "flushNow E opts c st = (None, st') \<Longrightarrow> armed opts st'"
  using flushNow_outcome by (intro armed_empty) fastforce

lemma armed_events: "armed opts st \<Longrightarrow> armed_step opts (handle_events E opts c evs st)"
proof (induction evs arbitrary: st)
  case (Cons ev evs)
  let ?st = "tick E st"
  have st: "armed opts ?st" by (rule armed_same [OF Cons.prems]) simp_all
  show ?case
  proof (cases "decode E ev ?st")
    case (Inr rec)
    let ?st1 = "if su_buffer ?st = [] then ?st\<lparr>su_bufferStart := su_now ?st, su_flushAt := Some (su_now ?st + so_MaxAge opts)\<rparr>
        else ?st"
    let ?st2 = "?st1\<lparr>su_buffer := su_buffer ?st1 @ [rec], su_pending := su_pending ?st1 - 1\<rparr>"
    show ?thesis
    proof (cases "so_MaxEvents opts \<le> int (length (su_buffer ?st2))")
      case True
      obtain r st3 where F: "flushNow E opts c (?st2\<lparr>su_flushAt := None\<rparr>) = (r, st3)" by fastforce
      have "armed_step opts (handle_events E opts c evs st3)" if "r = None"
        using Cons.IH armed_flush F that by blast
      then show ?thesis using True F Inr by (cases r) (simp_all add: Let_def)
    next
      case False
      then have "armed opts ?st2" using st by (auto simp: armed_def)
      then show ?thesis using Cons.IH False Inr by (simp add: Let_def)
    qed
  qed (simp add: Let_def)
qed simp

lemma armed_handle:
  assumes "armed opts st"
  shows "armed_step opts (handle E opts c sc ev st)"
proof (cases ev)
  case FlushTimer
  obtain r st' where F: "flushNow E opts c (st\<lparr>su_flushAt := None\<rparr>) = (r, st')" by fastforce
  then show ?thesis using FlushTimer armed_flush by (cases r) (simp_all add: handle_def)
next
  case (Recv resp)
  let ?st2 = "let st1 = st\<lparr>su_idleAt := su_now st + streamIdleTimeout\<rparr> in
    if \<not> su_sessionHealthy st1 then st1\<lparr>su_sessionHealthy := True, su_authFailures := 0, su_active := True\<rparr> else st1"
  have "armed opts ?st2" using assms by (simp add: armed_def Let_def)
  moreover have "armed_step opts (pin_position E opts c x)" if "armed opts x" for x
    using that armed_flush by (auto simp: pin_position_def split: prod.splits option.splits)
  moreover have "armed_step opts (keepalive E opts c resp x)" if "armed opts x" for x
  proof (cases "fr_Events resp = [] \<and> su_buffer x = [] \<and> 0 < fr_PendingNumRequested resp \<and> fr_LatestReplayId resp \<noteq> []")
    case True
    obtain r y where M: "commit E opts c (fr_LatestReplayId resp) x = (r, y)" by fastforce
    then have "armed opts y"
      using commit_loop_outcome [OF M [unfolded commit_def]] True by (intro armed_empty) (simp add: commit_outcome_def)
    then show ?thesis using True M by (cases r) (simp_all add: keepalive_def)
  qed (use that in \<open>auto simp: keepalive_def\<close>)
  moreover have "armed_step opts (request_more E opts sc x)" if "armed opts x" for x
    using that by (auto simp: request_more_def Let_def armed_def split: option.splits)
  ultimately show ?thesis
    unfolding Recv handle_def handle_response_def Let_def session_event.case by (intro armed_bind armed_events) auto
qed (auto simp: handle_def split: prod.splits)

text \<open>
  C20: no event waits without a limit. Whenever a session waits for its next message, the batch holds
  less than \<^verbatim>\<open>MaxEvents\<close> events, and if it holds any, the flush timer is armed for \<^verbatim>\<open>MaxAge\<close> after the
  first of them; when the timer fires, the batch is committed or the session ends with a fatal error.
\<close>

theorem batches_bounded:
  assumes "session_loop E opts c sc evs st = Cont st'" and "su_buffer st = []"
  shows "int (length (su_buffer st')) < max 1 (so_MaxEvents opts)
    \<and> (su_buffer st' \<noteq> [] \<longrightarrow> su_flushAt st' = Some (su_bufferStart st' + so_MaxAge opts))
    \<and> (case handle E opts c sc FlushTimer st' of
         Cont st'' \<Rightarrow> su_buffer st'' = []
           \<and> (su_buffer st' \<noteq> [] \<longrightarrow> su_committed st'' = Some (rec_ReplayId (last (su_buffer st'))))
       | Ret r st'' \<Rightarrow> IsFatal_opt r)"
proof -
  have loop: "armed opts x \<Longrightarrow> armed_step opts (session_loop E opts c sc evs x)" for x
  proof (induction evs arbitrary: x)
    case (Cons tev evs)
    obtain t ev where "tev = (t, ev)" by fastforce
    have y: "armed opts (x\<lparr>su_now := max (su_now x) t\<rparr>)" using Cons.prems by (simp add: armed_def)
    show ?case
      unfolding \<open>tev = (t, ev)\<close> session_loop.simps Let_def
      using armed_bind [OF armed_handle [OF y] Cons.IH] Cons.IH [OF y] by simp
  qed simp
  have "armed opts st'"
    using loop [OF armed_empty [OF assms(2)]] assms(1) by simp
  obtain r st'' where F: "flushNow E opts c (st'\<lparr>su_flushAt := None\<rparr>) = (r, st'')" by fastforce
  have "case handle E opts c sc FlushTimer st' of
         Cont st'' \<Rightarrow> su_buffer st'' = []
           \<and> (su_buffer st' \<noteq> [] \<longrightarrow> su_committed st'' = Some (rec_ReplayId (last (su_buffer st'))))
       | Ret r st'' \<Rightarrow> IsFatal_opt r"
    using flushNow_outcome [OF F] F by (cases r) (simp_all add: handle_def IsFatal_opt_def)
  with \<open>armed opts st'\<close> show ?thesis by (simp add: armed_def)
qed

section \<open>What \<^verbatim>\<open>Run\<close> returns\<close>

definition ends_well :: "ctx \<Rightarrow> ('s, 'l) sub step \<Rightarrow> bool" where
  "ends_well c r \<longleftrightarrow> (case r of Cont st \<Rightarrow> True | Ret err st \<Rightarrow> err = None \<and> ctx_done c (su_now st) \<or> IsFatal_opt err)"

lemma run_loop_ends_well: "ends_well c (run_loop E opts c n backoff st)"
proof (induction n arbitrary: backoff st)
  case (Suc n)
  show ?case
  proof (cases "session E opts c st")
    case (Ret err st0)
    let ?st1 = "if su_sessionHealthy st0 then st0\<lparr>su_active := False\<rparr> else st0"
    let ?b = "if su_sessionHealthy st0 \<and> \<not> (case err of None \<Rightarrow> False | Some e \<Rightarrow> isSchemaError e)
      then so_RetryDelay opts else backoff"
    obtain r st2 where S: "sleep c (jitter ?b (env_rand E (su_ticks ?st1))) ?st1 = (r, st2)" by fastforce
    have "ends_well c (Ret None st2)" if "r \<noteq> None"
      using S that sleep_cancelled by (auto simp: ends_well_def)
    then show ?thesis using Ret S Suc by (cases r) (simp_all add: ends_well_def Let_def)
  qed (simp add: ends_well_def)
qed (simp add: ends_well_def)

lemma Run_ends_well: "ends_well c (Run E opts c n st)"
proof -
  let ?release = "\<lambda>r. case r of Cont st' \<Rightarrow> Cont st' | Ret e st' \<Rightarrow>
    Ret e (st'\<lparr>su_lease := snd (env_Release E (Some (su_now st' + 5 * second)) (su_now st') (su_lease st'))\<rparr>)"
  have release: "ends_well c r \<Longrightarrow> ends_well c (?release r)" for r
    by (cases r) (simp_all add: ends_well_def)
  have fatal_end: "ends_well c (Ret (Some (fatal e)) x)" for e and x :: "('a, 'b) sub"
    by (simp add: ends_well_def IsFatal_opt_def)
  have stop: "ends_well c (if ctx_done c (su_now x) then Ret None (x\<lparr>su_lease := l\<rparr>) else Ret (Some (fatal e)) y)"
    for x y :: "('a, 'b) sub" and e l
    using fatal_end by (simp add: ends_well_def)
  show ?thesis
    unfolding Run_def Let_def
    using release [OF run_loop_ends_well] release [OF stop] release [OF fatal_end] fatal_end
    by (auto simp: ends_well_def IsFatal_opt_def split: option.splits prod.splits sum.splits)
qed

text \<open>
  C22: the collector of a topic never stops silently: \<^verbatim>\<open>Run\<close> returns nil only when it was told to stop,
  and everything else that makes it return is a fatal error.
\<close>

theorem Run_never_stops_silently:
  "case Run E opts c n st of
     Cont st' \<Rightarrow> True
   | Ret r st' \<Rightarrow> (r = None \<and> ctx_done c (su_now st')) \<or> (\<exists>err. r = Some err \<and> IsFatal err)"
  using Run_ends_well [of c E opts n st]
  by (auto simp: ends_well_def IsFatal_opt_def split: step.splits option.splits)

text \<open>A run that has ended is the same with more sessions to spend.\<close>

lemma run_loop_more:
  "run_loop E opts c n backoff st = Ret r st' \<Longrightarrow> n \<le> m \<Longrightarrow> run_loop E opts c m backoff st = Ret r st'"
proof (induction n arbitrary: m backoff st)
  case (Suc n)
  then obtain k where m: "m = Suc k" "n \<le> k" by (cases m) auto
  have step: "run_loop E opts c k b s = Ret r st'" if "run_loop E opts c n b s = Ret r st'" for b s
    using Suc.IH [OF that m(2)] .
  show ?case
  proof (cases "session E opts c st")
    case (Ret err st0)
    define st1 where "st1 = (if su_sessionHealthy st0 then st0\<lparr>su_active := False\<rparr> else st0)"
    define p where "p = (su_sessionHealthy st0 \<and> \<not> (case err of None \<Rightarrow> False | Some e \<Rightarrow> isSchemaError e))"
    define b where "b = (if p then so_RetryDelay opts else backoff)"
    define b' where "b' = (if p then b else backoff_next b (so_MaxBackoff opts))"
    obtain o' st2 where S: "sleep c (jitter b (env_rand E (su_ticks st1))) st1 = (o', st2)" by fastforce
    have L: "run_loop E opts c (Suc j) backoff st =
        (if ctx_done c (su_now st1) then Ret (if IsFatal_opt err then err else None) st1
         else if IsFatal_opt err then Ret err st1
         else case o' of Some e \<Rightarrow> Ret None st2 | None \<Rightarrow> run_loop E opts c j b' st2)" for j
      using S by (simp only: run_loop.simps Ret step.case Let_def st1_def [symmetric] p_def [symmetric] b_def [symmetric]
          b'_def [symmetric] prod.case)
    show ?thesis using Suc.prems(1) step unfolding m(1) L by (auto split: if_splits option.splits)
  qed (use Suc.prems(1) in simp)
qed simp

lemma Run_more:
  assumes "Run E opts c n st = Ret r st'" "n \<le> m"
  shows "Run E opts c m st = Ret r st'"
proof -
  have "run_loop E opts c m b s = run_loop E opts c n b s" if "\<nexists>s'. run_loop E opts c n b s = Cont s'" for b s
  proof (cases "run_loop E opts c n b s")
    case (Ret r1 s1)
    then show ?thesis using run_loop_more [OF Ret assms(2)] by simp
  qed (use that in blast)
  then show ?thesis using assms(1) unfolding Run_def
    by (auto simp: Let_def split: if_splits option.splits sum.splits prod.splits step.split_asm)
qed

section \<open>Logins\<close>

text \<open>A session that cannot log in counts the failure; the fifth is fatal.\<close>

lemma session_login_fails:
  assumes "su_OrgId st = []" "env_Authenticate E (su_auths st) = Inl e"
  obtains err st' where "session E opts c st = Ret (Some err) st'" "su_OrgId st' = []"
    "su_auths st' = su_auths st + 1" "su_authFailures st' = su_authFailures st + 1" "su_streams st' = su_streams st"
    "IsFatal err \<longleftrightarrow> maxAuthFailures \<le> su_authFailures st + 1 \<or> IsFatal e"
proof -
  have "\<exists>err st'. session E opts c st = Ret (Some err) st' \<and> su_OrgId st' = [] \<and> su_auths st' = su_auths st + 1
    \<and> su_authFailures st' = su_authFailures st + 1 \<and> su_streams st' = su_streams st
    \<and> (IsFatal err \<longleftrightarrow> maxAuthFailures \<le> su_authFailures st + 1 \<or> IsFatal e)"
    using assms by (simp add: session_def Authenticate_def authFailed_def Let_def tick_def)
      (simp add: IsFatal_def fatal_def chain_simps)
  with that show thesis by blast
qed

lemma run_loop_login_fails:
  assumes "\<And>i. \<exists>e. env_Authenticate E i = Inl e \<and> \<not> IsFatal e"
  shows "su_OrgId st = [] \<Longrightarrow> su_authFailures st = int k \<Longrightarrow> k < 5 \<Longrightarrow> 5 - k \<le> n
    \<Longrightarrow> \<exists>err st'. run_loop E opts None n backoff st = Ret (Some err) st' \<and> IsFatal err
      \<and> su_auths st' = su_auths st + (5 - k) \<and> su_streams st' = su_streams st"
proof (induction n arbitrary: backoff st k)
  case (Suc n)
  obtain e where e: "env_Authenticate E (su_auths st) = Inl e" "\<not> IsFatal e" using assms by blast
  obtain err st1 where S: "session E opts None st = Ret (Some err) st1"
    and st1': "su_OrgId st1 = []" "su_auths st1 = su_auths st + 1" "su_authFailures st1 = su_authFailures st + 1"
      "su_streams st1 = su_streams st"
    and f': "IsFatal err \<longleftrightarrow> maxAuthFailures \<le> su_authFailures st + 1 \<or> IsFatal e"
    by (rule session_login_fails [OF Suc.prems(1) e(1)])
  have st1: "su_OrgId st1 = []" "su_auths st1 = su_auths st + 1" "su_authFailures st1 = int (k + 1)"
      "su_streams st1 = su_streams st"
    and f: "IsFatal err \<longleftrightarrow> 4 \<le> k"
    using st1' f' Suc.prems(2) e(2) by (auto simp: maxAuthFailures_def)
  show ?case
  proof (cases "k = 4")
    case True
    then show ?thesis using S st1 f by (simp add: ctx_done_def IsFatal_opt_def)
  next
    case False
    define st1' where "st1' = (if su_sessionHealthy st1 then st1\<lparr>su_active := False\<rparr> else st1)"
    define b where "b = (if su_sessionHealthy st1 \<and> \<not> isSchemaError err then so_RetryDelay opts else backoff)"
    obtain st2 where Z: "sleep None (jitter b (env_rand E (su_ticks st1'))) st1' = (None, st2)"
      by (simp add: sleep_def Let_def)
    have st2: "su_OrgId st2 = []" "su_auths st2 = su_auths st + 1" "su_authFailures st2 = int (k + 1)"
      "su_streams st2 = su_streams st"
      using sleep_frame [OF Z] Z st1 by (auto simp: st1'_def sleep_def Let_def)
    have "\<exists>b'. run_loop E opts None (Suc n) backoff st = run_loop E opts None n b' st2"
      using S f False Suc.prems(3) Z by (simp add: Let_def ctx_done_def IsFatal_opt_def st1'_def b_def) blast
    then obtain b' where b': "run_loop E opts None (Suc n) backoff st = run_loop E opts None n b' st2" by blast
    have "k + 1 < 5" "5 - (k + 1) \<le> n" "su_auths st2 + (5 - (k + 1)) = su_auths st + (5 - k)"
      using False Suc.prems(3,4) st2(2) by auto
    then show ?thesis
      using Suc.IH [OF st2(1,3), of b'] st2(4) unfolding b' by simp
  qed
qed simp

text \<open>
  C24: a collector whose logins all fail stops after exactly five of them, without having opened a
  subscription: it neither gives up earlier nor keeps hammering the login endpoint.
\<close>

theorem logins_given_up:
  assumes "\<And>i. \<exists>e. env_Authenticate E i = Inl e \<and> \<not> IsFatal e"
    and "env_Acquire E None now lease = Some (None, t, lease1)"
    and "env_Load E None (max now t) lease1 = (Inr p, lease2)"
    and "so_InitialReplay opts \<in> {ReplayEarliest, ReplayLatest}" and "5 \<le> n"
  shows "\<exists>err st'. Run E opts None n (NewSubscriber sink lease now) = Ret (Some err) st' \<and> IsFatal err
    \<and> su_auths st' = 5 \<and> su_streams st' = 0"
proof -
  define st1 where "st1 = (NewSubscriber sink lease now)\<lparr>su_now := max now t, su_lease := lease2, su_committed := p\<rparr>"
  have st1: "su_OrgId st1 = []" "su_authFailures st1 = int 0" "su_auths st1 = 0" "su_streams st1 = 0"
    by (simp_all add: st1_def NewSubscriber_def)
  obtain err st' where L: "run_loop E opts None n (so_RetryDelay opts) st1 = Ret (Some err) st'" "IsFatal err"
    "su_auths st' = 5" "su_streams st' = 0"
    using run_loop_login_fails [OF assms(1) st1(1,2), of n opts "so_RetryDelay opts"] assms(5) st1(3,4) by auto
  have init: "so_InitialReplay opts \<noteq> []" "so_InitialReplay opts = ReplayEarliest \<or> so_InitialReplay opts = ReplayLatest"
    using assms(4) by (auto simp: ReplayEarliest_def ReplayLatest_def)
  have "st1 = (case p of None \<Rightarrow> (NewSubscriber sink lease now)\<lparr>su_now := max now t, su_lease := lease2\<rparr>
      | Some rid \<Rightarrow> (NewSubscriber sink lease now)\<lparr>su_now := max now t, su_lease := lease2, su_committed := Some rid\<rparr>)"
    by (simp add: st1_def NewSubscriber_def split: option.splits)
  then show ?thesis
    using assms(2,3) init L by (cases p) (auto simp: Run_def Let_def NewSubscriber_def)
qed

section \<open>The renewer\<close>

definition last_success :: "time \<Rightarrow> (time \<times> goerror option) list \<Rightarrow> time" where
  "last_success start ticks = foldl (\<lambda>ok (now, res). if res = None then now else ok) start ticks"

lemma first_or_later:
  "(\<exists>pre now err post. (t, res) # ticks = pre @ (now, Some err) # post \<and> P now err (last_success s pre)) \<longleftrightarrow>
     (\<exists>err. res = Some err \<and> P t err s)
     \<or> (\<exists>pre now err post. ticks = pre @ (now, Some err) # post
          \<and> P now err (last_success (if res = None then t else s) pre))"
  (is "?all \<longleftrightarrow> ?first \<or> ?later")
proof
  assume ?all
  then obtain pre now err post where split: "(t, res) # ticks = pre @ (now, Some err) # post"
    and P: "P now err (last_success s pre)" by blast
  show "?first \<or> ?later"
  proof (cases pre)
    case Nil
    then show ?thesis using split P by (simp add: last_success_def)
  next
    case (Cons a pre')
    then have "ticks = pre' @ (now, Some err) # post" "P now err (last_success (if res = None then t else s) pre')"
      using split P by (auto simp: last_success_def)
    then show ?thesis by blast
  qed
next
  assume "?first \<or> ?later"
  then show ?all
  proof
    assume ?first
    then obtain err where "res = Some err" "P t err s" by blast
    then have "(t, res) # ticks = [] @ (t, Some err) # ticks \<and> P t err (last_success s [])"
      by (simp add: last_success_def)
    then show ?all by blast
  next
    assume ?later
    then obtain pre now err post where "ticks = pre @ (now, Some err) # post"
      "P now err (last_success (if res = None then t else s) pre)" by blast
    then have "(t, res) # ticks = ((t, res) # pre) @ (now, Some err) # post
        \<and> P now err (last_success s ((t, res) # pre))" by (simp add: last_success_def)
    then show ?all by blast
  qed
qed


section \<open>Concrete failures\<close>

text \<open>A Redis that refuses every commit, a login that is always refused.\<close>

definition wit_refusing :: "(nat, redis_view) env" where
  "wit_refusing = (wit_env (\<lambda>c now meta ls s. (Inl EOF, s)))
     \<lparr>env_Commit := (\<lambda>c now rid l. (Some ErrLeaseLost, l)), env_Authenticate := (\<lambda>i. Inl EOF)\<rparr>"

lemma commit_within_budget_witness:
  "\<exists>err st'. commit wit_refusing wit_opts None ''r'' (NewSubscriber 0 wit_view 0) = (Some err, st')
     \<and> IsFatal err \<and> errors_is err ErrLeaseLost \<and> su_committed st' = None \<and> su_now st' \<le> 25 * second + 1"
proof -
  have "\<exists>err st'. commit wit_refusing wit_opts None ''r'' (NewSubscriber 0 wit_view 0) = (Some err, st')
      \<and> errors_is err ErrLeaseLost"
    unfolding commit_def by (subst commit_loop.simps) (simp add: wit_refusing_def fatal_def chain_simps)
  then obtain err st' where C: "commit wit_refusing wit_opts None ''r'' (NewSubscriber 0 wit_view 0) = (Some err, st')"
    and lost: "errors_is err ErrLeaseLost" by blast
  have "\<And>k. env_latency wit_refusing k \<le> 1" by (simp add: wit_refusing_def wit_env_def service_env_def)
  from commit_within_budget [OF C this] C lost show ?thesis
    by (auto simp: NewSubscriber_def commitBudget_def wit_opts_def second_def Let_def)
qed


lemma batches_bounded_witness:
  "case handle (wit_env (\<lambda>c now meta ls s. (Inl EOF, s))) wit_opts None
      \<lparr>sc_Send0 = None, sc_Send = (\<lambda>n. None), sc_events = []\<rparr> FlushTimer (NewSubscriber (0 :: nat) wit_view 0) of
     Cont st \<Rightarrow> su_buffer st = [] | Ret r st \<Rightarrow> IsFatal_opt r"
proof -
  have "session_loop (wit_env (\<lambda>c now meta ls s. (Inl EOF, s))) wit_opts None
      \<lparr>sc_Send0 = None, sc_Send = (\<lambda>n. None), sc_events = []\<rparr> [] (NewSubscriber (0 :: nat) wit_view 0)
    = Cont (NewSubscriber 0 wit_view 0)" "su_buffer (NewSubscriber (0 :: nat) wit_view 0) = []"
    by (simp_all add: NewSubscriber_def)
  from batches_bounded [OF this] show ?thesis by (auto split: step.splits)
qed

lemma logins_given_up_witness:
  "\<exists>err st'. Run wit_refusing wit_opts None 5 (NewSubscriber 0 wit_view 0) = Ret (Some err) st' \<and> IsFatal err
     \<and> su_auths st' = 5 \<and> su_streams st' = 0"
proof -
  let ?E = "wit_env (\<lambda>c now meta ls s. (Inl EOF, s)) :: (nat, redis_view) env"
  have 1: "\<And>i. \<exists>e. env_Authenticate wit_refusing i = Inl e \<and> \<not> IsFatal e"
    by (simp add: wit_refusing_def EOF_def IsFatal_def chain_simps)
  have 2: "env_Acquire wit_refusing = env_Acquire ?E" "env_Load wit_refusing = rv_Load"
    by (simp_all add: wit_refusing_def wit_env_def service_env_def)
  note acq = wit_acquire [where 'a = nat and w = "\<lambda>c now meta ls s. (Inl EOF, s)", folded 2]
  have 3: "so_InitialReplay wit_opts \<in> {ReplayEarliest, ReplayLatest}" by (simp add: wit_opts_def)
  show ?thesis
    using logins_given_up [OF 1 acq wit_load [of "max 0 1", folded 2] 3 order_refl] by blast
qed

end
