(* ===== verification/Archive_Properties.thy ===== *)
theory Archive_Properties
  imports Stream_Service
begin

text \<open>
  What the archive keeps whatever happens: the two durable sinks implement one specification, a
  partial map that a write extends by the data object and then by its manifest, and the object keys
  are plain relative paths.
\<close>

section \<open>One specification of the sinks\<close>

text \<open>
  The specification of a write over the stored objects alone: the manifest returned on success
  describes the object stored under its key, the manifest file is stored too; a failure leaves
  nothing, the object alone, or both. Nothing else changes.
\<close>

definition write_spec ::
  "codec \<Rightarrow> string \<Rightarrow> string \<Rightarrow> fill \<Rightarrow> ObjectMeta \<Rightarrow> time \<Rightarrow> (string \<Rightarrow> string option) \<Rightarrow> Manifest result
   \<Rightarrow> (string \<Rightarrow> string option) \<Rightarrow> bool" where
  "write_spec C kd km fill meta now objs r objs' \<longleftrightarrow>
     (\<exists>e mb. let body = object_body C (enc_lines e); m = (finish C e)\<lparr>man_IngestedAt := now, man_ObjectKey := kd\<rparr> in
        (fill (newEncoder meta) = Inr e \<or> fill (newEncoder (meta\<lparr>meta_PartitionTime := now\<rparr>)) = Inr e)
        \<and> (r = Inr m \<and> manEncode C m = Inr mb \<and> objs' = objs(kd \<mapsto> body, km \<mapsto> mb)
           \<or> (\<exists>err. r = Inl err) \<and> objs' = objs(kd \<mapsto> body)
           \<or> (\<exists>err. r = Inl err) \<and> manEncode C m = Inr mb \<and> objs' = objs(kd \<mapsto> body, km \<mapsto> mb)))
     \<or> (\<exists>err. r = Inl err) \<and> objs' = objs"

lemma dtm_write_spec:
  assumes "data_then_manifest C p b now meta fill objs r objs'"
  shows "write_spec C (joinPrefix p (fst (ObjectPaths meta (write_name meta now b))))
    (joinPrefix p (snd (ObjectPaths meta (write_name meta now b)))) fill meta now objs r objs'"
  using assms by (cases rule: data_then_manifest.cases) (auto simp: write_spec_def Let_def)

text \<open>
  C26: both durable sinks refine the specification. Seen as the map of the objects they hold (for the
  local sink: that survive a crash of the machine), a write of either is a step of it, under the keys of
  its own name.
\<close>

theorem sinks_refine_spec:
  "(let n = write_name meta now (ls_rand s (ls_writes s + 1)); (r, s') = LocalSink_Write C c now meta fill s in
      write_spec C (joinPrefix (ls_Prefix s) (fst (ObjectPaths meta n)))
        (joinPrefix (ls_Prefix s) (snd (ObjectPaths meta n))) fill meta now (ls_lookup s) r (ls_lookup s'))
   \<and> (let n = write_name meta now (s3_rand t (s3_writes t + 1)); p = opt_Prefix (s3_opts t);
          (q, t') = S3Sink_Write C c now meta fill t in
      write_spec C (joinPrefix p (fst (ObjectPaths meta n))) (joinPrefix p (snd (ObjectPaths meta n)))
        fill meta now (s3_lookup t) q (s3_lookup t'))"
  using dtm_write_spec [OF LocalSink_Write_two] dtm_write_spec [OF S3Sink_Write_two]
  by (auto simp: Let_def split: prod.splits)

section \<open>Keys are plain relative paths\<close>

text \<open>A path component that no file system or object store reads specially.\<close>

definition plain_component :: "string \<Rightarrow> bool" where
  "plain_component p \<longleftrightarrow> p \<noteq> [] \<and> p \<noteq> ''.'' \<and> p \<noteq> ''..'' \<and> list_all (\<lambda>c. key_char c \<or> c = CHR ''='') p"

lemma plain_append:
  "list_all (\<lambda>c. key_char c \<or> c = CHR ''='') p \<Longrightarrow> list_all (\<lambda>c. key_char c \<or> c = CHR ''='') q
     \<Longrightarrow> 3 \<le> length p + length q \<Longrightarrow> plain_component (p @ q)"
  by (auto simp: plain_component_def dest: arg_cong [of _ _ length])

lemma plain_sanitize:
  assumes "list_all key_char f"
  shows "list_all (\<lambda>c. key_char c \<or> c = CHR ''='') (sanitize s f)"
  using assms sanitize_chars [of f] by (auto simp: list_all_iff)

lemma plain_pad0: "list_all (\<lambda>c. key_char c \<or> c = CHR ''='') (pad0 w i)"
  using pad0_chars digit_key_char by (fastforce simp: list_all_iff)

lemma plain_partition: "list_all plain_component (partition_parts meta)"
proof -
  have part: "plain_component (p @ x)"
    if "list_all (\<lambda>c. key_char c \<or> c = CHR ''='') x" "list_all (\<lambda>c. key_char c \<or> c = CHR ''='') p" "3 \<le> length p" for p x
    by (rule plain_append) (use that in auto)
  have unknown: "list_all (\<lambda>c. key_char c \<or> c = CHR ''='') (sanitize x ''unknown'')" for x
    by (rule plain_sanitize) (simp add: key_char_def)
  note lit = part [of _ "''source=''"] part [of _ "''org_id=''"] part [of _ "''event_type=''"] part [of _ "''year=''"]
    part [of _ "''month=''"] part [of _ "''day=''"] part [of _ "''hour=''"]
  show ?thesis
    using lit [OF unknown] lit [OF plain_pad0] by (simp add: partition_parts_def Let_def key_char_def)
qed

text \<open>
  C27: whatever the organisation, the event type or the name contains, an object key and its manifest's
  key are relative paths of nine plain components, seven of them shared: no component is empty,
  \<^verbatim>\<open>.\<close> or \<^verbatim>\<open>..\<close>, and none holds a separator, so a write cannot leave the archive's directory.
\<close>

theorem object_keys_plain:
  "\<exists>dir file mfile. ObjectPaths meta name = (Join (''raw'' # dir @ [file]) ''/'', Join (''manifests'' # dir @ [mfile]) ''/'')
     \<and> length dir = 7 \<and> list_all plain_component (''raw'' # ''manifests'' # file # mfile # dir)"
proof -
  have object: "list_all (\<lambda>c. key_char c \<or> c = CHR ''='') (sanitize name ''object'')"
    by (rule plain_sanitize) (simp add: key_char_def)
  have tails: "plain_component (sanitize name ''object'' @ ''.json.gz'')"
    "plain_component (sanitize name ''object'' @ ''.manifest.json'')"
    using object by (auto intro!: plain_append simp: key_char_def)
  have "ObjectPaths meta name = (Join (''raw'' # partition_parts meta @ [sanitize name ''object'' @ ''.json.gz'']) ''/'',
      Join (''manifests'' # partition_parts meta @ [sanitize name ''object'' @ ''.manifest.json'']) ''/'')"
    by (rule prod_eqI) (simp_all only: fst_conv snd_conv data_key_join manifest_key_join)
  moreover have "length (partition_parts meta) = 7" by (simp add: partition_parts_def Let_def)
  moreover have "plain_component ''raw''" "plain_component ''manifests''"
    by (simp_all add: plain_component_def key_char_def)
  ultimately show ?thesis
    using tails plain_partition [of meta]
    by (intro exI [of _ "partition_parts meta"] exI [of _ "sanitize name ''object'' @ ''.json.gz''"]
        exI [of _ "sanitize name ''object'' @ ''.manifest.json''"]) simp
qed

end
