(* ===== verification/Cache.thy ===== *)
theory Cache
  imports Checkpoint
begin

text \<open>
  Package \<^verbatim>\<open>internal/cache\<close>: the key-value store of access tokens, watermarks and de-duplication
  markers. The locale \<open>sound_cache\<close> is what the event log collector relies on; it is interpreted on
  the in-process cache (\<^verbatim>\<open>memory.go\<close>), on Redis (\<^verbatim>\<open>redis/redis_cache.go\<close>) and on the prefixed
  Redis cache (\<^verbatim>\<open>cache.go\<close>). Values are strings: every caller stores one, and both caches return
  strings. The instant at which a value expires is \<open>None\<close> for one that never does.
\<close>

section \<open>The contract\<close>

text \<open>The operations a sequence of callers makes.\<close>

datatype cache_op = OpGet string | OpSet string string | OpPersist string string | OpDel string

fun op_key :: "cache_op \<Rightarrow> string" where
  "op_key (OpGet k) = k" | "op_key (OpSet k v) = k" | "op_key (OpPersist k v) = k" | "op_key (OpDel k) = k"

fun run_op ::
  "(time \<Rightarrow> string \<Rightarrow> 'c \<Rightarrow> 'g \<times> 'c) \<Rightarrow> (time \<Rightarrow> string \<Rightarrow> string \<Rightarrow> 'c \<Rightarrow> 'e \<times> 'c)
   \<Rightarrow> (time \<Rightarrow> string \<Rightarrow> string \<Rightarrow> 'c \<Rightarrow> 'e \<times> 'c) \<Rightarrow> (time \<Rightarrow> string \<Rightarrow> 'c \<Rightarrow> 'e \<times> 'c)
   \<Rightarrow> time \<times> cache_op \<Rightarrow> 'c \<Rightarrow> 'c" where
  "run_op get set_val persist del (now, OpGet k) c = snd (get now k c)"
| "run_op get set_val persist del (now, OpSet k v) c = snd (set_val now k v c)"
| "run_op get set_val persist del (now, OpPersist k v) c = snd (persist now k v c)"
| "run_op get set_val persist del (now, OpDel k) c = snd (del now k c)"

definition elsewhere :: "string \<Rightarrow> time \<Rightarrow> time \<times> cache_op \<Rightarrow> bool" where
  "elsewhere k until x \<longleftrightarrow> op_key (snd x) \<noteq> k \<and> fst x \<le> until"

text \<open>\<open>val t c k\<close> is what the store holds under \<open>k\<close> at the instant \<open>t\<close>.\<close>

locale sound_cache =
  fixes get :: "time \<Rightarrow> string \<Rightarrow> 'c \<Rightarrow> string option result \<times> 'c"
    and set_val :: "time \<Rightarrow> string \<Rightarrow> string \<Rightarrow> 'c \<Rightarrow> goerror option \<times> 'c"
    and set_persistent :: "time \<Rightarrow> string \<Rightarrow> string \<Rightarrow> 'c \<Rightarrow> goerror option \<times> 'c"
    and del :: "time \<Rightarrow> string \<Rightarrow> 'c \<Rightarrow> goerror option \<times> 'c"
    and val :: "time \<Rightarrow> 'c \<Rightarrow> string \<Rightarrow> string option"
  assumes get_val: "get now k c = (Inr found, c') \<Longrightarrow> found = val now c k"
    and get_keeps: "get now k c = (res, c') \<Longrightarrow> now \<le> t \<Longrightarrow> val t c' j = val t c j"
    and set_only: "set_val now k v c = (r, c') \<Longrightarrow> now \<le> t \<Longrightarrow>
      val t c' j = val t c j \<or> j = k \<and> (val t c' j = Some v \<or> val t c' j = None)"
    and persist_ok: "set_persistent now k v c = (None, c') \<Longrightarrow> now \<le> t \<Longrightarrow> val t c' k = Some v"
    and persist_only: "set_persistent now k v c = (r, c') \<Longrightarrow> now \<le> t \<Longrightarrow>
      val t c' j = val t c j \<or> j = k \<and> val t c' j = Some v"
    and del_only: "del now k c = (r, c') \<Longrightarrow> now \<le> t \<Longrightarrow>
      val t c' j = val t c j \<or> j = k \<and> val t c' j = None"
    and del_ok: "del now k c = (None, c') \<Longrightarrow> now \<le> t \<Longrightarrow> val t c' k = None"
    and expired: "val t c k = None \<Longrightarrow> t \<le> t' \<Longrightarrow> val t' c k = None"
begin

text \<open>Writing one key never changes what is read under another.\<close>

lemma set_other: "set_val now k v c = (r, c') \<Longrightarrow> now \<le> t \<Longrightarrow> j \<noteq> k \<Longrightarrow> val t c' j = val t c j"
  using set_only by blast

lemma persist_other:
  "set_persistent now k v c = (r, c') \<Longrightarrow> now \<le> t \<Longrightarrow> j \<noteq> k \<Longrightarrow> val t c' j = val t c j"
  using persist_only by blast

lemma del_other: "del now k c = (r, c') \<Longrightarrow> now \<le> t \<Longrightarrow> j \<noteq> k \<Longrightarrow> val t c' j = val t c j"
  using del_only by blast

lemma run_op_other:
  "elsewhere k t x \<Longrightarrow> val t (run_op get set_val set_persistent del x c) k = val t c k"
proof (cases x)
  case (Pair now op)
  then show "elsewhere k t x \<Longrightarrow> ?thesis"
    by (cases op) (auto simp: elsewhere_def intro: get_keeps [OF prod.collapse [symmetric]]
        set_other [OF prod.collapse [symmetric]] persist_other [OF prod.collapse [symmetric]]
        del_other [OF prod.collapse [symmetric]])
qed

lemma run_ops_other:
  "\<forall>x \<in> set ops. elsewhere k t x \<Longrightarrow>
     val t (fold (run_op get set_val set_persistent del) ops c) k = val t c k"
  by (induction ops arbitrary: c) (auto simp: run_op_other)

end

section \<open>The in-process cache\<close>

definition DefaultExpireDays :: int where "DefaultExpireDays = 7"

record MemoryCache =
  mc_vals :: "string \<rightharpoonup> string \<times> time option"
  mc_lastGC :: time
  mc_TTL :: duration
  mc_Err :: "goerror option"

definition NewMemoryCache :: MemoryCache where
  "NewMemoryCache = \<lparr>mc_vals = Map.empty, mc_lastGC = zero_time, mc_TTL = DefaultExpireDays * 24 * hour,
     mc_Err = None\<rparr>"

definition is_expired :: "time \<Rightarrow> time option \<Rightarrow> bool" where
  "is_expired now e = (case e of None \<Rightarrow> False | Some t \<Rightarrow> t \<le> now)"

definition GetCacheVal :: "time \<Rightarrow> string \<Rightarrow> MemoryCache \<Rightarrow> string option result \<times> MemoryCache" where
  "GetCacheVal now k c =
     (case mc_Err c of
        Some err \<Rightarrow> (Inl err, c)
      | None \<Rightarrow>
          (case mc_vals c k of
             None \<Rightarrow> (Inr None, c)
           | Some (v, e) \<Rightarrow>
               if is_expired now e then (Inr None, c\<lparr>mc_vals := (mc_vals c)(k := None)\<rparr>)
               else (Inr (Some v), c)))"

definition sweep :: "time \<Rightarrow> MemoryCache \<Rightarrow> MemoryCache" where
  "sweep now c =
     (if minute \<le> now - mc_lastGC c
      then c\<lparr>mc_lastGC := now,
             mc_vals := (\<lambda>k. case mc_vals c k of
                              None \<Rightarrow> None
                            | Some (v, e) \<Rightarrow> if is_expired now e then None else Some (v, e))\<rparr>
      else c)"

definition memory_set ::
  "time \<Rightarrow> string \<Rightarrow> string \<Rightarrow> duration \<Rightarrow> MemoryCache \<Rightarrow> goerror option \<times> MemoryCache" where
  "memory_set now k v ttl c =
     (case mc_Err c of
        Some err \<Rightarrow> (Some err, c)
      | None \<Rightarrow>
          (None, sweep now (c\<lparr>mc_vals := (mc_vals c)(k \<mapsto> (v, if 0 < ttl then Some (now + ttl) else None))\<rparr>)))"

definition SetCacheVal :: "time \<Rightarrow> string \<Rightarrow> string \<Rightarrow> MemoryCache \<Rightarrow> goerror option \<times> MemoryCache" where
  "SetCacheVal now k v c = memory_set now k v (mc_TTL c) c"

definition SetPersistentVal :: "time \<Rightarrow> string \<Rightarrow> string \<Rightarrow> MemoryCache \<Rightarrow> goerror option \<times> MemoryCache" where
  "SetPersistentVal now k v c = memory_set now k v 0 c"

definition DelCacheVal :: "time \<Rightarrow> string \<Rightarrow> MemoryCache \<Rightarrow> goerror option \<times> MemoryCache" where
  "DelCacheVal now k c =
     (case mc_Err c of
        Some err \<Rightarrow> (Some err, c)
      | None \<Rightarrow> (None, c\<lparr>mc_vals := (mc_vals c)(k := None)\<rparr>))"

definition ClearCache :: "MemoryCache \<Rightarrow> MemoryCache" where
  "ClearCache c = c\<lparr>mc_vals := Map.empty\<rparr>"

definition CacheLen :: "MemoryCache \<Rightarrow> nat" where "CacheLen c = card (dom (mc_vals c))"

definition mc_val :: "time \<Rightarrow> MemoryCache \<Rightarrow> string \<Rightarrow> string option" where
  "mc_val t c k = (case mc_vals c k of None \<Rightarrow> None | Some (v, e) \<Rightarrow> if is_expired t e then None else Some v)"

lemma is_expired_mono: "is_expired now e \<Longrightarrow> now \<le> t \<Longrightarrow> is_expired t e"
  by (auto simp: is_expired_def split: option.splits)

lemma sweep_val: "now \<le> t \<Longrightarrow> mc_val t (sweep now c) k = mc_val t c k"
  by (auto simp: sweep_def mc_val_def is_expired_mono split: option.splits)

lemma memory_set_val:
  "memory_set now k v ttl c = (None, c') \<Longrightarrow> now \<le> t \<Longrightarrow>
     mc_val t c' j = (if j = k then if 0 < ttl \<and> now + ttl \<le> t then None else Some v else mc_val t c j)"
  by (auto simp: memory_set_def sweep_val split: option.splits) (auto simp: mc_val_def is_expired_def)

lemma memory_set_err: "memory_set now k v ttl c = (Some err, c') \<Longrightarrow> c' = c"
  by (simp add: memory_set_def split: option.splits)

lemmas memory_cache_defs = GetCacheVal_def DelCacheVal_def mc_val_def

interpretation memory: sound_cache GetCacheVal SetCacheVal SetPersistentVal DelCacheVal mc_val
proof
  fix now k c v c' t j r
  show "GetCacheVal now k c = (Inr v, c') \<Longrightarrow> v = mc_val now c k"
    by (auto simp: memory_cache_defs split: option.splits if_splits)
  show "GetCacheVal now k c = (r, c') \<Longrightarrow> now \<le> t \<Longrightarrow> mc_val t c' j = mc_val t c j"
    by (auto simp: memory_cache_defs is_expired_mono split: option.splits if_splits)
next
  fix now k v c r c' t j
  assume "SetCacheVal now k v c = (r, c')" "now \<le> t"
  then show "mc_val t c' j = mc_val t c j \<or> j = k \<and> (mc_val t c' j = Some v \<or> mc_val t c' j = None)"
    unfolding SetCacheVal_def by (cases r) (auto simp: memory_set_val dest: memory_set_err)
next
  fix now k v c c' t
  assume "SetPersistentVal now k v c = (None, c')" "now \<le> t"
  then show "mc_val t c' k = Some v"
    unfolding SetPersistentVal_def by (simp add: memory_set_val)
next
  fix now k v c r c' t j
  assume "SetPersistentVal now k v c = (r, c')" "now \<le> t"
  then show "mc_val t c' j = mc_val t c j \<or> j = k \<and> mc_val t c' j = Some v"
    unfolding SetPersistentVal_def by (cases r) (auto simp: memory_set_val dest: memory_set_err)
next
  fix now k c r c' t j
  show "DelCacheVal now k c = (r, c') \<Longrightarrow> now \<le> t \<Longrightarrow> mc_val t c' j = mc_val t c j \<or> j = k \<and> mc_val t c' j = None"
    "DelCacheVal now k c = (None, c') \<Longrightarrow> now \<le> t \<Longrightarrow> mc_val t c' k = None"
    by (auto simp: memory_cache_defs split: option.splits if_split_asm)
next
  fix t c k t'
  show "mc_val t c k = None \<Longrightarrow> t \<le> t' \<Longrightarrow> mc_val t' c k = None"
    by (auto simp: mc_val_def is_expired_mono split: option.splits if_splits)
qed

lemma GetCacheVal_total: "mc_Err c = None \<Longrightarrow> \<exists>r c2. GetCacheVal now k c = (Inr r, c2)"
  by (auto simp: GetCacheVal_def split: option.splits)

section \<open>The Redis cache\<close>

record RedisCache =
  rc_ExpireDays :: int
  rc_net :: "nat \<Rightarrow> net"
  rc_calls :: nat
  rc_redis :: redis

definition rc_call :: "(redis \<Rightarrow> 'a \<times> redis) \<Rightarrow> RedisCache \<Rightarrow> 'a result \<times> RedisCache" where
  "rc_call f c =
     (case redis_call (rc_net c (rc_calls c)) f (rc_redis c) of
        (x, r) \<Rightarrow> (x, c\<lparr>rc_calls := rc_calls c + 1, rc_redis := r\<rparr>))"

definition rc_get :: "time \<Rightarrow> string \<Rightarrow> RedisCache \<Rightarrow> string option result \<times> RedisCache" where
  "rc_get now k = rc_call (\<lambda>r. (redis_GET now k r, r))"

definition err_of :: "'a result \<times> 'c \<Rightarrow> goerror option \<times> 'c" where
  "err_of res = (case res of (Inl err, c) \<Rightarrow> (Some err, c) | (Inr _, c) \<Rightarrow> (None, c))"

text \<open>\<^verbatim>\<open>SET\<close> with an expiry, or without one when the TTL is zero.\<close>

definition rc_set :: "time \<Rightarrow> string \<Rightarrow> string \<Rightarrow> duration \<Rightarrow> RedisCache \<Rightarrow> goerror option \<times> RedisCache" where
  "rc_set now k v ttl c =
     err_of (rc_call (\<lambda>r. ((), r(k \<mapsto> (v, if 0 < ttl then Some (now + ttl) else None)))) c)"

definition rc_SetCacheVal :: "time \<Rightarrow> string \<Rightarrow> string \<Rightarrow> RedisCache \<Rightarrow> goerror option \<times> RedisCache" where
  "rc_SetCacheVal now k v c =
     (let days = (if rc_ExpireDays c \<le> 0 then DefaultExpireDays else rc_ExpireDays c)
      in rc_set now k v (days * 24 * hour) c)"

definition rc_SetPersistentVal :: "time \<Rightarrow> string \<Rightarrow> string \<Rightarrow> RedisCache \<Rightarrow> goerror option \<times> RedisCache" where
  "rc_SetPersistentVal now k v c = rc_set now k v 0 c"

definition rc_del :: "time \<Rightarrow> string \<Rightarrow> RedisCache \<Rightarrow> goerror option \<times> RedisCache" where
  "rc_del now k c = err_of (rc_call (redis_DEL now k) c)"

definition rc_val :: "time \<Rightarrow> RedisCache \<Rightarrow> string \<Rightarrow> string option" where
  "rc_val t c k = redis_GET t k (rc_redis c)"

lemmas rc_defs = rc_get_def rc_set_def rc_SetCacheVal_def rc_SetPersistentVal_def rc_del_def rc_call_def
  err_of_def rc_val_def redis_call_def redis_DEL_def Let_def

lemma redis_GET_set: "redis_GET t j (r(k \<mapsto> (v, e)))
    = (if j = k then if is_expired t e then None else Some v else redis_GET t j r)"
  by (auto simp: redis_GET_def is_expired_def split: option.splits)

lemma redis_GET_del: "redis_GET t j (r(k := None)) = (if j = k then None else redis_GET t j r)"
  by (auto simp: redis_GET_def)

lemma rc_set_val:
  assumes "rc_set now k v ttl c = (r, c')"
  shows "rc_val t c' j = rc_val t c j \<or>
     j = k \<and> rc_val t c' j = (if 0 < ttl \<and> now + ttl \<le> t then None else Some v)"
    "r = None \<Longrightarrow> rc_val t c' k = (if 0 < ttl \<and> now + ttl \<le> t then None else Some v)"
  using assms
  by (auto simp: rc_defs redis_GET_set is_expired_def split: net.splits prod.splits sum.splits if_split_asm)

interpretation redis_cache: sound_cache rc_get rc_SetCacheVal rc_SetPersistentVal rc_del rc_val
proof
  fix now k c v c' t j r
  show "rc_get now k c = (Inr v, c') \<Longrightarrow> v = rc_val now c k"
    by (auto simp: rc_defs split: net.splits)
  show "rc_get now k c = (r, c') \<Longrightarrow> now \<le> t \<Longrightarrow> rc_val t c' j = rc_val t c j"
    by (auto simp: rc_defs split: net.splits)
next
  fix now k v c r c' t j
  assume "rc_SetCacheVal now k v c = (r, c')" "now \<le> t"
  then obtain ttl where "rc_set now k v ttl c = (r, c')" by (simp add: rc_SetCacheVal_def Let_def)
  from rc_set_val(1) [OF this, of t j]
  show "rc_val t c' j = rc_val t c j \<or> j = k \<and> (rc_val t c' j = Some v \<or> rc_val t c' j = None)"
    by metis
next
  fix now k v c c' t
  assume "rc_SetPersistentVal now k v c = (None, c')" "now \<le> t"
  then show "rc_val t c' k = Some v"
    unfolding rc_SetPersistentVal_def by (auto dest: rc_set_val(2) [where t = t])
next
  fix now k v c r c' t j
  assume "rc_SetPersistentVal now k v c = (r, c')" "now \<le> t"
  then have "rc_set now k v 0 c = (r, c')" by (simp add: rc_SetPersistentVal_def)
  from rc_set_val(1) [OF this, of t j]
  show "rc_val t c' j = rc_val t c j \<or> j = k \<and> rc_val t c' j = Some v"
    by simp
next
  fix now k c r c' t j
  show "rc_del now k c = (r, c') \<Longrightarrow> now \<le> t \<Longrightarrow> rc_val t c' j = rc_val t c j \<or> j = k \<and> rc_val t c' j = None"
    "rc_del now k c = (None, c') \<Longrightarrow> now \<le> t \<Longrightarrow> rc_val t c' k = None"
    by (auto simp: rc_defs redis_GET_del split: net.splits prod.splits if_split_asm)
next
  fix t c k t'
  show "rc_val t c k = None \<Longrightarrow> t \<le> t' \<Longrightarrow> rc_val t' c k = None"
    by (auto simp: rc_val_def redis_GET_def split: option.splits if_splits)
qed

section \<open>The prefixed cache and the dummy\<close>

definition prefixed_get :: "string \<Rightarrow> (time \<Rightarrow> string \<Rightarrow> 'c \<Rightarrow> 'r) \<Rightarrow> time \<Rightarrow> string \<Rightarrow> 'c \<Rightarrow> 'r" where
  "prefixed_get prefix get now k = get now (prefix @ k)"

definition prefixed_set ::
  "string \<Rightarrow> (time \<Rightarrow> string \<Rightarrow> string \<Rightarrow> 'c \<Rightarrow> 'r) \<Rightarrow> time \<Rightarrow> string \<Rightarrow> string \<Rightarrow> 'c \<Rightarrow> 'r" where
  "prefixed_set prefix set_op now k v = set_op now (prefix @ k) v"

definition prefixed_val :: "string \<Rightarrow> (time \<Rightarrow> 'c \<Rightarrow> string \<Rightarrow> 'r) \<Rightarrow> time \<Rightarrow> 'c \<Rightarrow> string \<Rightarrow> 'r" where
  "prefixed_val prefix val t c k = val t c (prefix @ k)"

lemma prefixed_sound:
  assumes "sound_cache get set_op persist del val"
  shows "sound_cache (prefixed_get p get) (prefixed_set p set_op) (prefixed_set p persist)
    (prefixed_get p del) (prefixed_val p val)"
  unfolding prefixed_get_def prefixed_set_def prefixed_val_def
  by (rule sound_cache.intro)
    (auto dest: sound_cache.get_val [OF assms] sound_cache.get_keeps [OF assms]
      sound_cache.set_only [OF assms] sound_cache.persist_ok [OF assms] sound_cache.persist_only [OF assms]
      sound_cache.del_only [OF assms] sound_cache.del_ok [OF assms] sound_cache.expired [OF assms])

interpretation prefixed_redis: sound_cache "prefixed_get p rc_get" "prefixed_set p rc_SetCacheVal"
  "prefixed_set p rc_SetPersistentVal" "prefixed_get p rc_del" "prefixed_val p rc_val"
  for p :: string
  by (rule prefixed_sound) (rule redis_cache.sound_cache_axioms)

definition DummyGet :: "string option result" where "DummyGet = Inr None"
definition DummySet :: "goerror option" where "DummySet = None"
definition DummyDel :: "goerror option" where "DummyDel = None"

abbreviation rc_ops :: "(time \<times> cache_op) list \<Rightarrow> RedisCache \<Rightarrow> RedisCache" where
  "rc_ops \<equiv> fold (run_op rc_get rc_SetCacheVal rc_SetPersistentVal rc_del)"

abbreviation memory_ops :: "(time \<times> cache_op) list \<Rightarrow> MemoryCache \<Rightarrow> MemoryCache" where
  "memory_ops \<equiv> fold (run_op GetCacheVal SetCacheVal SetPersistentVal DelCacheVal)"

section \<open>Properties\<close>


definition wit_cache :: RedisCache where
  "wit_cache = \<lparr>rc_ExpireDays = 0, rc_net = (\<lambda>n. Reply), rc_calls = 0, rc_redis = Map.empty\<rparr>"


text \<open>
  C5: a value set without persistence in the in-process cache is read back until its expiry and
  never at or after it, whatever is read and written under other keys in between: the sweep of
  expired entries, whenever it runs, removes no value that is still current.
\<close>

theorem memory_cache_ttl:
  assumes "SetCacheVal t0 k v c = (None, c1)" "t0 \<le> now"
    and "\<forall>x \<in> set ops. elsewhere k now x"
    and "GetCacheVal now k (memory_ops ops c1) = (Inr r, c2)"
  shows "r = (if 0 < mc_TTL c \<and> t0 + mc_TTL c \<le> now then None else Some v)"
  using memory.get_val [OF assms(4)] memory.run_ops_other [OF assms(3)]
    memory_set_val [OF assms(1) [unfolded SetCacheVal_def] assms(2), of k] by simp

lemma memory_cache_ttl_witness:
  "fst (GetCacheVal (8 * 24 * hour) ''k''
     (memory_ops [(5, OpSet ''j'' ''w'')] (snd (SetCacheVal 0 ''k'' ''v'' NewMemoryCache)))) = Inr None"
proof -
  let ?c1 = "snd (SetCacheVal 0 ''k'' ''v'' NewMemoryCache)"
  let ?c2 = "memory_ops [(5, OpSet ''j'' ''w'')] ?c1"
  have set: "SetCacheVal 0 ''k'' ''v'' NewMemoryCache = (None, ?c1)"
    by (simp add: SetCacheVal_def memory_set_def NewMemoryCache_def)
  have "mc_Err ?c2 = None"
    by (simp add: SetCacheVal_def memory_set_def NewMemoryCache_def sweep_def)
  then obtain r c3 where get: "GetCacheVal (8 * 24 * hour) ''k'' ?c2 = (Inr r, c3)"
    using GetCacheVal_total by blast
  have t: "(0 :: int) \<le> 8 * 24 * hour" by (simp add: hour_def)
  have el: "\<forall>x \<in> set [(5, OpSet ''j'' ''w'')]. elsewhere ''k'' (8 * 24 * hour) x"
    by (simp add: elsewhere_def hour_def)
  from memory_cache_ttl [OF set t el get]
  have "r = None" by (simp add: NewMemoryCache_def DefaultExpireDays_def hour_def)
  then show ?thesis using get by simp
qed

end
