(* ===== verification/Config.thy ===== *)
theory Config
  imports GoFormat
begin

text \<open>
  Package \<^verbatim>\<open>internal/config\<close> and the integrity checks of the two integrations
  (\<^verbatim>\<open>stream/config.go\<close>, \<^verbatim>\<open>eventlog/config.go\<close>): the configuration records, the substitution of
  environment variables, and which configurations are accepted. A pointer is an option. A check that
  fills in defaults returns the completed configuration. \<^verbatim>\<open>url.ParseRequestURI\<close> is the parameter
  \<open>parseURI\<close>; reading and decoding YAML is not modelled.
\<close>

section \<open>Records\<close>

record UserPassAuth =
  up_ClientId :: string
  up_ClientSecret :: string
  up_Username :: string
  up_Password :: string

record JwtAuth =
  jwt_ClientId :: string
  jwt_PrivateKey :: string
  jwt_Username :: string

record ClientCredAuth =
  cc_ClientId :: string
  cc_ClientSecret :: string

record AuthConfig =
  auth_TokenUrl :: string
  auth_UserPass :: "UserPassAuth option"
  auth_Jwt :: "JwtAuth option"
  auth_ClientCred :: "ClientCredAuth option"

record RedisTLSConfig =
  tls_Enabled :: bool
  tls_InsecureSkipVerify :: bool
  tls_CAFile :: string
  tls_ServerName :: string

record RedisIAMAuthConfig =
  iam_Enabled :: bool
  iam_CacheName :: string
  iam_UserId :: string
  iam_Region :: string
  iam_Serverless :: bool

record RedisConfig =
  redis_Host :: string
  redis_Port :: nat
  redis_DbNumber :: nat
  redis_Username :: string
  redis_Password :: string
  redis_ExpireDays :: nat
  redis_Mode :: string
  redis_TLS :: RedisTLSConfig
  redis_IAMAuth :: RedisIAMAuthConfig
  redis_DialTimeoutSeconds :: nat
  redis_ReadTimeoutSeconds :: nat
  redis_WriteTimeoutSeconds :: nat
  redis_MaxRetries :: int
  redis_KeyPrefix :: string

record CacheConfig =
  cache_Redis :: "RedisConfig option"

record S3Config =
  cs3_Bucket :: string
  cs3_Prefix :: string
  cs3_Region :: string
  cs3_Endpoint :: string
  cs3_ForcePathStyle :: bool
  cs3_KmsKeyId :: string
  cs3_StorageClass :: string
  cs3_MaxAttempts :: int
  cs3_UploadTimeoutSeconds :: int

record LocalArchiveConfig =
  cl_Dir :: string

record ArchiveConfig =
  arch_S3 :: "S3Config option"
  arch_Local :: "LocalArchiveConfig option"

record BatchConfig =
  batch_MaxEvents :: int
  batch_MaxAgeSeconds :: int

record EventStreamConfig =
  es_Name :: string
  es_Auth :: AuthConfig
  es_Cache :: "CacheConfig option"
  es_Appetite :: int
  es_Topics :: "string list option"
  es_PubSubEndpoint :: string
  es_PubSubInsecure :: bool
  es_InitialReplay :: string
  es_Batch :: BatchConfig
  es_LeaseTTLSeconds :: int
  es_ShutdownFlushTimeoutSeconds :: int

record LimitsConfig =
  lim_ApiVer :: string
  lim_Names :: "string list"

record SoqlConfig =
  soql_Select :: "string list"
  soql_From :: string
  soql_Where :: string
  soql_Tail :: string

record QueryConfig =
  qc_Soql :: SoqlConfig
  qc_ApiVer :: string
  qc_Timestamp :: string
  qc_EndTimestamp :: string
  qc_ApiName :: string
  qc_CustomId :: "string list"

record EventLogConfig =
  ec_Name :: string
  ec_ApiVer :: string
  ec_RequestTimeout :: nat
  ec_Auth :: AuthConfig
  ec_Cache :: "CacheConfig option"
  ec_EventTypes :: "string list"
  ec_FieldMapping :: "(string \<times> string list) list"
  ec_InitialHours :: nat
  ec_InitialMinutes :: nat
  ec_SkipLogFiles :: bool
  ec_SkipLimits :: bool
  ec_NoInterval :: bool
  ec_CustomQueries :: "QueryConfig list"
  ec_Limits :: LimitsConfig
  ec_PollIntervalSeconds :: nat
  ec_WatermarkOverlapMinutes :: nat
  ec_DownloadStallTimeoutSeconds :: nat
  ec_MalformedFileAttempts :: int
  ec_UnavailableFileAttempts :: int
  ec_RecordsPerObject :: int

record Config =
  conf_Version :: string
  conf_IsTemplate :: bool
  conf_EventStream :: "EventStreamConfig option"
  conf_EventLog :: "EventLogConfig option"
  conf_Archive :: ArchiveConfig
  conf_OrgId :: string
  conf_Env :: string
  conf_MetricsAddr :: string
  conf_LogLevel :: string

section \<open>Environment variables\<close>

definition is_letter :: "char \<Rightarrow> bool" where
  "is_letter c \<longleftrightarrow> (65 \<le> byte c \<and> byte c \<le> 90) \<or> (97 \<le> byte c \<and> byte c \<le> 122)"

text \<open>A full match of \<^verbatim>\<open>^\$[a-zA-Z_]+[a-zA-Z0-9_]*\<close>.\<close>

definition is_env_ref :: "string \<Rightarrow> bool" where
  "is_env_ref s =
     (case s of
        d # c # cs \<Rightarrow> d = CHR ''$'' \<and> (is_letter c \<or> c = CHR ''_'')
          \<and> list_all (\<lambda>c. is_letter c \<or> is_digit c \<or> c = CHR ''_'') cs
      | _ \<Rightarrow> False)"

text \<open>\<open>lookupEnv\<close> is \<^verbatim>\<open>os.LookupEnv\<close>. A missing variable ends the process, here the error.\<close>

fun scanEnvVars :: "(string \<Rightarrow> string option) \<Rightarrow> (string \<times> anyval) list \<Rightarrow> (string \<times> anyval) list result" where
  "scanEnvVars lookupEnv [] = Inr []"
| "scanEnvVars lookupEnv ((k, v) # dict) =
     (case (case v of
              AMap d \<Rightarrow> (case scanEnvVars lookupEnv d of Inl err \<Rightarrow> Inl err | Inr d' \<Rightarrow> Inr (AMap d'))
            | AStr s \<Rightarrow>
                if is_env_ref s then
                  (case lookupEnv (tl s) of
                     Some e \<Rightarrow> Inr (AStr e)
                   | None \<Rightarrow> Inl (Err (''Env var '' @ tl s @ '' does not exist'')))
                else Inr v
            | _ \<Rightarrow> Inr v) of
        Inl err \<Rightarrow> Inl err
      | Inr v' \<Rightarrow>
          (case scanEnvVars lookupEnv dict of Inl err \<Rightarrow> Inl err | Inr dict' \<Rightarrow> Inr ((k, v') # dict')))"

section \<open>Common checks\<close>

text \<open>A check is the error it returns, if any. Checks are run in order; the first error wins.\<close>

type_synonym check = "goerror option"

fun first_error :: "check list \<Rightarrow> check" where
  "first_error [] = None"
| "first_error (Some err # cs) = Some err"
| "first_error (None # cs) = first_error cs"

definition require :: "bool \<Rightarrow> string \<Rightarrow> check" where
  "require ok msg = (if ok then None else Some (Err msg))"

definition CheckUserPassCredentials :: "UserPassAuth option \<Rightarrow> check" where
  "CheckUserPassCredentials a =
     (case a of
        None \<Rightarrow> Some (Err ''Undefined userPass credentials'')
      | Some up \<Rightarrow> first_error
          [require (up_ClientId up \<noteq> []) ''Empty userPass.clientId'',
           require (up_ClientSecret up \<noteq> []) ''Empty userPass.clientSecret'',
           require (up_Username up \<noteq> []) ''Empty userPass.username'',
           require (up_Password up \<noteq> []) ''Empty userPass.password''])"

definition CheckJwtCredentials :: "JwtAuth option \<Rightarrow> check" where
  "CheckJwtCredentials a =
     (case a of
        None \<Rightarrow> Some (Err ''Undefined jwt credentials'')
      | Some j \<Rightarrow> first_error
          [require (jwt_ClientId j \<noteq> []) ''Empty jwt.clientId'',
           require (jwt_PrivateKey j \<noteq> []) ''Empty jwt.privateKey'',
           require (jwt_Username j \<noteq> []) ''Empty jwt.username''])"

definition CheckClientCredCredentials :: "ClientCredAuth option \<Rightarrow> check" where
  "CheckClientCredCredentials a =
     (case a of
        None \<Rightarrow> Some (Err ''Undefined clientCred credentials'')
      | Some c \<Rightarrow> first_error
          [require (cc_ClientId c \<noteq> []) ''Empty clientCred.clientId'',
           require (cc_ClientSecret c \<noteq> []) ''Empty clientCred.clientSecret''])"

definition definedAuthMethods :: "AuthConfig \<Rightarrow> nat" where
  "definedAuthMethods a =
     (if auth_Jwt a \<noteq> None then 1 else 0) + (if auth_ClientCred a \<noteq> None then 1 else 0)
     + (if auth_UserPass a \<noteq> None then 1 else 0)"

definition CheckAuth :: "(string \<Rightarrow> bool) \<Rightarrow> AuthConfig \<Rightarrow> check" where
  "CheckAuth parseURI a = first_error
     [require (auth_TokenUrl a \<noteq> []) ''Empty auth.tokenUrl'',
      require (parseURI (auth_TokenUrl a)) ''Invalid URL auth.tokenUrl'',
      require (definedAuthMethods a = 1) ''Exactly one auth method must be defined'',
      (if auth_Jwt a \<noteq> None then CheckJwtCredentials (auth_Jwt a) else None),
      (if auth_ClientCred a \<noteq> None then CheckClientCredCredentials (auth_ClientCred a) else None),
      (if auth_UserPass a \<noteq> None then CheckUserPassCredentials (auth_UserPass a) else None)]"

definition CheckCache :: "CacheConfig option \<Rightarrow> check" where
  "CheckCache c =
     (case c of
        None \<Rightarrow> None
      | Some cc \<Rightarrow>
          (case cache_Redis cc of
             None \<Rightarrow> None
           | Some r \<Rightarrow> first_error
               [require (redis_Host r \<noteq> []) ''Empty cache.redis.host'',
                require (redis_Mode r \<in> {[], ''standalone'', ''cluster''}) ''Invalid cache.redis.mode'',
                (if iam_Enabled (redis_IAMAuth r) then first_error
                   [require (tls_Enabled (redis_TLS r)) ''cache.redis.iamAuth requires cache.redis.tls.enabled: true'',
                    require (\<not> (iam_CacheName (redis_IAMAuth r) = [] \<or> iam_UserId (redis_IAMAuth r) = []))
                      ''cache.redis.iamAuth requires cacheName and userId'',
                    require (redis_Password r = []) ''cache.redis.password must be empty when iamAuth is enabled'']
                 else None)]))"

definition CheckArchive :: "ArchiveConfig \<Rightarrow> check" where
  "CheckArchive a = first_error
     [require (\<not> (arch_S3 a = None \<and> arch_Local a = None)) ''An archive destination must be defined'',
      require (\<not> (arch_S3 a \<noteq> None \<and> arch_Local a \<noteq> None)) ''Only one archive destination may be defined'',
      (case arch_S3 a of Some s \<Rightarrow> require (cs3_Bucket s \<noteq> []) ''Empty archive.s3.bucket'' | None \<Rightarrow> None),
      (case arch_Local a of Some l \<Rightarrow> require (cl_Dir l \<noteq> []) ''Empty archive.local.dir'' | None \<Rightarrow> None)]"

definition integrityCheck :: "Config \<Rightarrow> check" where
  "integrityCheck conf =
     (if conf_IsTemplate conf then Some (Err ''Config file is a template'')
      else
        (case Split (conf_Version conf) (CHR ''.'') of
           [x, y] \<Rightarrow>
             (case ParseInt x of
                None \<Rightarrow> Some (Err ''Conf file, wrong version key format, major must be a number'')
              | Some major \<Rightarrow>
                  (case ParseInt y of
                     None \<Rightarrow> Some (Err ''Conf file, wrong version key format, minor must be a number'')
                   | Some minor \<Rightarrow>
                       if major \<noteq> 3 then Some (Err ''Conf file major version'')
                       else CheckArchive (conf_Archive conf)))
         | _ \<Rightarrow> Some (Err ''Conf file, version key must be X.Y'')))"

section \<open>The stream collector's checks\<close>

fun checkTopics_loop :: "string list \<Rightarrow> string list \<Rightarrow> check" where
  "checkTopics_loop seen [] = None"
| "checkTopics_loop seen (t # ts) =
     (if t \<in> set seen then Some (Err (''Duplicate topic '' @ t)) else checkTopics_loop (t # seen) ts)"

definition checkTopics :: "string list option \<Rightarrow> check" where
  "checkTopics topics =
     (case topics of
        None \<Rightarrow> Some (Err ''eventStream.topics must be a list of strings'')
      | Some ts \<Rightarrow> if ts = [] then Some (Err ''Empty eventStream.topics'') else checkTopics_loop [] ts)"

definition stream_IntegrityCheck :: "(string \<Rightarrow> bool) \<Rightarrow> Config \<Rightarrow> check" where
  "stream_IntegrityCheck parseURI conf =
     (case conf_EventStream conf of
        None \<Rightarrow> Some (Err ''Config eventStream must be defined'')
      | Some es \<Rightarrow> first_error
          [require (es_Name es \<noteq> []) ''Config eventStream instanceName must be defined'',
           CheckAuth parseURI (es_Auth es),
           require (case es_Cache es of None \<Rightarrow> False | Some c \<Rightarrow> cache_Redis c \<noteq> None)
             ''eventStream.cache.redis is required'',
           CheckCache (es_Cache es),
           checkTopics (es_Topics es),
           require (ToUpper (es_InitialReplay es) \<in> {[], ''EARLIEST'', ''LATEST''})
             ''eventStream.initialReplay must be EARLIEST, LATEST or empty'',
           require (\<not> (es_LeaseTTLSeconds es \<noteq> 0 \<and> es_LeaseTTLSeconds es < 3))
             ''eventStream.leaseTtlSeconds must be at least 3''])"

section \<open>The event log collector's checks\<close>

definition selectsField :: "string list \<Rightarrow> string \<Rightarrow> bool" where
  "selectsField selected fld = list_ex (\<lambda>s. EqualFold (TrimSpace s) fld) selected"

definition is_word_char :: "char \<Rightarrow> bool" where
  "is_word_char c \<longleftrightarrow> is_letter c \<or> is_digit c \<or> c = CHR ''_''"

text \<open>The maximal runs of word characters.\<close>

fun words_acc :: "string \<Rightarrow> string \<Rightarrow> string list" where
  "words_acc cur [] = (if cur = [] then [] else [cur])"
| "words_acc cur (c # s) =
     (if is_word_char c then words_acc (cur @ [c]) s
      else if cur = [] then words_acc [] s else cur # words_acc [] s)"

text \<open>\<^verbatim>\<open>(?i)\b(LIMIT|OFFSET)\b\<close>.\<close>

definition limitOrOffset :: "string \<Rightarrow> bool" where
  "limitOrOffset s = list_ex (\<lambda>w. ToUpper w \<in> {''LIMIT'', ''OFFSET''}) (words_acc [] s)"

definition validEventType :: "string \<Rightarrow> bool" where
  "validEventType s \<longleftrightarrow> s \<noteq> [] \<and> list_all is_word_char s"

definition checkCustomQuery :: "string \<Rightarrow> QueryConfig \<Rightarrow> QueryConfig result" where
  "checkCustomQuery instanceApiVer q0 =
     (let q1 = (if qc_ApiVer q0 = [] then q0\<lparr>qc_ApiVer := instanceApiVer\<rparr> else q0) in
      if qc_Timestamp q1 = [] then Inl (Err ''All custom queries must contain a timestamp attribute'')
      else
        let q2 = (if qc_ApiName q1 = [] then q1\<lparr>qc_ApiName := ''rest''\<rparr> else q1) in
        if qc_ApiName q2 \<noteq> ''rest'' \<and> qc_ApiName q2 \<noteq> ''tooling''
        then Inl (Err ''The apiName must be either rest or tooling'')
        else if soql_From (qc_Soql q2) = []
        then Inl (Err ''All custom queries must contain a SOQL from definition'')
        else if soql_Select (qc_Soql q2) = []
        then Inl (Err ''All custom queries must contain at least one SOQL select attribute'')
        else if \<not> selectsField (soql_Select (qc_Soql q2)) (qc_Timestamp q2)
        then Inl (Err ''Custom query must select its timestamp field'')
        else if qc_EndTimestamp q2 \<noteq> [] \<and> \<not> selectsField (soql_Select (qc_Soql q2)) (qc_EndTimestamp q2)
        then Inl (Err ''Custom query must select its endTimestamp field'')
        else if limitOrOffset (soql_Tail (qc_Soql q2))
        then Inl (Err ''Custom query must not use LIMIT or OFFSET in tail'')
        else Inr q2)"

fun checkCustomQueries :: "string \<Rightarrow> QueryConfig list \<Rightarrow> QueryConfig list result" where
  "checkCustomQueries ver [] = Inr []"
| "checkCustomQueries ver (q # qs) =
     (case checkCustomQuery ver q of
        Inl err \<Rightarrow> Inl err
      | Inr q' \<Rightarrow>
          (case checkCustomQueries ver qs of Inl err \<Rightarrow> Inl err | Inr qs' \<Rightarrow> Inr (q' # qs')))"

definition defaultApiVer :: string where "defaultApiVer = ''55.0''"
definition defaultTimeout :: nat where "defaultTimeout = 30"

definition eventlog_IntegrityCheck :: "(string \<Rightarrow> bool) \<Rightarrow> Config \<Rightarrow> EventLogConfig result" where
  "eventlog_IntegrityCheck parseURI conf =
     (case conf_EventLog conf of
        None \<Rightarrow> Inl (Err ''Config eventLog must be defined'')
      | Some i0 \<Rightarrow>
          if ec_Name i0 = [] then Inl (Err ''Config eventLog instanceName must be defined'')
          else
            let i1 = (if ec_RequestTimeout i0 = 0 then i0\<lparr>ec_RequestTimeout := defaultTimeout\<rparr> else i0) in
            case CheckAuth parseURI (ec_Auth i1) of
              Some err \<Rightarrow> Inl err
            | None \<Rightarrow>
                (case CheckCache (ec_Cache i1) of
                   Some err \<Rightarrow> Inl err
                 | None \<Rightarrow>
                     let i2 = (if ec_ApiVer i1 = [] then i1\<lparr>ec_ApiVer := defaultApiVer\<rparr> else i1) in
                     if \<not> list_all validEventType (ec_EventTypes i2)
                     then Inl (Err ''Instance contains an invalid event type'')
                     else
                       (case checkCustomQueries (ec_ApiVer i2) (ec_CustomQueries i2) of
                          Inl err \<Rightarrow> Inl err
                        | Inr qs \<Rightarrow>
                            let i3 = i2\<lparr>ec_CustomQueries := qs\<rparr> in
                            Inr (if lim_ApiVer (ec_Limits i3) = []
                                 then i3\<lparr>ec_Limits := (ec_Limits i3)\<lparr>lim_ApiVer := ec_ApiVer i3\<rparr>\<rparr>
                                 else i3))))"

section \<open>Lemmas\<close>

lemma first_error_None [simp]: "first_error cs = None \<longleftrightarrow> (\<forall>c \<in> set cs. c = None)"
  by (induction cs rule: first_error.induct) auto

lemma require_None [simp]: "require ok msg = None \<longleftrightarrow> ok"
  by (simp add: require_def)

lemma checkTopics_loop_None: "checkTopics_loop seen ts = None \<longleftrightarrow> distinct ts \<and> set ts \<inter> set seen = {}"
  by (induction ts arbitrary: seen) auto

text \<open>What a stream configuration that passes the checks guarantees the collector.\<close>

text \<open>
  C6: a stream configuration is only accepted with a durable place for its checkpoints and topics
  that do not share one: Redis is configured, there is at least one topic, topics are distinct, the
  bootstrap position is one the subscriber knows, and the lease lives at least three seconds.
\<close>

theorem stream_config_sound:
  assumes "stream_IntegrityCheck parseURI conf = None"
  shows "\<exists>es ts c r. conf_EventStream conf = Some es \<and> es_Name es \<noteq> [] \<and> es_Topics es = Some ts
    \<and> ts \<noteq> [] \<and> distinct ts \<and> es_Cache es = Some c \<and> cache_Redis c = Some r \<and> redis_Host r \<noteq> []
    \<and> definedAuthMethods (es_Auth es) = 1
    \<and> ToUpper (es_InitialReplay es) \<in> {[], ''EARLIEST'', ''LATEST''}
    \<and> (es_LeaseTTLSeconds es = 0 \<or> 3 \<le> es_LeaseTTLSeconds es)"
proof -
  obtain es where es: "conf_EventStream conf = Some es"
    using assms by (cases "conf_EventStream conf") (auto simp: stream_IntegrityCheck_def)
  obtain ts where ts: "es_Topics es = Some ts" "ts \<noteq> []" "distinct ts"
    using assms es by (cases "es_Topics es")
      (auto simp: stream_IntegrityCheck_def checkTopics_def checkTopics_loop_None split: if_splits)
  obtain c r where c: "es_Cache es = Some c" "cache_Redis c = Some r"
    using assms es by (auto simp: stream_IntegrityCheck_def split: option.splits)
  have "redis_Host r \<noteq> []"
    using assms es c by (auto simp: stream_IntegrityCheck_def CheckCache_def)
  moreover have "definedAuthMethods (es_Auth es) = 1"
    using assms es by (auto simp: stream_IntegrityCheck_def CheckAuth_def)
  ultimately show ?thesis
    using assms es ts c by (auto simp: stream_IntegrityCheck_def)
qed

definition wit_config :: Config where
  "wit_config = \<lparr>conf_Version = ''3.0'', conf_IsTemplate = False,
     conf_EventStream = Some \<lparr>es_Name = ''i'',
       es_Auth = \<lparr>auth_TokenUrl = ''https://x'', auth_UserPass = None, auth_Jwt = None,
         auth_ClientCred = Some \<lparr>cc_ClientId = ''c'', cc_ClientSecret = ''s''\<rparr>\<rparr>,
       es_Cache = Some \<lparr>cache_Redis = Some \<lparr>redis_Host = ''h'', redis_Port = 0, redis_DbNumber = 0,
         redis_Username = [], redis_Password = [], redis_ExpireDays = 0, redis_Mode = [],
         redis_TLS = \<lparr>tls_Enabled = False, tls_InsecureSkipVerify = False, tls_CAFile = [], tls_ServerName = []\<rparr>,
         redis_IAMAuth = \<lparr>iam_Enabled = False, iam_CacheName = [], iam_UserId = [], iam_Region = [],
           iam_Serverless = False\<rparr>,
         redis_DialTimeoutSeconds = 0, redis_ReadTimeoutSeconds = 0, redis_WriteTimeoutSeconds = 0,
         redis_MaxRetries = 0, redis_KeyPrefix = []\<rparr>\<rparr>,
       es_Appetite = 0, es_Topics = Some [''/event/A'', ''/event/B''], es_PubSubEndpoint = [],
       es_PubSubInsecure = False, es_InitialReplay = ''latest'',
       es_Batch = \<lparr>batch_MaxEvents = 0, batch_MaxAgeSeconds = 0\<rparr>,
       es_LeaseTTLSeconds = 3, es_ShutdownFlushTimeoutSeconds = 0\<rparr>,
     conf_EventLog = None, conf_Archive = \<lparr>arch_S3 = None, arch_Local = Some \<lparr>cl_Dir = ''d''\<rparr>\<rparr>,
     conf_OrgId = [], conf_Env = [], conf_MetricsAddr = [], conf_LogLevel = []\<rparr>"

lemma stream_config_sound_witness:
  "\<exists>es ts. conf_EventStream wit_config = Some es \<and> es_Topics es = Some ts \<and> distinct ts"
  using stream_config_sound [of "\<lambda>u. True" wit_config]
  by (simp add: stream_IntegrityCheck_def wit_config_def CheckAuth_def CheckCache_def checkTopics_def
      CheckClientCredCredentials_def definedAuthMethods_def ToUpper_def upper_char_def)

end
