(* ===== verification/Query.thy ===== *)
theory Query
  imports Cache Config Archive
begin

text \<open>
  Package \<^verbatim>\<open>eventlog/query\<close>: the SOQL statements, the authenticated requests with their token cache,
  paging, and the download of a log file. The HTTP server and the login are parameters: the n-th
  request, for a URL and with a token, has the outcome \<open>qe_http n\<close>, and the n-th login \<open>qe_login n\<close>.
  The JSON decoders of the response bodies are parameters too. A cached response body that could not
  be read is \<open>hr_readErr\<close>; timeouts and cancellations are errors of the request or of the read.
\<close>

section \<open>SOQL\<close>

record SoqlQuery =
  sq_fromTable :: string
  sq_selectAttrs :: "string list"
  sq_where :: string
  sq_tail :: string

definition MakeSoqlQuery :: "string \<Rightarrow> string list \<Rightarrow> SoqlQuery" where
  "MakeSoqlQuery fromTable selectAttrs =
     \<lparr>sq_fromTable = fromTable, sq_selectAttrs = selectAttrs, sq_where = [], sq_tail = []\<rparr>"

definition AndWhere :: "string \<Rightarrow> SoqlQuery \<Rightarrow> SoqlQuery" where
  "AndWhere w s =
     (if w = [] then s
      else if sq_where s = [] then s\<lparr>sq_where := w\<rparr>
      else s\<lparr>sq_where := sq_where s @ '' AND '' @ w\<rparr>)"

definition OrWhere :: "string \<Rightarrow> SoqlQuery \<Rightarrow> SoqlQuery" where
  "OrWhere w s =
     (if w = [] then s
      else if sq_where s = [] then s\<lparr>sq_where := w\<rparr>
      else s\<lparr>sq_where := sq_where s @ '' OR '' @ w\<rparr>)"

definition AndOrWhere :: "string list \<Rightarrow> SoqlQuery \<Rightarrow> SoqlQuery" where
  "AndOrWhere ws s =
     (if ws = [] then s
      else
        let resultWhere = ''( '' @ Join ws '' OR '' @ '' )'' in
        if sq_where s = [] then s\<lparr>sq_where := resultWhere\<rparr>
        else s\<lparr>sq_where := sq_where s @ '' AND '' @ resultWhere\<rparr>)"

definition SoqlTail :: "string \<Rightarrow> SoqlQuery \<Rightarrow> SoqlQuery" where
  "SoqlTail t s = (if t \<noteq> [] then s\<lparr>sq_tail := '' '' @ t\<rparr> else s)"

definition SoqlBuild :: "SoqlQuery \<Rightarrow> string" where
  "SoqlBuild s =
     ''SELECT '' @ Join (sq_selectAttrs s) '','' @ '' FROM '' @ sq_fromTable s
     @ (if sq_where s \<noteq> [] then '' WHERE '' @ sq_where s else []) @ sq_tail s"

text \<open>\<^verbatim>\<open>url.QueryEscape\<close>, and the decoding a server applies.\<close>

definition unreserved :: "char \<Rightarrow> bool" where
  "unreserved c \<longleftrightarrow> is_letter c \<or> is_digit c \<or> c \<in> {CHR ''-'', CHR ''_'', CHR ''.'', CHR ''~''}"

definition hex_upper :: "nat \<Rightarrow> char" where
  "hex_upper d = (if d < 10 then char_of (48 + d) else char_of (55 + d))"

definition hex_value :: "char \<Rightarrow> nat option" where
  "hex_value c =
     (let x = byte c in
      if 48 \<le> x \<and> x \<le> 57 then Some (x - 48)
      else if 65 \<le> x \<and> x \<le> 70 then Some (x - 55)
      else if 97 \<le> x \<and> x \<le> 102 then Some (x - 87)
      else None)"

definition escape_char :: "char \<Rightarrow> string" where
  "escape_char c =
     (if unreserved c then [c]
      else if c = CHR '' '' then ''+''
      else [CHR ''%'', hex_upper (byte c div 16), hex_upper (byte c mod 16)])"

definition QueryEscape :: "string \<Rightarrow> string" where
  "QueryEscape s = concat (map escape_char s)"

fun QueryUnescape :: "string \<Rightarrow> string option" where
  "QueryUnescape [] = Some []"
| "QueryUnescape (c # s) =
     (if c = CHR ''+'' then map_option (\<lambda>r. CHR '' '' # r) (QueryUnescape s)
      else if c = CHR ''%'' then
        (case s of
           a # b # s' \<Rightarrow>
             (case (hex_value a, hex_value b) of
                (Some x, Some y) \<Rightarrow> map_option (\<lambda>r. char_of (16 * x + y) # r) (QueryUnescape s')
              | _ \<Rightarrow> None)
         | _ \<Rightarrow> None)
      else map_option (\<lambda>r. c # r) (QueryUnescape s))"

definition queryURL :: "string \<Rightarrow> string \<Rightarrow> string" where
  "queryURL path soql = path @ ''?q='' @ QueryEscape soql"

definition where_range :: "string \<Rightarrow> time \<Rightarrow> time \<Rightarrow> SoqlQuery \<Rightarrow> SoqlQuery" where
  "where_range fld since until s =
     AndWhere (fld @ '' <= '' @ format_RFC3339 until) (AndWhere (fld @ '' >= '' @ format_RFC3339 since) s)"

definition logFilesSoql :: "EventLogConfig \<Rightarrow> time \<Rightarrow> time \<Rightarrow> string" where
  "logFilesSoql conf since until =
     (let s0 = MakeSoqlQuery ''EventLogFile'' [''Id'', ''EventType'', ''CreatedDate'', ''LogDate'',
                 ''LogFile'', ''Interval'', ''Sequence'', ''LogFileLength''];
          s1 = (if \<not> ec_NoInterval conf then AndWhere (''Interval = '' @ [char_of (39 :: nat)] @ ''Hourly'' @ [char_of (39 :: nat)]) s0 else s0);
          s2 = where_range ''CreatedDate'' since until s1;
          s3 = (if ec_EventTypes conf \<noteq> []
                then AndOrWhere (map (\<lambda>t. ''EventType = '' @ [char_of (39 :: nat)] @ t @ [char_of (39 :: nat)]) (ec_EventTypes conf)) s2
                else s2)
      in SoqlBuild (SoqlTail ''ORDER BY CreatedDate ASC, Id ASC'' s3))"

definition customSoql :: "QueryConfig \<Rightarrow> time \<Rightarrow> time \<Rightarrow> string" where
  "customSoql q since until =
     (let s0 = MakeSoqlQuery (soql_From (qc_Soql q)) (soql_Select (qc_Soql q));
          s1 = (if soql_Where (qc_Soql q) \<noteq> [] then AndWhere (soql_Where (qc_Soql q)) s0 else s0);
          s2 = (if qc_EndTimestamp q = [] then where_range (qc_Timestamp q) since until s1
                else where_range (qc_EndTimestamp q) since until s1)
      in SoqlBuild (SoqlTail (soql_Tail (qc_Soql q)) s2))"

section \<open>Requests\<close>

record http_response =
  hr_StatusCode :: int
  hr_Body :: string
  hr_readErr :: "goerror option"
  hr_ContentLength :: int

record EventLogfileRecord =
  lf_Id :: string
  lf_LogDate :: string
  lf_CreatedDate :: string
  lf_LogFile :: string
  lf_EventType :: string
  lf_Interval :: string
  lf_Sequence :: int
  lf_LogFileLength :: "int \<times> int"

record 'r page =
  pg_TotalSize :: int
  pg_Done :: bool
  pg_NextRecordsUrl :: string
  pg_Records :: "'r list"

record SingleLimitResponse =
  sl_Max :: int
  sl_Remaining :: int

record 'c cache_ops =
  c_get :: "time \<Rightarrow> string \<Rightarrow> 'c \<Rightarrow> string option result \<times> 'c"
  c_set :: "time \<Rightarrow> string \<Rightarrow> string \<Rightarrow> 'c \<Rightarrow> goerror option \<times> 'c"
  c_persist :: "time \<Rightarrow> string \<Rightarrow> string \<Rightarrow> 'c \<Rightarrow> goerror option \<times> 'c"
  c_del :: "time \<Rightarrow> string \<Rightarrow> 'c \<Rightarrow> goerror option \<times> 'c"

record 'c qenv =
  qe_cache :: "'c cache_ops"
  qe_login :: "nat \<Rightarrow> string result"
  qe_http :: "nat \<Rightarrow> string \<Rightarrow> string \<Rightarrow> http_response result"
  qe_latency :: "nat \<Rightarrow> duration"
  qe_decodeLogFiles :: "string \<Rightarrow> EventLogfileRecord page result"
  qe_decodeRows :: "string \<Rightarrow> payload page result"
  qe_decodeLimits :: "string \<Rightarrow> (string \<times> SingleLimitResponse) list result"

text \<open>The cache, the clock, and the counters that index the oracles.\<close>

record 'c qstate =
  q_db :: 'c
  q_now :: time
  q_ticks :: nat
  q_logins :: nat
  q_requests :: nat

definition q_tick :: "'c qenv \<Rightarrow> 'c qstate \<Rightarrow> 'c qstate" where
  "q_tick E st = st\<lparr>q_now := q_now st + max 0 (qe_latency E (q_ticks st)), q_ticks := q_ticks st + 1\<rparr>"

text \<open>A cache operation at the current instant.\<close>

definition db_op :: "(time \<Rightarrow> 'c \<Rightarrow> 'r \<times> 'c) \<Rightarrow> 'c qenv \<Rightarrow> 'c qstate \<Rightarrow> 'r \<times> 'c qstate" where
  "db_op f E st = (case f (q_now st) (q_db st) of (r, db) \<Rightarrow> (r, q_tick E (st\<lparr>q_db := db\<rparr>)))"

definition db_get :: "'c qenv \<Rightarrow> string \<Rightarrow> 'c qstate \<Rightarrow> string option result \<times> 'c qstate" where
  "db_get E k = db_op (\<lambda>t. c_get (qe_cache E) t k) E"

definition db_set :: "'c qenv \<Rightarrow> string \<Rightarrow> string \<Rightarrow> 'c qstate \<Rightarrow> goerror option \<times> 'c qstate" where
  "db_set E k v = db_op (\<lambda>t. c_set (qe_cache E) t k v) E"

definition db_persist :: "'c qenv \<Rightarrow> string \<Rightarrow> string \<Rightarrow> 'c qstate \<Rightarrow> goerror option \<times> 'c qstate" where
  "db_persist E k v = db_op (\<lambda>t. c_persist (qe_cache E) t k v) E"

definition db_del :: "'c qenv \<Rightarrow> string \<Rightarrow> 'c qstate \<Rightarrow> goerror option \<times> 'c qstate" where
  "db_del E k = db_op (\<lambda>t. c_del (qe_cache E) t k) E"

definition tokenCacheKey :: "EventLogConfig \<Rightarrow> string" where
  "tokenCacheKey conf = ec_Name conf @ ''_access_token''"

definition getTokenFromCache :: "'c qenv \<Rightarrow> EventLogConfig \<Rightarrow> 'c qstate \<Rightarrow> string option \<times> 'c qstate" where
  "getTokenFromCache E conf st =
     (case db_get E (tokenCacheKey conf) st of (Inr v, st') \<Rightarrow> (v, st') | (Inl _, st') \<Rightarrow> (None, st'))"

definition setTokenIntoCache :: "'c qenv \<Rightarrow> EventLogConfig \<Rightarrow> string \<Rightarrow> 'c qstate \<Rightarrow> 'c qstate" where
  "setTokenIntoCache E conf token st = snd (db_set E (tokenCacheKey conf) token st)"

definition deleteTokenFromCache :: "'c qenv \<Rightarrow> EventLogConfig \<Rightarrow> 'c qstate \<Rightarrow> 'c qstate" where
  "deleteTokenFromCache E conf st = snd (db_del E (tokenCacheKey conf) st)"

definition login :: "'c qenv \<Rightarrow> 'c qstate \<Rightarrow> string result \<times> 'c qstate" where
  "login E st = (qe_login E (q_logins st), q_tick E (st\<lparr>q_logins := q_logins st + 1\<rparr>))"

definition auth :: "'c qenv \<Rightarrow> EventLogConfig \<Rightarrow> 'c qstate \<Rightarrow> string result \<times> 'c qstate" where
  "auth E conf st =
     (case getTokenFromCache E conf st of
        (Some token, st1) \<Rightarrow> (Inr token, st1)
      | (None, st1) \<Rightarrow>
          (case login E st1 of
             (Inl err, st2) \<Rightarrow> (Inl err, st2)
           | (Inr token, st2) \<Rightarrow> (Inr token, setTokenIntoCache E conf token st2)))"

definition relogin :: "'c qenv \<Rightarrow> EventLogConfig \<Rightarrow> 'c qstate \<Rightarrow> goerror option \<times> 'c qstate" where
  "relogin E conf st =
     (case auth E conf (deleteTokenFromCache E conf st) of
        (Inl err, st') \<Rightarrow> (Some err, st')
      | (Inr _, st') \<Rightarrow> (None, st'))"

definition do_request :: "'c qenv \<Rightarrow> string \<Rightarrow> string \<Rightarrow> 'c qstate \<Rightarrow> http_response result \<times> 'c qstate" where
  "do_request E url token st =
     (qe_http E (q_requests st) url token, q_tick E (st\<lparr>q_requests := q_requests st + 1\<rparr>))"

text \<open>\<^verbatim>\<open>requestWithTimeout\<close>: at most one retry, after a 401 and a new login.\<close>

definition retried_request :: "'c qenv \<Rightarrow> EventLogConfig \<Rightarrow> string \<Rightarrow> 'c qstate \<Rightarrow> http_response result \<times> 'c qstate" where
  "retried_request E conf url st =
     (case auth E conf st of
        (Inl err, st1) \<Rightarrow> (Inl err, st1)
      | (Inr token, st1) \<Rightarrow> do_request E url token st1)"

definition requestWithTimeout :: "'c qenv \<Rightarrow> EventLogConfig \<Rightarrow> string \<Rightarrow> 'c qstate \<Rightarrow> http_response result \<times> 'c qstate" where
  "requestWithTimeout E conf url st =
     (case auth E conf st of
        (Inl err, st1) \<Rightarrow> (Inl err, st1)
      | (Inr token, st1) \<Rightarrow>
          (case do_request E url token st1 of
             (Inl err, st2) \<Rightarrow> (Inl err, st2)
           | (Inr resp, st2) \<Rightarrow>
               if hr_StatusCode resp = 401 then
                 (case relogin E conf st2 of
                    (Some err, st3) \<Rightarrow> (Inl err, st3)
                  | (None, st3) \<Rightarrow> retried_request E conf url st3)
               else (Inr resp, st2)))"

definition generateError :: "http_response \<Rightarrow> goerror" where
  "generateError resp =
     (if hr_readErr resp \<noteq> None then HTTPError (hr_StatusCode resp) ''(could not read the response body)''
      else HTTPError (hr_StatusCode resp) (take (64 * 1024) (hr_Body resp)))"

definition Permanent :: "int \<Rightarrow> bool" where "Permanent code \<longleftrightarrow> code \<in> {400, 404, 410}"

definition getJSON ::
  "'c qenv \<Rightarrow> (string \<Rightarrow> 'r result) \<Rightarrow> EventLogConfig \<Rightarrow> string \<Rightarrow> 'c qstate \<Rightarrow> 'r result \<times> 'c qstate" where
  "getJSON E dec conf url st =
     (case requestWithTimeout E conf url st of
        (Inl err, st1) \<Rightarrow> (Inl err, st1)
      | (Inr resp, st1) \<Rightarrow>
          if hr_StatusCode resp \<noteq> 200 then (Inl (generateError resp), st1)
          else (case hr_readErr resp of Some err \<Rightarrow> (Inl err, st1) | None \<Rightarrow> (dec (hr_Body resp), st1)))"

definition maxPages :: nat where "maxPages = 10000"

text \<open>Follow \<^verbatim>\<open>nextRecordsUrl\<close>; \<open>left\<close> is the number of pages that may still be read.\<close>

fun follow_pages ::
  "'c qenv \<Rightarrow> (string \<Rightarrow> 'r page result) \<Rightarrow> EventLogConfig \<Rightarrow> nat \<Rightarrow> string \<Rightarrow> 'r list \<Rightarrow> 'c qstate
   \<Rightarrow> 'r list result \<times> 'c qstate" where
  "follow_pages E dec conf left url acc st =
     (if url = [] then (Inr acc, st)
      else
        (case left of
           0 \<Rightarrow> (Inl (Err ''query exceeded the page limit''), st)
         | Suc left' \<Rightarrow>
             (case getJSON E dec conf url st of
                (Inl err, st1) \<Rightarrow> (Inl err, st1)
              | (Inr pg, st1) \<Rightarrow>
                  let acc' = acc @ pg_Records pg in
                  if pg_Done pg then (Inr acc', st1)
                  else if pg_NextRecordsUrl pg = []
                  then (Inl (Err ''query returned an incomplete result set with no nextRecordsUrl''), st1)
                  else follow_pages E dec conf left' (auth_TokenUrl (ec_Auth conf) @ pg_NextRecordsUrl pg) acc' st1)))"

declare follow_pages.simps [simp del]

definition RequestLogFiles ::
  "'c qenv \<Rightarrow> EventLogConfig \<Rightarrow> time \<Rightarrow> time \<Rightarrow> 'c qstate \<Rightarrow> EventLogfileRecord list result \<times> 'c qstate" where
  "RequestLogFiles E conf since until =
     follow_pages E (qe_decodeLogFiles E) conf maxPages
       (queryURL (auth_TokenUrl (ec_Auth conf) @ ''/services/data/v'' @ ec_ApiVer conf @ ''/query'')
         (logFilesSoql conf since until)) []"

definition RequestCustomQuery ::
  "'c qenv \<Rightarrow> QueryConfig \<Rightarrow> EventLogConfig \<Rightarrow> time \<Rightarrow> time \<Rightarrow> 'c qstate \<Rightarrow> payload list result \<times> 'c qstate" where
  "RequestCustomQuery E q conf since until =
     follow_pages E (qe_decodeRows E) conf maxPages
       (queryURL (auth_TokenUrl (ec_Auth conf) @ ''/services/data/v'' @ qc_ApiVer q
                    @ (if qc_ApiName q = ''rest'' then ''/query'' else ''/tooling/query''))
         (customSoql q since until)) []"

definition RequestLimits ::
  "'c qenv \<Rightarrow> EventLogConfig \<Rightarrow> 'c qstate \<Rightarrow> (string \<times> SingleLimitResponse) list result \<times> 'c qstate" where
  "RequestLimits E conf st =
     (case getJSON E (qe_decodeLimits E) conf
             (auth_TokenUrl (ec_Auth conf) @ ''/services/data/v'' @ lim_ApiVer (ec_Limits conf) @ ''/limits'') st of
        (Inl err, st1) \<Rightarrow> (Inl err, st1)
      | (Inr response, st1) \<Rightarrow>
          if lim_Names (ec_Limits conf) = [] then (Inr response, st1)
          else
            (Inr (fold (\<lambda>name filtered. case map_of response name of
                          Some l \<Rightarrow> AList.update name l filtered | None \<Rightarrow> filtered)
                   (lim_Names (ec_Limits conf)) []), st1))"

text \<open>
  \<^verbatim>\<open>DownloadCsvFile\<close>: the content of the file it leaves. \<open>createErr\<close> and \<open>closeErr\<close> are the outcomes of
  creating and closing the temporary file; a double \<open>(m, e)\<close> is \<open>m * 2 ^ e\<close>.
\<close>

definition double_positive :: "int \<times> int \<Rightarrow> bool" where "double_positive d \<longleftrightarrow> 0 < fst d"

definition double_eq_int :: "int \<times> int \<Rightarrow> int \<Rightarrow> bool" where
  "double_eq_int d n \<longleftrightarrow>
     (case d of (m, e) \<Rightarrow> if 0 \<le> e then m * 2 ^ nat e = n else m = n * 2 ^ nat (- e))"

definition DownloadCsvFile ::
  "'c qenv \<Rightarrow> EventLogConfig \<Rightarrow> goerror option \<Rightarrow> goerror option \<Rightarrow> EventLogfileRecord \<Rightarrow> 'c qstate
   \<Rightarrow> string result \<times> 'c qstate" where
  "DownloadCsvFile E conf createErr closeErr rec st =
     (case requestWithTimeout E conf (auth_TokenUrl (ec_Auth conf) @ lf_LogFile rec) st of
        (Inl err, st1) \<Rightarrow> (Inl err, st1)
      | (Inr resp, st1) \<Rightarrow>
          if hr_StatusCode resp \<noteq> 200 then (Inl (generateError resp), st1)
          else
            (case createErr of
               Some err \<Rightarrow> (Inl err, st1)
             | None \<Rightarrow>
                 let written = int (length (hr_Body resp));
                     e1 = (case hr_readErr resp of Some err \<Rightarrow> Some err | None \<Rightarrow> closeErr);
                     e2 = (if e1 = None \<and> 0 \<le> hr_ContentLength resp \<and> written \<noteq> hr_ContentLength resp
                           then Some (Err ''downloaded bytes do not match Content-Length'') else e1);
                     e3 = (if e2 = None \<and> double_positive (lf_LogFileLength rec)
                              \<and> \<not> double_eq_int (lf_LogFileLength rec) written
                           then Some (Err ''downloaded bytes do not match LogFileLength'') else e2)
                 in case e3 of
                      Some err \<Rightarrow> (Inl (Wrap (''downloading log file '' @ lf_Id rec) err), st1)
                    | None \<Rightarrow> (Inr (hr_Body resp), st1)))"

end
