(* ===== verification/Csv.thy ===== *)
theory Csv
  imports Encode Query
begin

text \<open>
  Reading EventLogFiles (\<^verbatim>\<open>eventlog/collector.go\<close>, \<^verbatim>\<open>eventlog/quarantine.go\<close>): the record reader of
  \<^verbatim>\<open>encoding/csv\<close> with the options the program leaves at their defaults, \<^verbatim>\<open>streamCsv\<close>,
  \<^verbatim>\<open>buildCsvRecord\<close>, \<^verbatim>\<open>csvRowId\<close> and \<^verbatim>\<open>streamRawLines\<close>. A downloaded file is its bytes; the position
  a parse error carries is left out of the error. While a file is streamed, \<^verbatim>\<open>time.Now()\<close> is one
  instant.
\<close>

section \<open>Lines\<close>

definition NL :: char where "NL = CHR 0x0A"
definition CR :: char where "CR = CHR 0x0D"
definition QUOTE :: char where "QUOTE = CHR 0x22"
definition COMMA :: char where "COMMA = CHR '',''"

text \<open>The bytes up to and including the first newline, and the rest.\<close>

fun cut_line :: "string \<Rightarrow> string \<times> string" where
  "cut_line [] = ([], [])"
| "cut_line (c # s) = (if c = NL then ([c], s) else case cut_line s of (l, r) \<Rightarrow> (c # l, r))"

lemma cut_line_append: "cut_line s = (l, r) \<Longrightarrow> l @ r = s"
  by (induction s arbitrary: l r) (auto split: if_splits prod.splits)

lemma cut_line_nonempty: "cut_line (c # s) = (l, r) \<Longrightarrow> l \<noteq> []"
  by (auto split: if_splits prod.splits)

lemma cut_line_length: "cut_line s = (l, r) \<Longrightarrow> length l + length r = length s"
  by (drule cut_line_append) auto

lemma cut_line_shorter: "s \<noteq> [] \<Longrightarrow> cut_line s = (l, r) \<Longrightarrow> length r < length s"
  by (cases s) (auto split: if_splits prod.splits dest: cut_line_length)

text \<open>
  \<^verbatim>\<open>readLine\<close>: a final \<open>\r\<close> before the end of the file is dropped, and \<open>\r\n\<close> becomes \<open>\n\<close>.
\<close>

definition normalize_line :: "string \<Rightarrow> string" where
  "normalize_line l =
     (if l \<noteq> [] \<and> last l = NL then
        (if 2 \<le> length l \<and> l ! (length l - 2) = CR then take (length l - 2) l @ [NL] else l)
      else if l \<noteq> [] \<and> last l = CR then butlast l else l)"

lemma length_normalize_line: "length (normalize_line l) \<le> length l"
  by (auto simp: normalize_line_def)

definition csv_readLine :: "string \<Rightarrow> (string \<times> string) option" where
  "csv_readLine s = (if s = [] then None else case cut_line s of (l, r) \<Rightarrow> Some (normalize_line l, r))"

lemma csv_readLine_length:
  "csv_readLine s = Some (l, r) \<Longrightarrow> length l + length r \<le> length s \<and> length r < length s"
  by (auto simp: csv_readLine_def split: if_splits prod.splits dest: cut_line_length cut_line_shorter)
    (metis add_le_mono1 cut_line_length length_normalize_line)

definition nl_only :: "string \<Rightarrow> bool" where "nl_only l \<longleftrightarrow> l = [] \<or> l = [NL]"

section \<open>Records\<close>

text \<open>
  The bytes after an opening quote: the field and where it ended (at a comma, at the end of the
  line), or \<^verbatim>\<open>ErrQuote\<close>. A field goes on into the next lines of the file.
\<close>

datatype quoted = QNext string string string | QEnd string string | QErr

function quoted_field :: "string \<Rightarrow> string \<Rightarrow> string \<Rightarrow> quoted" where
  "quoted_field acc (c # line) rest =
     (if c = QUOTE then
        (case line of
           [] \<Rightarrow> QEnd acc rest
         | d # line' \<Rightarrow>
             if d = QUOTE then quoted_field (acc @ [QUOTE]) line' rest
             else if d = COMMA then QNext acc line' rest
             else if nl_only line then QEnd acc rest
             else QErr)
      else quoted_field (acc @ [c]) line rest)"
| "quoted_field acc [] rest =
     (case csv_readLine rest of None \<Rightarrow> QErr | Some (line, rest') \<Rightarrow> quoted_field acc line rest')"
  by pat_completeness auto
termination
  by (relation "measures [\<lambda>(acc, line, rest). length line + length rest, \<lambda>(acc, line, rest). length rest]")
    (auto dest: csv_readLine_length)

declare quoted_field.simps [simp del]

lemma quoted_field_shorter:
  "quoted_field acc line rest = QNext v l r \<Longrightarrow>
     length l + length r < length line + length rest \<and> length r \<le> length rest"
  "quoted_field acc line rest = QEnd v r \<Longrightarrow> length r \<le> length rest"
proof (induction acc line rest arbitrary: v l r rule: quoted_field.induct)
  case (1 acc c line rest)
  { case 1
    then show ?case
      using "1.IH" by (auto simp: quoted_field.simps(1) [of acc c] split: if_splits list.splits) force+
  next
    case 2
    then show ?case
      using "1.IH" by (auto simp: quoted_field.simps(1) [of acc c] split: if_splits list.splits) }
next
  case (2 acc rest)
  { case 1
    then show ?case
      using "2.IH" by (fastforce simp: quoted_field.simps(2) dest: csv_readLine_length split: option.splits)
  next
    case 2
    then show ?case
      using "2.IH" by (fastforce simp: quoted_field.simps(2) dest: csv_readLine_length split: option.splits) }
qed

definition strip_nl :: "string \<Rightarrow> string" where
  "strip_nl l = (if l \<noteq> [] \<and> last l = NL then butlast l else l)"

definition ErrBareQuote :: goerror where "ErrBareQuote = Err ''bare double-quote in non-quoted field''"
definition ErrQuote :: goerror where "ErrQuote = Err ''extraneous or missing double-quote in quoted field''"
definition ErrFieldCount :: goerror where "ErrFieldCount = Err ''wrong number of fields''"

text \<open>The fields of the record that starts with a line, and what is left of the file.\<close>

function csv_fields :: "string list \<Rightarrow> string \<Rightarrow> string \<Rightarrow> string list result \<times> string" where
  "csv_fields acc line rest =
     (if line = [] \<or> hd line \<noteq> QUOTE then
        let before = takeWhile (\<lambda>c. c \<noteq> COMMA) line in
        if length before < length line then
          if QUOTE \<in> set before then (Inl ErrBareQuote, rest)
          else csv_fields (acc @ [before]) (drop (length before + 1) line) rest
        else
          if QUOTE \<in> set (strip_nl line) then (Inl ErrBareQuote, rest)
          else (Inr (acc @ [strip_nl line]), rest)
      else
        (case quoted_field [] (tl line) rest of
           QNext v line' rest' \<Rightarrow> csv_fields (acc @ [v]) line' rest'
         | QEnd v rest' \<Rightarrow> (Inr (acc @ [v]), rest')
         | QErr \<Rightarrow> (Inl ErrQuote, rest)))"
  by pat_completeness auto
termination
proof (relation "measure (\<lambda>(acc, line, rest). length line + length rest)", goal_cases)
  case (3 acc line rest v line' rest')
  then show ?case using quoted_field_shorter(1) [OF 3(2)] by (cases line) auto
qed auto

declare csv_fields.simps [simp del]

lemma csv_fields_bare:
  assumes "line = [] \<or> hd line \<noteq> QUOTE" "csv_fields acc line rest = (r, rest')"
  shows "rest' = rest \<or> (\<exists>before. length before < length line
    \<and> csv_fields (acc @ [before]) (drop (length before + 1) line) rest = (r, rest'))"
proof -
  let ?b = "takeWhile (\<lambda>c. c \<noteq> COMMA) line"
  have "(if length ?b < length line then
          if QUOTE \<in> set ?b then (Inl ErrBareQuote, rest)
          else csv_fields (acc @ [?b]) (drop (length ?b + 1) line) rest
        else
          if QUOTE \<in> set (strip_nl line) then (Inl ErrBareQuote, rest)
          else (Inr (acc @ [strip_nl line]), rest)) = (r, rest')"
    using assms(2) unfolding csv_fields.simps [of acc line rest] Let_def if_P [OF assms(1)] .
  then show ?thesis by (metis prod.inject)
qed

lemma csv_fields_quoted:
  assumes "\<not> (line = [] \<or> hd line \<noteq> QUOTE)" "csv_fields acc line rest = (r, rest')"
  shows "rest' = rest \<or> (\<exists>v. quoted_field [] (tl line) rest = QEnd v rest')
    \<or> (\<exists>v l1 r1. quoted_field [] (tl line) rest = QNext v l1 r1 \<and> csv_fields (acc @ [v]) l1 r1 = (r, rest'))"
  using assms(2) unfolding csv_fields.simps [of acc line rest] if_not_P [OF assms(1)]
  by (cases "quoted_field [] (tl line) rest") simp_all

lemma csv_fields_rest: "csv_fields acc line rest = (r, rest') \<Longrightarrow> length rest' \<le> length rest"
proof (induction "length line + length rest" arbitrary: acc line rest rule: less_induct)
  case less
  show ?case
  proof (cases "line = [] \<or> hd line \<noteq> QUOTE")
    case True
    from csv_fields_bare [OF True less.prems] show ?thesis
    proof (elim disjE exE conjE)
      fix before
      assume "length before < length line"
        and eq: "csv_fields (acc @ [before]) (drop (length before + 1) line) rest = (r, rest')"
      then have "length (drop (length before + 1) line) + length rest < length line + length rest" by simp
      from less.hyps [OF this eq] show ?thesis .
    qed simp
  next
    case False
    then have "length (tl line) < length line" by (cases line) auto
    from csv_fields_quoted [OF False less.prems] show ?thesis
    proof (elim disjE exE conjE)
      fix v
      assume "quoted_field [] (tl line) rest = QEnd v rest'"
      then show ?thesis by (rule quoted_field_shorter(2))
    next
      fix v l1 r1
      assume q: "quoted_field [] (tl line) rest = QNext v l1 r1" and eq: "csv_fields (acc @ [v]) l1 r1 = (r, rest')"
      note len = quoted_field_shorter(1) [OF q]
      have "length l1 + length r1 < length line + length rest"
        using len \<open>length (tl line) < length line\<close> by linarith
      from less.hyps [OF this eq] len show ?thesis by linarith
    qed simp
  qed
qed

text \<open>\<^verbatim>\<open>Read\<close>: blank lines are skipped; \<open>None\<close> is \<^verbatim>\<open>io.EOF\<close>; \<open>n\<close> is \<^verbatim>\<open>FieldsPerRecord\<close>.\<close>

function csv_Read :: "nat \<Rightarrow> string \<Rightarrow> (string list result \<times> string) option" where
  "csv_Read n s =
     (case csv_readLine s of
        None \<Rightarrow> None
      | Some (line, rest) \<Rightarrow>
          if nl_only line then csv_Read n rest
          else Some
            (case csv_fields [] line rest of
               (Inl err, rest') \<Rightarrow> (Inl err, rest')
             | (Inr fs, rest') \<Rightarrow>
                 (if 0 < n \<and> length fs \<noteq> n then Inl ErrFieldCount else Inr fs, rest')))"
  by pat_completeness auto
termination
  by (relation "measure (\<lambda>(n, s). length s)") (auto dest: csv_readLine_length)

declare csv_Read.simps [simp del]

lemma csv_Read_shorter: "csv_Read n s = Some (r, s') \<Longrightarrow> length s' < length s"
proof (induction n s rule: csv_Read.induct)
  case (1 n s)
  obtain line rest where line: "csv_readLine s = Some (line, rest)"
    using "1.prems" by (cases "csv_readLine s") (auto simp: csv_Read.simps [of n s])
  note len = csv_readLine_length [OF line]
  show ?case
  proof (cases "nl_only line")
    case True
    then show ?thesis
      using "1.IH" [OF line refl True] "1.prems" line len by (simp add: csv_Read.simps [of n s])
  next
    case False
    then show ?thesis
      using "1.prems" line len
      by (auto simp: csv_Read.simps [of n s] split: prod.splits sum.splits dest: csv_fields_rest)
  qed
qed

section \<open>Rows\<close>

text \<open>Rows have no unique field: the file ID and the row number are hashed into a stable one.\<close>

definition csvRowId :: "string \<Rightarrow> int \<Rightarrow> string" where
  "csvRowId fileId line =
     (if fileId = [] then [] else hex_encode (take 16 (Sum256 (fileId @ ''|'' @ Itoa line))))"

text \<open>A field mapping is the set of the columns to keep; \<open>None\<close> is the nil map: keep all.\<close>

type_synonym mapping = "string list option"

definition keeps_column :: "mapping \<Rightarrow> string \<Rightarrow> bool" where
  "keeps_column mapping label =
     (case mapping of
        None \<Rightarrow> True
      | Some fs \<Rightarrow> label \<in> set fs \<or> label = ''EVENT_TYPE'' \<or> label = ''TIMESTAMP'' \<or> label = ''REQUEST_ID'')"

text \<open>One column: the event type, the timestamp and the attributes so far.\<close>

definition csv_column ::
  "mapping \<Rightarrow> string \<times> string \<Rightarrow> string \<times> time \<times> payload \<Rightarrow> string \<times> time \<times> payload" where
  "csv_column mapping lv acc =
     (case (lv, acc) of ((label, value), (eventType, ts, attrs)) \<Rightarrow>
        let eventType' = (if label = ''EVENT_TYPE'' \<and> value \<noteq> [] then value else eventType);
            ts' = (if label = ''TIMESTAMP_DERIVED'' then
                     (case parse_RFC3339Nano value of Some t \<Rightarrow> if IsZero ts then t else ts | None \<Rightarrow> ts)
                   else if label = ''TIMESTAMP'' then
                     (case parse_compact value of Some t \<Rightarrow> t | None \<Rightarrow> ts)
                   else ts);
            attrs' = (if keeps_column mapping label then AList.update label (AStr value) attrs else attrs)
        in (eventType', ts', attrs'))"

definition buildCsvRecord ::
  "time \<Rightarrow> string list \<Rightarrow> string list \<Rightarrow> string \<Rightarrow> int \<Rightarrow> string \<Rightarrow> mapping \<Rightarrow> Record" where
  "buildCsvRecord now labels row fileId line eventType mapping =
     (case fold (csv_column mapping) (zip labels row) (eventType, zero_time, []) of
        (ty, ts, attrs) \<Rightarrow>
          \<lparr>rec_Type = ty, rec_Timestamp = (if IsZero ts then now else ts), rec_Id = csvRowId fileId line,
           rec_Payload = Some attrs, rec_ReplayId = []\<rparr>)"

text \<open>\<^verbatim>\<open>streamCsv\<close>: the loop over the rows, from the row number \<open>line\<close> on.\<close>

function csv_rows ::
  "codec \<Rightarrow> (string list \<Rightarrow> int \<Rightarrow> Record) \<Rightarrow> nat \<Rightarrow> int \<Rightarrow> string \<Rightarrow> fill" where
  "csv_rows C build n line s e =
     (case csv_Read n s of
        None \<Rightarrow> Inr e
      | Some (Inl err, _) \<Rightarrow> Inl (MalformedCsv line err)
      | Some (Inr row, rest) \<Rightarrow>
          (case WriteRecord C (build row line) e of
             Inl err \<Rightarrow> Inl err
           | Inr e' \<Rightarrow> csv_rows C build n (line + 1) rest e'))"
  by pat_completeness auto
termination
  by (relation "measure (\<lambda>(C, build, n, line, s, e). length s)") (auto dest: csv_Read_shorter)

declare csv_rows.simps [simp del]

definition streamCsv ::
  "codec \<Rightarrow> time \<Rightarrow> goerror option \<Rightarrow> string \<Rightarrow> string \<Rightarrow> string \<Rightarrow> mapping \<Rightarrow> fill" where
  "streamCsv C now openErr content fileId eventType mapping e =
     (case openErr of
        Some err \<Rightarrow> Inl err
      | None \<Rightarrow>
          (case csv_Read 0 content of
             None \<Rightarrow> Inr e
           | Some (Inl err, _) \<Rightarrow> Inl (MalformedCsv 1 err)
           | Some (Inr labels, rest) \<Rightarrow>
               csv_rows C (\<lambda>row line. buildCsvRecord now labels row fileId line eventType mapping)
                 (length labels) 2 rest e))"

text \<open>\<^verbatim>\<open>streamRawLines\<close>: every physical line, with its number and the reason.\<close>

function raw_lines :: "string \<Rightarrow> string list" where
  "raw_lines s = (if s = [] then [] else case cut_line s of (l, r) \<Rightarrow> l # raw_lines r)"
  by pat_completeness auto
termination
  by (relation "measure length") (auto dest: cut_line_shorter [OF _ sym])

declare raw_lines.simps [simp del]

definition raw_record :: "time \<Rightarrow> string \<Rightarrow> string \<Rightarrow> string \<Rightarrow> nat \<times> string \<Rightarrow> Record" where
  "raw_record now fileId eventType reason nl =
     \<lparr>rec_Type = eventType, rec_Timestamp = now, rec_Id = csvRowId fileId (int (fst nl)),
      rec_Payload = Some [(''quarantined'', ABool True), (''lineNumber'', AInt (int (fst nl))),
                          (''rawLine'', AStr (snd nl)), (''quarantineReason'', AStr reason)],
      rec_ReplayId = []\<rparr>"

definition raw_records :: "time \<Rightarrow> string \<Rightarrow> string \<Rightarrow> string \<Rightarrow> string \<Rightarrow> Record list" where
  "raw_records now fileId eventType reason content =
     map (raw_record now fileId eventType reason) (enumerate 1 (raw_lines content))"

definition streamRawLines ::
  "codec \<Rightarrow> time \<Rightarrow> goerror option \<Rightarrow> string \<Rightarrow> string \<Rightarrow> string \<Rightarrow> string \<Rightarrow> fill" where
  "streamRawLines C now openErr content fileId eventType reason e =
     (case openErr of
        Some err \<Rightarrow> Inl err
      | None \<Rightarrow> write_each C (raw_records now fileId eventType reason content) e)"

section \<open>What a file's rows are\<close>

text \<open>All the records of a text, and the error that ends them, if any.\<close>

function csv_all :: "nat \<Rightarrow> string \<Rightarrow> string list list \<times> goerror option" where
  "csv_all n s =
     (case csv_Read n s of
        None \<Rightarrow> ([], None)
      | Some (Inl err, _) \<Rightarrow> ([], Some err)
      | Some (Inr row, rest) \<Rightarrow> (case csv_all n rest of (rows, err) \<Rightarrow> (row # rows, err)))"
  by pat_completeness auto
termination
  by (relation "measure (\<lambda>(n, s). length s)") (auto dest: csv_Read_shorter)

declare csv_all.simps [simp del]

text \<open>The records a well-formed file is archived as, numbered from 2; \<open>None\<close> for a malformed one.\<close>

definition csv_file_records ::
  "time \<Rightarrow> string \<Rightarrow> string \<Rightarrow> string \<Rightarrow> mapping \<Rightarrow> Record list option" where
  "csv_file_records now content fileId eventType mapping =
     (case csv_Read 0 content of
        None \<Rightarrow> Some []
      | Some (Inl err, _) \<Rightarrow> None
      | Some (Inr labels, rest) \<Rightarrow>
          (case csv_all (length labels) rest of
             (rows, None) \<Rightarrow>
               Some (map (\<lambda>(i, row). buildCsvRecord now labels row fileId (int i) eventType mapping)
                       (enumerate 2 rows))
           | (_, Some _) \<Rightarrow> None))"

lemma csv_rows_all:
  assumes "csv_rows C build n (int i) s e = Inr e'"
  shows "\<exists>rows. csv_all n s = (rows, None)
    \<and> write_each C (map (\<lambda>(i, row). build row (int i)) (enumerate i rows)) e = Inr e'"
  using assms
proof (induction n s arbitrary: i e rule: csv_all.induct)
  case (1 n s)
  show ?case
  proof (cases "csv_Read n s")
    case None
    then show ?thesis
      using "1.prems" by (simp add: csv_rows.simps [of C build n] csv_all.simps [of n s])
  next
    case (Some x)
    obtain row rest where x: "x = (Inr row, rest)"
      using "1.prems" Some by (cases x; cases "fst x") (auto simp: csv_rows.simps [of C build n])
    obtain e1 where e1: "WriteRecord C (build row (int i)) e = Inr e1"
      and rec: "csv_rows C build n (int (Suc i)) rest e1 = Inr e'"
      using "1.prems" Some x
      by (auto simp: csv_rows.simps [of C build n "int i"] add.commute split: sum.splits)
    from "1.IH" [OF Some x [symmetric] refl rec] obtain rows where
      "csv_all n rest = (rows, None)"
      "write_each C (map (\<lambda>(i, row). build row (int i)) (enumerate (Suc i) rows)) e1 = Inr e'"
      by blast
    then show ?thesis
      using Some x e1 by (intro exI [of _ "row # rows"]) (simp add: csv_all.simps [of n s])
  qed
qed

lemma streamCsv_records:
  assumes "streamCsv C now openErr content fileId eventType mapping e = Inr e'"
  shows "\<exists>rs. csv_file_records now content fileId eventType mapping = Some rs \<and> write_each C rs e = Inr e'"
proof -
  have "openErr = None" using assms by (auto simp: streamCsv_def split: option.splits)
  then show ?thesis
    using assms csv_rows_all [of C _ _ 2 _ e e']
    by (fastforce simp: streamCsv_def csv_file_records_def split: option.splits prod.splits sum.splits)
qed

lemma concat_raw_lines: "concat (raw_lines s) = s"
proof (induction s rule: raw_lines.induct)
  case (1 s)
  show ?case
  proof (cases "s = []")
    case False
    obtain l r where "cut_line s = (l, r)" by (cases "cut_line s")
    then show ?thesis
      using "1.IH" [OF False] False cut_line_append by (simp add: raw_lines.simps [of s])
  qed (simp add: raw_lines.simps)
qed

end
