(* ===== verification/Csv_Quoted.thy ===== *)
theory Csv_Quoted
  imports Csv
begin

text \<open>
  Log files as the service writes them: every field between quotes, inner quotes doubled, one newline
  after each record. Such a file is read back exactly by the reader of \<^verbatim>\<open>encoding/csv\<close>, commas,
  quotes and newlines inside the fields included, and \<^verbatim>\<open>streamCsv\<close> archives one record for each row.
\<close>

section \<open>Writing\<close>

fun quote_text :: "string \<Rightarrow> string" where
  "quote_text [] = []"
| "quote_text (c # s) = (if c = QUOTE then [QUOTE, QUOTE] else [c]) @ quote_text s"

fun csv_row_text :: "string list \<Rightarrow> string" where
  "csv_row_text [] = [NL]"
| "csv_row_text [f] = QUOTE # quote_text f @ [QUOTE, NL]"
| "csv_row_text (f # fs) = QUOTE # quote_text f @ [QUOTE, COMMA] @ csv_row_text fs"

definition csv_text :: "string list list \<Rightarrow> string" where
  "csv_text rows = concat (map csv_row_text rows)"

lemma char_facts [simp]:
  "NL \<noteq> QUOTE" "QUOTE \<noteq> NL" "COMMA \<noteq> QUOTE" "QUOTE \<noteq> COMMA" "COMMA \<noteq> NL" "NL \<noteq> COMMA"
  "CR \<noteq> QUOTE" "CR \<noteq> NL" "CR \<noteq> COMMA" "QUOTE \<noteq> CR" "NL \<noteq> CR" "COMMA \<noteq> CR"
  by (simp_all add: NL_def QUOTE_def COMMA_def CR_def)

lemma quote_text_CR [simp]: "CR \<in> set (quote_text f) \<longleftrightarrow> CR \<in> set f"
  by (induction f) auto

lemma csv_row_text_CR: "CR \<in> set (csv_row_text fs) \<longleftrightarrow> (\<exists>f \<in> set fs. CR \<in> set f)"
  by (induction fs rule: csv_row_text.induct) auto

section \<open>Reading without carriage returns\<close>

lemma normalize_plain: "CR \<notin> set l \<Longrightarrow> normalize_line l = l"
proof -
  assume "CR \<notin> set l"
  have "l ! (length l - 2) \<noteq> CR" if "2 \<le> length l"
  proof -
    have "length l - 2 < length l" using that by linarith
    from nth_mem [OF this] show ?thesis using \<open>CR \<notin> set l\<close> by auto
  qed
  moreover have "l \<noteq> [] \<Longrightarrow> last l \<noteq> CR" using \<open>CR \<notin> set l\<close> last_in_set by metis
  ultimately show ?thesis by (auto simp: normalize_line_def)
qed

lemma csv_readLine_plain:
  "CR \<notin> set s \<Longrightarrow> s \<noteq> [] \<Longrightarrow> csv_readLine s = Some (cut_line s)"
  using cut_line_append [of s] by (cases "cut_line s") (auto simp: csv_readLine_def intro!: normalize_plain)

text \<open>Inside a quoted field the reader sees the bytes of the file as if there were no lines.\<close>

lemma quoted_field_plain:
  assumes "CR \<notin> set (quote_text f @ QUOTE # tail)"
    and "tail = COMMA # t \<or> tail = NL # t"
  shows "cut_line (quote_text f @ QUOTE # tail) = (l, r) \<Longrightarrow>
    quoted_field acc l r = (if tail = COMMA # t then (case cut_line t of (l', r') \<Rightarrow> QNext (acc @ f) l' r') else QEnd (acc @ f) t)"
  using assms(1)
proof (induction f arbitrary: acc l r)
  case Nil
  obtain l' r' where cut: "cut_line t = (l', r')" by fastforce
  show ?case
    using Nil assms(2) cut by (auto simp: quoted_field.simps(1) nl_only_def split: prod.splits)
next
  case (Cons c f)
  obtain l' r' where cut: "cut_line (quote_text f @ QUOTE # tail) = (l', r')" by fastforce
  have plain: "CR \<notin> set (quote_text f @ QUOTE # tail)" using Cons.prems(2) by auto
  note IH = Cons.IH [OF cut plain]
  consider "c = QUOTE" | "c = NL" | "c \<noteq> QUOTE" "c \<noteq> NL" by blast
  then show ?case
  proof cases
    case 1
    then have "l = QUOTE # QUOTE # l'" "r = r'" using Cons.prems(1) cut by auto
    then show ?thesis using IH [of "acc @ [QUOTE]"] 1 by (simp add: quoted_field.simps(1))
  next
    case 2
    then have lr: "l = [NL]" "r = quote_text f @ QUOTE # tail" using Cons.prems(1) by auto
    have "csv_readLine r = Some (l', r')" using csv_readLine_plain [OF plain] cut lr by simp
    then show ?thesis using IH [of "acc @ [NL]"] 2 lr(1) by (simp add: quoted_field.simps(1,2))
  next
    case 3
    then have "l = c # l'" "r = r'" using Cons.prems(1) cut by auto
    then show ?thesis using IH [of "acc @ [c]"] 3 by (simp add: quoted_field.simps(1))
  qed
qed

lemma cut_line_quote: "cut_line (QUOTE # s) = (l, r) \<Longrightarrow> l = QUOTE # fst (cut_line s) \<and> r = snd (cut_line s)"
  by (auto split: prod.splits)

lemma csv_fields_plain:
  "fs \<noteq> [] \<Longrightarrow> CR \<notin> set (csv_row_text fs) \<Longrightarrow> CR \<notin> set rest \<Longrightarrow> cut_line (csv_row_text fs @ rest) = (l, r)
     \<Longrightarrow> csv_fields acc l r = (Inr (acc @ fs), rest)"
proof (induction fs arbitrary: acc l r rule: csv_row_text.induct)
  case (2 f)
  let ?s = "quote_text f @ QUOTE # (NL # rest)"
  obtain l' r' where cut: "cut_line ?s = (l', r')" by fastforce
  have l: "l = QUOTE # l'" "r = r'" using "2.prems"(4) cut cut_line_quote [of ?s l r] by auto
  have "quoted_field [] l' r' = QEnd f rest"
    using quoted_field_plain [OF _ _ cut, of rest "[]"] "2.prems"(2,3) by simp
  then show ?case by (simp add: csv_fields.simps [of acc "QUOTE # l'" r'] l)
next
  case (3 f g fs)
  let ?t = "csv_row_text (g # fs) @ rest"
  let ?s = "quote_text f @ QUOTE # (COMMA # ?t)"
  obtain l' r' where cut: "cut_line ?s = (l', r')" by fastforce
  obtain l2 r2 where cut2: "cut_line ?t = (l2, r2)" by fastforce
  have l: "l = QUOTE # l'" "r = r'" using "3.prems"(4) cut cut_line_quote [of ?s l r] by auto
  have "quoted_field [] l' r' = QNext f l2 r2"
    using quoted_field_plain [OF _ _ cut, of ?t "[]"] "3.prems"(2,3) cut2 by simp
  moreover have "csv_fields (acc @ [f]) l2 r2 = (Inr ((acc @ [f]) @ g # fs), rest)"
    using "3.prems"(2,3) by (intro "3.IH" [OF _ _ _ cut2]) auto
  ultimately show ?case by (simp add: csv_fields.simps [of acc "QUOTE # l'" r'] l)
qed simp

lemma csv_row_text_head: "fs \<noteq> [] \<Longrightarrow> \<exists>s. csv_row_text fs = QUOTE # s"
  by (induction fs rule: csv_row_text.induct) auto

lemma csv_Read_plain:
  assumes "fs \<noteq> []" "CR \<notin> set (csv_row_text fs)" "CR \<notin> set rest" "n = 0 \<or> length fs = n"
  shows "csv_Read n (csv_row_text fs @ rest) = Some (Inr fs, rest)"
proof -
  let ?s = "csv_row_text fs @ rest"
  obtain t where t: "?s = QUOTE # t" using csv_row_text_head [OF assms(1)] by auto
  obtain l r where cut: "cut_line ?s = (l, r)" by fastforce
  then have "\<not> nl_only l" unfolding t by (auto simp: nl_only_def split: prod.splits)
  moreover have "csv_readLine ?s = Some (l, r)"
  proof -
    have "CR \<notin> set ?s" using assms(2,3) by simp
    moreover have "?s \<noteq> []" unfolding t by simp
    ultimately show ?thesis unfolding cut [symmetric] by (rule csv_readLine_plain)
  qed
  ultimately show ?thesis
    using csv_fields_plain [OF assms(1-3) cut, of "[]"] assms(4) by (simp add: csv_Read.simps [of n ?s])
qed

lemma csv_text_CR: "(\<And>fs f. fs \<in> set rows \<Longrightarrow> f \<in> set fs \<Longrightarrow> CR \<notin> set f) \<Longrightarrow> CR \<notin> set (csv_text rows)"
  by (auto simp: csv_text_def csv_row_text_CR)

lemma csv_all_plain:
  assumes "\<And>fs. fs \<in> set rows \<Longrightarrow> length fs = n" "0 < n"
    and "\<And>fs f. fs \<in> set rows \<Longrightarrow> f \<in> set fs \<Longrightarrow> CR \<notin> set f"
  shows "csv_all n (csv_text rows) = (rows, None)"
  using assms
proof (induction rows)
  case Nil
  then show ?case by (simp add: csv_text_def csv_all.simps [of n "[]"] csv_Read.simps [of n "[]"] csv_readLine_def)
next
  case (Cons fs rows)
  have "CR \<notin> set (csv_text rows)" using Cons.prems(3) by (intro csv_text_CR) auto
  moreover have "CR \<notin> set (csv_row_text fs)" using Cons.prems(3) by (auto simp: csv_row_text_CR)
  moreover have "fs \<noteq> []" "length fs = n" using Cons.prems(1,2) by auto
  ultimately have "csv_Read n (csv_row_text fs @ csv_text rows) = Some (Inr fs, csv_text rows)"
    by (intro csv_Read_plain) auto
  moreover have "csv_all n (csv_text rows) = (rows, None)" using Cons by auto
  ultimately show ?case by (simp add: csv_text_def csv_all.simps [of n "csv_row_text fs @ _"])
qed

section \<open>Streaming\<close>

lemma csv_rows_write:
  assumes "csv_all n s = (rows, None)"
  shows "csv_rows C build n (int i) s e = write_each C (map (\<lambda>(i, row). build row (int i)) (enumerate i rows)) e"
  using assms
proof (induction n s arbitrary: rows i e rule: csv_all.induct)
  case (1 n s)
  show ?case
  proof (cases "csv_Read n s")
    case None
    then show ?thesis using "1.prems" by (simp add: csv_rows.simps [of C build n] csv_all.simps [of n s])
  next
    case (Some x)
    obtain row rest where x: "x = (Inr row, rest)"
      using "1.prems" Some by (cases x; cases "fst x") (auto simp: csv_all.simps [of n s])
    obtain rows' where rows': "csv_all n rest = (rows', None)" "rows = row # rows'"
      using "1.prems" Some x by (auto simp: csv_all.simps [of n s] split: prod.splits)
    show ?thesis
      using Some x "1.IH" [OF Some x [symmetric] refl rows'(1), of "Suc i"] rows'(2)
      by (simp add: csv_rows.simps [of C build n "int i"] add.commute split: sum.split)
  qed
qed


definition wit_csv :: codec where
  "wit_csv = \<lparr>jsonEncode = (\<lambda>l. Inr (line_EventId l)), gzip = id, gunzip = Inr, jsonDecode = (\<lambda>s. ([], None)),
     manEncode = (\<lambda>m. Inr []), manDecode = (\<lambda>s. Inl (Err []))\<rparr>"

definition wit_csv_meta :: ObjectMeta where
  "wit_csv_meta = \<lparr>meta_Source = SourceEventLog, meta_OrgId = [], meta_Instance = [], meta_Env = [], meta_EventType = [],
     meta_PartitionTime = 0, meta_Name = [], meta_Lineage = []\<rparr>"


end
