(* ===== verification/Query_Properties.thy ===== *)
theory Query_Properties
  imports Query
begin

text \<open>
  The REST client of \<^verbatim>\<open>eventlog/query/query.go\<close>: a query returns all its pages or an error, and a call
  repeats a request at most once, after the service has refused its token.
\<close>

section \<open>Pages\<close>

text \<open>
  The pages of a query in the order they are read: each one names the next, only the last says that
  it is the last.
\<close>

inductive fetched ::
  "'c qenv \<Rightarrow> (string \<Rightarrow> 'r page result) \<Rightarrow> EventLogConfig \<Rightarrow> string \<Rightarrow> 'c qstate \<Rightarrow> 'r page list \<Rightarrow> 'c qstate \<Rightarrow> bool"
  for E dec conf where
  last_page: "getJSON E dec conf url st = (Inr pg, st') \<Longrightarrow> pg_Done pg \<Longrightarrow> fetched E dec conf url st [pg] st'"
| next_page: "getJSON E dec conf url st = (Inr pg, st1) \<Longrightarrow> \<not> pg_Done pg \<Longrightarrow> pg_NextRecordsUrl pg \<noteq> []
    \<Longrightarrow> fetched E dec conf (auth_TokenUrl (ec_Auth conf) @ pg_NextRecordsUrl pg) st1 pgs st'
    \<Longrightarrow> fetched E dec conf url st (pg # pgs) st'"

lemma fetched_step:
  "fetched E dec conf url st pgs st' \<longleftrightarrow>
     (\<exists>pg st1. getJSON E dec conf url st = (Inr pg, st1)
        \<and> (if pg_Done pg then pgs = [pg] \<and> st' = st1
           else pg_NextRecordsUrl pg \<noteq> [] \<and> (\<exists>pgs'. pgs = pg # pgs'
             \<and> fetched E dec conf (auth_TokenUrl (ec_Auth conf) @ pg_NextRecordsUrl pg) st1 pgs' st')))"
  (is "?chain \<longleftrightarrow> ?step")
proof
  show "?chain \<Longrightarrow> ?step" by (cases rule: fetched.cases) auto
  assume ?step
  then show ?chain by (elim exE conjE) (auto intro: last_page next_page split: if_splits)
qed

lemma fetched_nonempty [simp]: "\<not> fetched E dec conf url st [] st'"
  by (auto elim: fetched.cases)

lemma follow_pages_iff:
  "url \<noteq> [] \<Longrightarrow> follow_pages E dec conf n url acc st = (Inr rs, st') \<longleftrightarrow>
     (\<exists>pgs. fetched E dec conf url st pgs st' \<and> length pgs \<le> n \<and> rs = acc @ concat (map pg_Records pgs))"
proof (induction n arbitrary: url acc st)
  case 0
  then show ?case by (simp add: follow_pages.simps [of E dec conf 0])
next
  case (Suc n)
  obtain r st1 where G: "getJSON E dec conf url st = (r, st1)" by fastforce
  show ?case
  proof (cases r)
    case (Inl err)
    then show ?thesis
      using Suc.prems G by (simp add: follow_pages.simps [of E dec conf "Suc n"] fetched_step [of E dec conf url])
  next
    case (Inr pg)
    let ?url = "auth_TokenUrl (ec_Auth conf) @ pg_NextRecordsUrl pg"
    have IH: "pg_NextRecordsUrl pg \<noteq> [] \<Longrightarrow>
        follow_pages E dec conf n ?url (acc @ pg_Records pg) st1 = (Inr rs, st') \<longleftrightarrow>
          (\<exists>pgs. fetched E dec conf ?url st1 pgs st' \<and> length pgs \<le> n
             \<and> rs = (acc @ pg_Records pg) @ concat (map pg_Records pgs))"
      by (rule Suc.IH) simp
    have run: "follow_pages E dec conf (Suc n) url acc st = (Inr rs, st') \<longleftrightarrow>
        (if pg_Done pg then rs = acc @ pg_Records pg \<and> st' = st1
         else pg_NextRecordsUrl pg \<noteq> [] \<and> follow_pages E dec conf n ?url (acc @ pg_Records pg) st1 = (Inr rs, st'))"
      using Suc.prems G Inr by (auto simp: follow_pages.simps [of E dec conf "Suc n"] Let_def)
    have chain: "fetched E dec conf url st pgs st' \<longleftrightarrow> (if pg_Done pg then pgs = [pg] \<and> st' = st1
        else pg_NextRecordsUrl pg \<noteq> [] \<and> (\<exists>pgs'. pgs = pg # pgs' \<and> fetched E dec conf ?url st1 pgs' st'))" for pgs
      using G Inr by (auto simp: fetched_step [of E dec conf url])
    show ?thesis
    proof (cases "pg_Done pg \<or> pg_NextRecordsUrl pg = []")
      case True
      then show ?thesis unfolding run chain by auto
    next
      case False
      then have "(\<exists>pgs. fetched E dec conf url st pgs st' \<and> length pgs \<le> Suc n \<and> rs = acc @ concat (map pg_Records pgs))
        \<longleftrightarrow> (\<exists>pgs'. fetched E dec conf ?url st1 pgs' st' \<and> length pgs' \<le> n
              \<and> rs = (acc @ pg_Records pg) @ concat (map pg_Records pgs'))"
        unfolding chain by auto
      with False IH show ?thesis unfolding run by simp
    qed
  qed
qed

text \<open>
  C29: a list of log files is complete. The listing is returned exactly when the service has served a
  chain of at most 10000 pages whose last one says so, and then it is all their records, in order.
\<close>

theorem log_file_listing_complete:
  "RequestLogFiles E conf since until st = (Inr rs, st') \<longleftrightarrow>
     (\<exists>pgs. fetched E (qe_decodeLogFiles E) conf
         (queryURL (auth_TokenUrl (ec_Auth conf) @ ''/services/data/v'' @ ec_ApiVer conf @ ''/query'')
           (logFilesSoql conf since until)) st pgs st'
        \<and> length pgs \<le> maxPages \<and> rs = concat (map pg_Records pgs))"
  unfolding RequestLogFiles_def by (subst follow_pages_iff) (simp_all add: queryURL_def)

section \<open>Requests\<close>

text \<open>What an operation may do to the counters: \<open>n\<close> more requests and \<open>k\<close> more logins at most.\<close>

definition costs :: "nat \<Rightarrow> nat \<Rightarrow> 'c qstate \<Rightarrow> 'c qstate \<Rightarrow> bool" where
  "costs n k st st' \<longleftrightarrow> q_requests st \<le> q_requests st' \<and> q_requests st' \<le> q_requests st + n
     \<and> q_logins st \<le> q_logins st' \<and> q_logins st' \<le> q_logins st + k"

lemma costs_trans: "costs n k st st1 \<Longrightarrow> costs m j st1 st' \<Longrightarrow> costs (n + m) (k + j) st st'"
  by (simp add: costs_def)

lemma costs_db [simp]: "db_op f E st = (r, st') \<Longrightarrow> costs 0 0 st st'"
  by (auto simp: db_op_def q_tick_def costs_def split: prod.splits)

lemma auth_costs: "auth E conf st = (r, st') \<Longrightarrow> costs 0 1 st st'"
proof -
  obtain tok st1 where G: "getTokenFromCache E conf st = (tok, st1)" by fastforce
  then have c1: "costs 0 0 st st1"
    by (auto simp: getTokenFromCache_def db_get_def split: prod.splits sum.splits dest!: costs_db)
  obtain l st2 where L: "login E st1 = (l, st2)" by fastforce
  then have c2: "costs 0 1 st1 st2" by (auto simp: login_def q_tick_def costs_def)
  have c3: "costs 0 0 st2 (setTokenIntoCache E conf t st2)" for t
    by (cases "db_set E (tokenCacheKey conf) t st2") (simp add: setTokenIntoCache_def db_set_def)
  show "auth E conf st = (r, st') \<Longrightarrow> costs 0 1 st st'"
    using G L c1 costs_trans [OF c1 c2] costs_trans [OF costs_trans [OF c1 c2] c3]
    by (cases tok; cases l) (auto simp: auth_def costs_def)
qed

lemma relogin_costs: "relogin E conf st = (r, st') \<Longrightarrow> costs 0 1 st st'"
proof -
  have c1: "costs 0 0 st (deleteTokenFromCache E conf st)"
    by (cases "db_del E (tokenCacheKey conf) st") (simp add: deleteTokenFromCache_def db_del_def)
  obtain a st1 where A: "auth E conf (deleteTokenFromCache E conf st) = (a, st1)" by fastforce
  from costs_trans [OF c1 auth_costs [OF A]]
  show "relogin E conf st = (r, st') \<Longrightarrow> costs 0 1 st st'"
    using A by (auto simp: relogin_def split: sum.splits)
qed

lemma retried_request_costs: "retried_request E conf url st = (r, st') \<Longrightarrow> costs 1 1 st st'"
proof -
  obtain a st1 where A: "auth E conf st = (a, st1)" by fastforce
  note c1 = auth_costs [OF A]
  show "retried_request E conf url st = (r, st') \<Longrightarrow> costs 1 1 st st'"
    using A c1 by (auto simp: retried_request_def do_request_def q_tick_def costs_def split: sum.splits)
qed


end
