(* ===== verification/EventLog.thy ===== *)
theory EventLog
  imports Csv Sinks "HOL-Library.List_Lexorder" "HOL-Library.Char_ord"
begin

text \<open>
  The EventLogFile collector (\<^verbatim>\<open>eventlog/collector.go\<close>, \<^verbatim>\<open>eventlog/quarantine.go\<close>): watermarks and
  processed markers in the cache, the archiving of a log file with its quarantine and tombstone
  paths, custom SOQL queries with their row de-duplication, and org limits. The state is the query
  state (cache, clock), the sink, and the index into the oracle of disk faults. Log output and
  metrics are left out.
\<close>

section \<open>Collector\<close>

definition defaultOverlap :: duration where "defaultOverlap = 60 * minute"
definition defaultRecordsPerObject :: int where "defaultRecordsPerObject = 10000"

record Collector =
  co_conf :: EventLogConfig
  co_orgId :: string
  co_env :: string

definition NewCollector :: "EventLogConfig \<Rightarrow> string \<Rightarrow> string \<Rightarrow> Collector" where
  "NewCollector conf orgId env = \<lparr>co_conf = conf, co_orgId = orgId, co_env = env\<rparr>"

text \<open>
  \<open>ce_disk\<close> is the outcome of each operation on a temporary file; \<open>ce_text\<close> renders an error.
\<close>

record ('c, 's) cenv =
  ce_q :: "'c qenv"
  ce_codec :: codec
  ce_Write :: "'s sink_write"
  ce_disk :: "nat \<Rightarrow> goerror option"
  ce_text :: "goerror \<Rightarrow> string"

record ('c, 's) cstate =
  cs_q :: "'c qstate"
  cs_sink :: 's
  cs_disk :: nat

definition on_q :: "('c qstate \<Rightarrow> 'r \<times> 'c qstate) \<Rightarrow> ('c, 's) cstate \<Rightarrow> 'r \<times> ('c, 's) cstate" where
  "on_q f st = (case f (cs_q st) of (r, q) \<Rightarrow> (r, st\<lparr>cs_q := q\<rparr>))"

definition cs_now :: "('c, 's) cstate \<Rightarrow> time" where "cs_now st = q_now (cs_q st)"

text \<open>A write to the sink at the current instant, and a disk operation.\<close>

definition sink_write ::
  "('c, 's) cenv \<Rightarrow> ctx \<Rightarrow> ObjectMeta \<Rightarrow> fill \<Rightarrow> ('c, 's) cstate \<Rightarrow> Manifest result \<times> ('c, 's) cstate" where
  "sink_write E c meta fill st =
     (case ce_Write E c (cs_now st) meta fill (cs_sink st) of
        (r, s) \<Rightarrow> (r, st\<lparr>cs_sink := s, cs_q := q_tick (ce_q E) (cs_q st)\<rparr>))"

definition disk_op :: "('c, 's) cenv \<Rightarrow> ('c, 's) cstate \<Rightarrow> goerror option \<times> ('c, 's) cstate" where
  "disk_op E st = (ce_disk E (cs_disk st), st\<lparr>cs_disk := cs_disk st + 1\<rparr>)"

section \<open>Watermarks and markers\<close>

definition overlap :: "Collector \<Rightarrow> duration" where
  "overlap K = (if 0 < ec_WatermarkOverlapMinutes (co_conf K)
                then int (ec_WatermarkOverlapMinutes (co_conf K)) * minute else defaultOverlap)"

definition watermark ::
  "('c, 's) cenv \<Rightarrow> string \<Rightarrow> ('c, 's) cstate \<Rightarrow> time option result \<times> ('c, 's) cstate" where
  "watermark E key st =
     (case on_q (db_get (ce_q E) key) st of
        (Inl err, st1) \<Rightarrow> (Inl (Wrap ''reading watermark'' err), st1)
      | (Inr None, st1) \<Rightarrow> (Inr None, st1)
      | (Inr (Some s), st1) \<Rightarrow>
          if s = [] then (Inr None, st1)
          else
            (case ParseInt s of
               None \<Rightarrow> (Inl (Err ''invalid watermark: fix or delete the key''), st1)
             | Some ms \<Rightarrow> (Inr (Some (UnixMilli ms)), st1)))"

definition since ::
  "('c, 's) cenv \<Rightarrow> Collector \<Rightarrow> string \<Rightarrow> ('c, 's) cstate \<Rightarrow> (time \<times> time option) result \<times> ('c, 's) cstate" where
  "since E K key st =
     (case watermark E key st of
        (Inl err, st1) \<Rightarrow> (Inl err, st1)
      | (Inr (Some wm), st1) \<Rightarrow> (Inr (wm - overlap K, Some wm), st1)
      | (Inr None, st1) \<Rightarrow>
          let d0 = int (ec_InitialHours (co_conf K)) * hour + int (ec_InitialMinutes (co_conf K)) * minute;
              d = (if d0 = 0 then hour else d0)
          in (Inr (cs_now st1 - d, None), st1))"

definition setWatermark :: "('c, 's) cenv \<Rightarrow> string \<Rightarrow> time \<Rightarrow> ('c, 's) cstate \<Rightarrow> ('c, 's) cstate" where
  "setWatermark E key t st = snd (on_q (db_persist (ce_q E) key (Itoa (unix_milli t))) st)"

definition logFilesWatermarkKey :: "Collector \<Rightarrow> string" where
  "logFilesWatermarkKey K = ec_Name (co_conf K) @ ''_last_run_ts''"

definition processedKey :: "Collector \<Rightarrow> string \<Rightarrow> string" where
  "processedKey K i = ec_Name (co_conf K) @ ''_elf_'' @ i"

definition isProcessed :: "('c, 's) cenv \<Rightarrow> string \<Rightarrow> ('c, 's) cstate \<Rightarrow> bool \<times> ('c, 's) cstate" where
  "isProcessed E key st =
     (case on_q (db_get (ce_q E) key) st of
        (Inl err, st1) \<Rightarrow> (False, st1)
      | (Inr v, st1) \<Rightarrow> (v \<noteq> None, st1))"

definition markProcessed :: "('c, 's) cenv \<Rightarrow> string \<Rightarrow> ('c, 's) cstate \<Rightarrow> ('c, 's) cstate" where
  "markProcessed E key st = snd (on_q (db_set (ce_q E) key ''1'') st)"

definition parseSFDate :: "string \<Rightarrow> time option" where
  "parseSFDate s =
     (case parse_LogDateFormat s of
        Some t \<Rightarrow> Some t
      | None \<Rightarrow> (case parse_millis_Z0700 s of Some t \<Rightarrow> Some t | None \<Rightarrow> parse_RFC3339Nano s))"

section \<open>Files that cannot be archived\<close>

text \<open>The number of the attempt that is failing now, from the count in the cache.\<close>

definition attempt_number :: "('c, 's) cenv \<Rightarrow> string \<Rightarrow> ('c, 's) cstate \<Rightarrow> int \<times> ('c, 's) cstate" where
  "attempt_number E key st =
     (case on_q (db_get (ce_q E) key) st of
        (Inr (Some s), st1) \<Rightarrow> (case ParseInt s of Some n \<Rightarrow> (n + 1, st1) | None \<Rightarrow> (1, st1))
      | (_, st1) \<Rightarrow> (1, st1))"

definition DefaultMalformedAttempts :: int where "DefaultMalformedAttempts = 3"
definition DefaultUnavailableAttempts :: int where "DefaultUnavailableAttempts = 5"

definition malformedAttempts :: "Collector \<Rightarrow> int" where
  "malformedAttempts K = (if 0 < ec_MalformedFileAttempts (co_conf K)
     then ec_MalformedFileAttempts (co_conf K) else DefaultMalformedAttempts)"

definition unavailableAttempts :: "Collector \<Rightarrow> int" where
  "unavailableAttempts K = (if 0 < ec_UnavailableFileAttempts (co_conf K)
     then ec_UnavailableFileAttempts (co_conf K) else DefaultUnavailableAttempts)"

definition quarantine_meta :: "string \<Rightarrow> int \<Rightarrow> ObjectMeta \<Rightarrow> ObjectMeta" where
  "quarantine_meta reason attempts meta =
     meta\<lparr>meta_Name := meta_Name meta @ ''-quarantine'',
          meta_Lineage := meta_Lineage meta @
            [(''quarantineReason'', reason), (''attempts'', Itoa attempts)]\<rparr>"

definition handleMalformed ::
  "('c, 's) cenv \<Rightarrow> Collector \<Rightarrow> ctx \<Rightarrow> EventLogfileRecord \<Rightarrow> ObjectMeta \<Rightarrow> string \<Rightarrow> goerror \<Rightarrow> ('c, 's) cstate
   \<Rightarrow> goerror option \<times> ('c, 's) cstate" where
  "handleMalformed E K c rec meta content cause st =
     (let key = ec_Name (co_conf K) @ ''_elf_malformed_'' @ lf_Id rec in
      case attempt_number E key st of
        (attempts, st1) \<Rightarrow>
          if attempts < malformedAttempts K then
            (Some (Wrap ''malformed, will be tried again'' cause),
             snd (on_q (db_set (ce_q E) key (Itoa attempts)) st1))
          else
            (case disk_op E st1 of
               (openErr, st2) \<Rightarrow>
                 (case sink_write E c (quarantine_meta (ce_text E cause) attempts meta)
                         (streamRawLines (ce_codec E) (cs_now st2) openErr content (lf_Id rec)
                            (lf_EventType rec) (ce_text E cause)) st2 of
                    (Inl err, st3) \<Rightarrow> (Some (Wrap ''quarantining malformed EventLogFile'' err), st3)
                  | (Inr m, st3) \<Rightarrow> (None, snd (on_q (db_del (ce_q E) key) st3)))))"

fun is_HTTPError :: "goerror \<Rightarrow> bool" where
  "is_HTTPError (HTTPError code msg) = True" | "is_HTTPError e = False"

fun is_MalformedCsv :: "goerror \<Rightarrow> bool" where
  "is_MalformedCsv (MalformedCsv n e) = True" | "is_MalformedCsv e = False"

definition permanent_failure :: "goerror \<Rightarrow> bool" where
  "permanent_failure cause =
     (case errors_as is_HTTPError cause of Some (HTTPError code msg) \<Rightarrow> Permanent code | _ \<Rightarrow> False)"

text \<open>The partition of a file's objects: its LogDate, or else its CreatedDate.\<close>

definition log_date :: "EventLogfileRecord \<Rightarrow> time \<Rightarrow> time" where
  "log_date rec created = (case parseSFDate (lf_LogDate rec) of Some t \<Rightarrow> t | None \<Rightarrow> created)"

definition unavailable_meta ::
  "Collector \<Rightarrow> EventLogfileRecord \<Rightarrow> time \<Rightarrow> string \<Rightarrow> int \<Rightarrow> ObjectMeta" where
  "unavailable_meta K rec created reason attempts =
     \<lparr>meta_Source = SourceEventLog, meta_OrgId = co_orgId K, meta_Instance = ec_Name (co_conf K),
      meta_Env = co_env K, meta_EventType = lf_EventType rec, meta_PartitionTime = log_date rec created,
      meta_Name = ''elf-'' @ lf_Id rec @ ''-unavailable'',
      meta_Lineage =
        [(''eventLogFileId'', lf_Id rec), (''createdDate'', lf_CreatedDate rec),
         (''logDate'', lf_LogDate rec), (''unavailableReason'', reason), (''attempts'', Itoa attempts)]\<rparr>"

definition tombstone :: "EventLogfileRecord \<Rightarrow> time \<Rightarrow> string \<Rightarrow> int \<Rightarrow> Record" where
  "tombstone rec created reason attempts =
     \<lparr>rec_Type = lf_EventType rec, rec_Timestamp = created, rec_Id = csvRowId (lf_Id rec) 0,
      rec_Payload = Some [(''unavailable'', ABool True), (''eventLogFileId'', AStr (lf_Id rec)),
                          (''unavailableReason'', AStr reason), (''attempts'', AInt attempts)],
      rec_ReplayId = []\<rparr>"

definition handleDownloadFailure ::
  "('c, 's) cenv \<Rightarrow> Collector \<Rightarrow> ctx \<Rightarrow> EventLogfileRecord \<Rightarrow> time \<Rightarrow> goerror \<Rightarrow> ('c, 's) cstate
   \<Rightarrow> goerror option \<times> ('c, 's) cstate" where
  "handleDownloadFailure E K c rec created cause st =
     (if \<not> permanent_failure cause then (Some cause, st)
      else
        let key = ec_Name (co_conf K) @ ''_elf_unavailable_'' @ lf_Id rec in
        case attempt_number E key st of
          (attempts, st1) \<Rightarrow>
            if attempts < unavailableAttempts K then
              (Some (Wrap ''unavailable, will be tried again'' cause),
               snd (on_q (db_set (ce_q E) key (Itoa attempts)) st1))
            else
              (case sink_write E c (unavailable_meta K rec created (ce_text E cause) attempts)
                      (write_each (ce_codec E) [tombstone rec created (ce_text E cause) attempts]) st1 of
                 (Inl err, st2) \<Rightarrow> (Some (Wrap ''recording unavailable EventLogFile'' err), st2)
               | (Inr m, st2) \<Rightarrow> (None, snd (on_q (db_del (ce_q E) key) st2))))"

section \<open>Log files\<close>

definition fieldMapping :: "Collector \<Rightarrow> string \<Rightarrow> mapping" where
  "fieldMapping K eventType =
     (case map_of (ec_FieldMapping (co_conf K)) (ToLower eventType) of
        None \<Rightarrow> None
      | Some fs \<Rightarrow> if fs = [] then None else Some fs)"

definition log_file_meta :: "Collector \<Rightarrow> EventLogfileRecord \<Rightarrow> time \<Rightarrow> ObjectMeta" where
  "log_file_meta K rec created =
     \<lparr>meta_Source = SourceEventLog, meta_OrgId = co_orgId K, meta_Instance = ec_Name (co_conf K),
      meta_Env = co_env K, meta_EventType = lf_EventType rec, meta_PartitionTime = log_date rec created,
      meta_Name = ''elf-'' @ lf_Id rec,
      meta_Lineage =
        [(''eventLogFileId'', lf_Id rec), (''logDate'', lf_LogDate rec),
         (''createdDate'', lf_CreatedDate rec), (''interval'', lf_Interval rec),
         (''sequence'', Itoa (lf_Sequence rec))]\<rparr>"

definition archiveLogFile ::
  "('c, 's) cenv \<Rightarrow> Collector \<Rightarrow> ctx \<Rightarrow> EventLogfileRecord \<Rightarrow> time \<Rightarrow> ('c, 's) cstate
   \<Rightarrow> goerror option \<times> ('c, 's) cstate" where
  "archiveLogFile E K c rec created st =
     (case disk_op E st of (createErr, st1) \<Rightarrow>
      case disk_op E st1 of (closeErr, st2) \<Rightarrow>
      case on_q (DownloadCsvFile (ce_q E) (co_conf K) createErr closeErr rec) st2 of
        (Inl err, st3) \<Rightarrow> handleDownloadFailure E K c rec created err st3
      | (Inr content, st3) \<Rightarrow>
          (case disk_op E st3 of (openErr, st4) \<Rightarrow>
           let meta = log_file_meta K rec created in
           case sink_write E c meta
                  (streamCsv (ce_codec E) (cs_now st4) openErr content (lf_Id rec) (lf_EventType rec)
                     (fieldMapping K (lf_EventType rec))) st4 of
             (Inr m, st5) \<Rightarrow> (None, st5)
           | (Inl err, st5) \<Rightarrow>
               (case errors_as is_MalformedCsv err of
                  Some malformed \<Rightarrow> handleMalformed E K c rec meta content malformed st5
                | None \<Rightarrow> (Some err, st5))))"

text \<open>The loop over the listed files; \<open>wm\<close> is the watermark reached so far.\<close>

fun collect_files ::
  "('c, 's) cenv \<Rightarrow> Collector \<Rightarrow> ctx \<Rightarrow> EventLogfileRecord list \<Rightarrow> time \<Rightarrow> ('c, 's) cstate
   \<Rightarrow> goerror option \<times> ('c, 's) cstate" where
  "collect_files E K c [] wm st =
     (None, if zero_time < wm then setWatermark E (logFilesWatermarkKey K) wm st else st)"
| "collect_files E K c (rec # recs) wm st =
     (case parseSFDate (lf_CreatedDate rec) of
        None \<Rightarrow> (Some (Err ''EventLogFile has invalid CreatedDate''), st)
      | Some created \<Rightarrow>
          let wm' = (if wm < created then created else wm); pkey = processedKey K (lf_Id rec) in
          (case isProcessed E pkey st of
             (True, st1) \<Rightarrow> collect_files E K c recs wm' st1
           | (False, st1) \<Rightarrow>
               (case archiveLogFile E K c rec created st1 of
                  (Some err, st2) \<Rightarrow>
                    (Some (Wrap ''EventLogFile'' err),
                     if zero_time < wm then setWatermark E (logFilesWatermarkKey K) wm st2 else st2)
                | (None, st2) \<Rightarrow> collect_files E K c recs wm' (markProcessed E pkey st2))))"

definition collectLogFiles ::
  "('c, 's) cenv \<Rightarrow> Collector \<Rightarrow> ctx \<Rightarrow> ('c, 's) cstate \<Rightarrow> goerror option \<times> ('c, 's) cstate" where
  "collectLogFiles E K c st =
     (case since E K (logFilesWatermarkKey K) st of
        (Inl err, st1) \<Rightarrow> (Some err, st1)
      | (Inr (start, current), st1) \<Rightarrow>
          (case on_q (RequestLogFiles (ce_q E) (co_conf K) start (truncate_second (cs_now st1))) st1 of
             (Inl err, st2) \<Rightarrow> (Some err, st2)
           | (Inr records, st2) \<Rightarrow>
               collect_files E K c records (case current of Some wm \<Rightarrow> wm | None \<Rightarrow> zero_time) st2))"

section \<open>Values as text\<close>

text \<open>
  \<^verbatim>\<open>fmt.Sprint\<close> of the values JSON decodes to (numbers are \<^verbatim>\<open>json.Number\<close>, which prints its literal);
  a map prints with its keys sorted.
\<close>

fun Sprint :: "anyval \<Rightarrow> string" where
  "Sprint ANil = ''<nil>''"
| "Sprint (ABool b) = (if b then ''true'' else ''false'')"
| "Sprint (AStr s) = s"
| "Sprint (ANum s) = s"
| "Sprint (AInt i) = Itoa i"
| "Sprint (AInt32 i) = Itoa i"
| "Sprint (AInt64 i) = Itoa i"
| "Sprint (AList vs) = ''['' @ Join (map Sprint vs) '' '' @ '']''"
| "Sprint (AMap kvs) =
     ''map['' @ Join (map snd (sort_key fst (map (\<lambda>(k, v). (k, k @ '':'' @ Sprint v)) kvs))) '' '' @ '']''"
| "Sprint v = []"

text \<open>
  \<^verbatim>\<open>%q\<close>: every valid code point above ASCII is taken as printable; an invalid byte is escaped.
\<close>

definition quote_rune :: "string \<Rightarrow> string" where
  "quote_rune r =
     (case r of
        [c] \<Rightarrow>
          if c = QUOTE \<or> c = CHR 0x5C then [CHR 0x5C, c]
          else if c = CHR 0x07 then [CHR 0x5C, CHR ''a'']
          else if c = CHR 0x08 then [CHR 0x5C, CHR ''b'']
          else if c = CHR 0x0C then [CHR 0x5C, CHR ''f'']
          else if c = NL then [CHR 0x5C, CHR ''n'']
          else if c = CR then [CHR 0x5C, CHR ''r'']
          else if c = CHR 0x09 then [CHR 0x5C, CHR ''t'']
          else if c = CHR 0x0B then [CHR 0x5C, CHR ''v'']
          else if byte c < 32 \<or> 127 \<le> byte c then [CHR 0x5C, CHR ''x''] @ hex_encode [c]
          else [c]
      | _ \<Rightarrow> r)"

definition Quote :: "string \<Rightarrow> string" where
  "Quote s = [QUOTE] @ concat (map quote_rune (runes s)) @ [QUOTE]"

section \<open>Custom queries\<close>

definition sorted_fields :: "QueryConfig \<Rightarrow> string list" where
  "sorted_fields q = sort (map (\<lambda>s. ToLower (TrimSpace s)) (soql_Select (qc_Soql q)))"

definition queryHash :: "QueryConfig \<Rightarrow> string" where
  "queryHash q =
     take 16 (hex_encode (Sum256
       (Join [soql_From (qc_Soql q), ''['' @ Join (map Quote (sorted_fields q)) '' '' @ '']'',
              soql_Where (qc_Soql q), soql_Tail (qc_Soql q), qc_Timestamp q, qc_EndTimestamp q,
              qc_ApiName q] ''|'')))"

definition queryWatermarkKey :: "Collector \<Rightarrow> QueryConfig \<Rightarrow> string" where
  "queryWatermarkKey K q = ec_Name (co_conf K) @ ''_query_'' @ queryHash q @ ''_last_run_ts''"

text \<open>\<^verbatim>\<open>row[f]\<close>: a missing field is nil.\<close>

definition row_field :: "payload \<Rightarrow> string \<Rightarrow> anyval" where
  "row_field row f = (case map_of row f of Some v \<Rightarrow> v | None \<Rightarrow> ANil)"

text \<open>Length-prefixed, so that the hashed bytes determine the values.\<close>

definition custom_id_bytes :: "payload \<Rightarrow> string list \<Rightarrow> string" where
  "custom_id_bytes row fs =
     concat (map (\<lambda>f. let v = Sprint (row_field row f) in Itoa (int (length v)) @ '':'' @ v @ ''|'') fs)"

definition buildCustomId :: "payload \<Rightarrow> QueryConfig \<Rightarrow> string" where
  "buildCustomId row q =
     (if qc_CustomId q = [] \<or> (\<exists>f \<in> set (qc_CustomId q). map_of row f = None) then []
      else hex_encode (Sum256 (custom_id_bytes row (qc_CustomId q))))"

definition row_id :: "QueryConfig \<Rightarrow> payload \<Rightarrow> string" where
  "row_id q row =
     (case str_field row ''Id'' of Some (x # xs) \<Rightarrow> x # xs | _ \<Rightarrow> buildCustomId row q)"

definition rowDedupKey :: "Collector \<Rightarrow> QueryConfig \<Rightarrow> payload \<Rightarrow> string" where
  "rowDedupKey K q row =
     (if row_id q row = [] then []
      else ec_Name (co_conf K) @ ''_soql_'' @ queryHash q @ ''_'' @ row_id q row @ ''_''
             @ Sprint (row_field row (qc_Timestamp q))
             @ (if qc_EndTimestamp q = [] then []
                else ''|'' @ Sprint (row_field row (qc_EndTimestamp q))))"

definition customEventId :: "payload \<Rightarrow> QueryConfig \<Rightarrow> string" where
  "customEventId row q =
     (if row_id q row = [] then []
      else row_id q row @ ''@'' @ Sprint (row_field row (qc_Timestamp q))
             @ (if qc_EndTimestamp q = [] then []
                else ''@'' @ Sprint (row_field row (qc_EndTimestamp q))))"

definition buildCustomRecord :: "time \<Rightarrow> payload \<Rightarrow> QueryConfig \<Rightarrow> Record" where
  "buildCustomRecord now row q =
     \<lparr>rec_Type =
        (case map_of row ''attributes'' of
           Some (AMap a) \<Rightarrow> (case str_field a ''type'' of Some (x # xs) \<Rightarrow> x # xs | _ \<Rightarrow> soql_From (qc_Soql q))
         | _ \<Rightarrow> soql_From (qc_Soql q)),
      rec_Timestamp =
        (case str_field row (qc_Timestamp q) of
           Some s \<Rightarrow> (case parseSFDate s of Some t \<Rightarrow> t | None \<Rightarrow> now)
         | None \<Rightarrow> now),
      rec_Id = customEventId row q,
      rec_Payload = Some (filter (\<lambda>kv. fst kv \<noteq> ''attributes'') row),
      rec_ReplayId = []\<rparr>"

definition query_meta :: "Collector \<Rightarrow> QueryConfig \<Rightarrow> time \<Rightarrow> time \<Rightarrow> string \<Rightarrow> ObjectMeta" where
  "query_meta K q start until ty =
     \<lparr>meta_Source = SourceSOQL, meta_OrgId = co_orgId K, meta_Instance = ec_Name (co_conf K),
      meta_Env = co_env K, meta_EventType = ty, meta_PartitionTime = until, meta_Name = [],
      meta_Lineage = [(''from'', soql_From (qc_Soql q)), (''since'', format_RFC3339 start),
                      (''until'', format_RFC3339 until)]\<rparr>"

definition flush_rows ::
  "('c, 's) cenv \<Rightarrow> Collector \<Rightarrow> ctx \<Rightarrow> QueryConfig \<Rightarrow> time \<Rightarrow> time \<Rightarrow> Record list \<Rightarrow> string list
   \<Rightarrow> ('c, 's) cstate \<Rightarrow> goerror option \<times> ('c, 's) cstate" where
  "flush_rows E K c q start until pending keys st =
     (if pending = [] then (None, st)
      else
        (case sink_write E c (query_meta K q start until (rec_Type (hd pending)))
                (write_each (ce_codec E) pending) st of
           (Inl err, st1) \<Rightarrow> (Some err, st1)
         | (Inr m, st1) \<Rightarrow> (None, fold (markProcessed E) keys st1)))"

definition records_per_object :: "Collector \<Rightarrow> int" where
  "records_per_object K = (if ec_RecordsPerObject (co_conf K) \<le> 0 then defaultRecordsPerObject
                           else ec_RecordsPerObject (co_conf K))"

text \<open>
  The loop over the rows, with what is pending, and the final flush.
\<close>

fun collect_rows ::
  "('c, 's) cenv \<Rightarrow> Collector \<Rightarrow> ctx \<Rightarrow> QueryConfig \<Rightarrow> time \<Rightarrow> time \<Rightarrow> payload list \<Rightarrow> Record list
   \<Rightarrow> string list \<Rightarrow> ('c, 's) cstate \<Rightarrow> goerror option \<times> ('c, 's) cstate" where
  "collect_rows E K c q start until [] pending keys st = flush_rows E K c q start until pending keys st"
| "collect_rows E K c q start until (row # rows) pending keys st =
     (let dk = rowDedupKey K q row in
      case (if dk = [] then (False, st) else isProcessed E dk st) of
        (True, st1) \<Rightarrow> collect_rows E K c q start until rows pending keys st1
      | (False, st1) \<Rightarrow>
          let pending' = pending @ [buildCustomRecord (cs_now st1) row q];
              keys' = (if dk = [] then keys else keys @ [dk])
          in if records_per_object K \<le> int (length pending') then
               (case flush_rows E K c q start until pending' keys' st1 of
                  (Some err, st2) \<Rightarrow> (Some err, st2)
                | (None, st2) \<Rightarrow> collect_rows E K c q start until rows [] [] st2)
             else collect_rows E K c q start until rows pending' keys' st1)"

definition collectCustomQuery ::
  "('c, 's) cenv \<Rightarrow> Collector \<Rightarrow> ctx \<Rightarrow> QueryConfig \<Rightarrow> ('c, 's) cstate \<Rightarrow> goerror option \<times> ('c, 's) cstate" where
  "collectCustomQuery E K c q st =
     (case since E K (queryWatermarkKey K q) st of
        (Inl err, st1) \<Rightarrow> (Some err, st1)
      | (Inr (start, current), st1) \<Rightarrow>
          let until = truncate_second (cs_now st1) in
          (case on_q (RequestCustomQuery (ce_q E) q (co_conf K) start until) st1 of
             (Inl err, st2) \<Rightarrow> (Some err, st2)
           | (Inr rows, st2) \<Rightarrow>
               (case collect_rows E K c q start until rows [] [] st2 of
                  (Some err, st3) \<Rightarrow> (Some err, st3)
                | (None, st3) \<Rightarrow> (None, setWatermark E (queryWatermarkKey K q) until st3))))"

section \<open>Limits and the poll\<close>

definition limit_record :: "time \<Rightarrow> string \<times> SingleLimitResponse \<Rightarrow> Record" where
  "limit_record now nl =
     \<lparr>rec_Type = ''Limits'', rec_Timestamp = now, rec_Id = fst nl @ ''@'' @ format_RFC3339 now,
      rec_Payload = Some [(''limitName'', AStr (fst nl)), (''limitMax'', AInt (sl_Max (snd nl))),
                          (''limitRemaining'', AInt (sl_Remaining (snd nl)))],
      rec_ReplayId = []\<rparr>"

definition limits_meta :: "Collector \<Rightarrow> time \<Rightarrow> ObjectMeta" where
  "limits_meta K now =
     \<lparr>meta_Source = SourceLimits, meta_OrgId = co_orgId K, meta_Instance = ec_Name (co_conf K),
      meta_Env = co_env K, meta_EventType = ''Limits'', meta_PartitionTime = now, meta_Name = [],
      meta_Lineage = []\<rparr>"

text \<open>The order of the response's entries is the order in which the map is ranged over.\<close>

definition collectLimits ::
  "('c, 's) cenv \<Rightarrow> Collector \<Rightarrow> ctx \<Rightarrow> ('c, 's) cstate \<Rightarrow> goerror option \<times> ('c, 's) cstate" where
  "collectLimits E K c st =
     (case on_q (RequestLimits (ce_q E) (co_conf K)) st of
        (Inl err, st1) \<Rightarrow> (Some err, st1)
      | (Inr limits, st1) \<Rightarrow>
          let now = cs_now st1; records = map (limit_record now) limits in
          if records = [] then (None, st1)
          else
            (case sink_write E c (limits_meta K now) (write_each (ce_codec E) records) st1 of
               (Inl err, st2) \<Rightarrow> (Some err, st2)
             | (Inr m, st2) \<Rightarrow> (None, st2)))"

definition wrapped :: "string \<Rightarrow> goerror option \<Rightarrow> goerror list" where
  "wrapped what r = (case r of None \<Rightarrow> [] | Some err \<Rightarrow> [Wrap what err])"

fun poll_queries ::
  "('c, 's) cenv \<Rightarrow> Collector \<Rightarrow> ctx \<Rightarrow> QueryConfig list \<Rightarrow> ('c, 's) cstate \<Rightarrow> goerror list \<times> ('c, 's) cstate" where
  "poll_queries E K c [] st = ([], st)"
| "poll_queries E K c (q # qs) st =
     (case collectCustomQuery E K c q st of
        (r, st1) \<Rightarrow>
          (case poll_queries E K c qs st1 of
             (errs, st2) \<Rightarrow> (wrapped (''custom query on '' @ soql_From (qc_Soql q)) r @ errs, st2)))"

text \<open>One collection cycle: a part that fails does not keep the others from running.\<close>

definition Poll ::
  "('c, 's) cenv \<Rightarrow> Collector \<Rightarrow> ctx \<Rightarrow> ('c, 's) cstate \<Rightarrow> goerror option \<times> ('c, 's) cstate" where
  "Poll E K c st =
     (case (if ec_SkipLogFiles (co_conf K) then (None, st) else collectLogFiles E K c st) of
        (r1, st1) \<Rightarrow>
      case poll_queries E K c (ec_CustomQueries (co_conf K)) st1 of
        (errs, st2) \<Rightarrow>
      case (if ec_SkipLimits (co_conf K) then (None, st2) else collectLimits E K c st2) of
        (r3, st3) \<Rightarrow>
          let all = wrapped ''event log files'' r1 @ errs @ wrapped ''limits'' r3
          in (if all = [] then None else Some (Joined all), st3))"

end
