(* ===== verification/EventLog_Safety.thy ===== *)
theory EventLog_Safety
  imports EventLog
begin

text \<open>
  What a collection cycle guarantees. The contract of the collector's dependencies is the locale
  \<open>event_deps\<close>: a sink whose named objects keep apart (\<open>named_sink\<close>) and a sound cache. Its lemmas
  follow the operations of \<open>EventLog\<close>: what the requests leave in the cache, what an archived file
  leaves in the sink, and where the watermark ends.
\<close>

section \<open>Where a response came from\<close>

definition log_file_url :: "Collector \<Rightarrow> EventLogfileRecord \<Rightarrow> string" where
  "log_file_url K rec = auth_TokenUrl (ec_Auth (co_conf K)) @ lf_LogFile rec"

text \<open>The server answered a request for the file with this content, or refused it for good.\<close>

definition served :: "'c qenv \<Rightarrow> Collector \<Rightarrow> EventLogfileRecord \<Rightarrow> string \<Rightarrow> bool" where
  "served Q K rec content \<longleftrightarrow>
     (\<exists>n token resp. qe_http Q n (log_file_url K rec) token = Inr resp \<and> hr_StatusCode resp = 200
        \<and> hr_readErr resp = None \<and> hr_Body resp = content)"

definition refused :: "'c qenv \<Rightarrow> Collector \<Rightarrow> EventLogfileRecord \<Rightarrow> bool" where
  "refused Q K rec \<longleftrightarrow>
     (\<exists>n token resp. qe_http Q n (log_file_url K rec) token = Inr resp \<and> Permanent (hr_StatusCode resp))"

text \<open>No error of the network, the login or the disk is one of the program's own HTTP errors.\<close>

definition no_http_error :: "goerror \<Rightarrow> bool" where
  "no_http_error e \<longleftrightarrow> (\<forall>x \<in> set (unwrap_chain e). \<not> is_HTTPError x)"

definition foreign_errors :: "'c qenv \<Rightarrow> (nat \<Rightarrow> goerror option) \<Rightarrow> bool" where
  "foreign_errors Q disk \<longleftrightarrow>
     (\<forall>n e. qe_login Q n = Inl e \<longrightarrow> no_http_error e)
     \<and> (\<forall>n url token e. qe_http Q n url token = Inl e \<longrightarrow> no_http_error e)
     \<and> (\<forall>n url token resp e. qe_http Q n url token = Inr resp \<longrightarrow> hr_readErr resp = Some e \<longrightarrow> no_http_error e)
     \<and> (\<forall>n e. disk n = Some e \<longrightarrow> no_http_error e)"

lemma foreign_errorsD:
  assumes "foreign_errors Q disk"
  shows "qe_login Q n = Inl e \<Longrightarrow> no_http_error e"
    "qe_http Q n url token = Inl e \<Longrightarrow> no_http_error e"
    "qe_http Q n url token = Inr resp \<Longrightarrow> hr_readErr resp = Some e \<Longrightarrow> no_http_error e"
    "disk n = Some e \<Longrightarrow> no_http_error e"
  using assms unfolding foreign_errors_def by blast+

lemma no_http_error_simps [simp]:
  "no_http_error (Err s)" "no_http_error (Wrap s e) \<longleftrightarrow> no_http_error e"
  "\<not> no_http_error (HTTPError code msg)"
  by (simp_all add: no_http_error_def)

lemma no_http_error_permanent: "no_http_error e \<Longrightarrow> \<not> permanent_failure e"
  by (auto simp: permanent_failure_def errors_as_def no_http_error_def find_Some_iff
      split: option.splits goerror.splits)

lemma permanent_HTTPError: "permanent_failure (HTTPError code msg) \<longleftrightarrow> Permanent code"
  by (simp add: permanent_failure_def errors_as_def)

lemma generateError_code: "\<exists>msg. generateError resp = HTTPError (hr_StatusCode resp) msg"
  by (simp add: generateError_def)

lemma auth_error: "auth Q conf st = (Inl e, st') \<Longrightarrow> \<exists>n. qe_login Q n = Inl e"
  by (auto simp: auth_def login_def split: prod.splits option.splits sum.splits)

lemma relogin_error: "relogin Q conf st = (Some e, st') \<Longrightarrow> \<exists>n. qe_login Q n = Inl e"
  by (auto simp: relogin_def dest: auth_error split: prod.splits sum.splits)

lemma requestWithTimeout_source:
  assumes "requestWithTimeout Q conf url st = (r, st')"
  shows "(\<exists>n. \<exists>e. qe_login Q n = Inl e \<and> r = Inl e) \<or> (\<exists>n token. qe_http Q n url token = r)"
  using assms
  by (auto simp: requestWithTimeout_def retried_request_def do_request_def
      dest: auth_error relogin_error split: prod.splits sum.splits option.splits if_splits)

lemma DownloadCsvFile_served:
  assumes "DownloadCsvFile Q (co_conf K) ce cl rec st = (Inr content, st')"
  shows "served Q K rec content"
proof -
  obtain resp st1 where req: "requestWithTimeout Q (co_conf K) (log_file_url K rec) st = (Inr resp, st1)"
    and resp: "hr_StatusCode resp = 200" "hr_readErr resp = None" "hr_Body resp = content"
    using assms unfolding DownloadCsvFile_def log_file_url_def Let_def
    by (auto split: prod.splits sum.splits if_splits option.splits)
  with requestWithTimeout_source [OF req] show ?thesis
    unfolding served_def by blast
qed

lemma DownloadCsvFile_refused:
  assumes "DownloadCsvFile Q (co_conf K) (disk i) (disk j) rec st = (Inl err, st')"
    and "permanent_failure err" and foreign: "foreign_errors Q disk"
  shows "refused Q K rec"
proof -
  note plain = foreign_errorsD [OF foreign]
  obtain r st1 where req: "requestWithTimeout Q (co_conf K) (log_file_url K rec) st = (r, st1)"
    by fastforce
  have err: "\<not> no_http_error err" using assms(2) no_http_error_permanent by blast
  show ?thesis
  proof (cases r)
    case (Inl e)
    then have "err = e" using assms(1) req by (simp add: DownloadCsvFile_def log_file_url_def)
    then show ?thesis
      using requestWithTimeout_source [OF req] plain(1,2) err Inl by auto
  next
    case (Inr resp)
    then obtain n token where http: "qe_http Q n (log_file_url K rec) token = Inr resp"
      using requestWithTimeout_source [OF req] by auto
    show ?thesis
    proof (cases "hr_StatusCode resp = 200")
      case False
      then have "err = generateError resp"
        using assms(1) req Inr by (simp add: DownloadCsvFile_def log_file_url_def)
      then have "Permanent (hr_StatusCode resp)"
        using assms(2) generateError_code [of resp] permanent_HTTPError by auto
      then show ?thesis using http unfolding refused_def by blast
    next
      case True
      then have "no_http_error err"
        using assms(1) req Inr plain(3) [OF http] plain(4) unfolding DownloadCsvFile_def log_file_url_def Let_def
        by (auto split: option.splits if_splits)
      then show ?thesis using err by simp
    qed
  qed
qed

section \<open>What the requests leave in the cache\<close>

locale query_deps = sound_cache get set_val set_persistent del val
  for get :: "time \<Rightarrow> string \<Rightarrow> 'c \<Rightarrow> string option result \<times> 'c"
    and set_val set_persistent del val +
  fixes Q :: "'c qenv"
  assumes cache_ops: "c_get (qe_cache Q) = get" "c_set (qe_cache Q) = set_val"
    "c_persist (qe_cache Q) = set_persistent" "c_del (qe_cache Q) = del"
begin

text \<open>Time does not run backwards, and no key outside \<open>A\<close> changes.\<close>

definition touches :: "string set \<Rightarrow> 'c qstate \<Rightarrow> 'c qstate \<Rightarrow> bool" where
  "touches A st st' \<longleftrightarrow>
     q_now st \<le> q_now st' \<and> (\<forall>t k. q_now st' \<le> t \<longrightarrow> k \<notin> A \<longrightarrow> val t (q_db st') k = val t (q_db st) k)"

lemma touches_refl [simp]: "touches A st st"
  by (simp add: touches_def)

lemma touches_trans: "touches A st st1 \<Longrightarrow> touches A st1 st2 \<Longrightarrow> touches A st st2"
  unfolding touches_def by force

lemma touches_mono: "touches A st st' \<Longrightarrow> A \<subseteq> B \<Longrightarrow> touches B st st'"
  unfolding touches_def by blast

lemma touches_tick [simp]: "touches A st (q_tick Q st)"
  by (simp add: touches_def q_tick_def)

lemma touches_counters:
  "touches A st (q_tick Q (st\<lparr>q_logins := n\<rparr>))" "touches A st (q_tick Q (st\<lparr>q_requests := n\<rparr>))"
  by (simp_all add: touches_def q_tick_def)

lemma q_tick_sel [simp]: "q_db (q_tick Q st) = q_db st" "q_now st \<le> q_now (q_tick Q st)"
  by (simp_all add: q_tick_def)

lemma db_op_touches:
  assumes "db_op f Q st = (r, st')"
    and "\<And>t k c'. f (q_now st) (q_db st) = (r, c') \<Longrightarrow> q_now st \<le> t \<Longrightarrow> k \<notin> A \<Longrightarrow> val t c' k = val t (q_db st) k"
  shows "touches A st st'"
proof -
  obtain c' where f: "f (q_now st) (q_db st) = (r, c')" and st': "st' = q_tick Q (st\<lparr>q_db := c'\<rparr>)"
    using assms(1) by (auto simp: db_op_def split: prod.splits)
  have "q_now st \<le> q_now st'"
    using q_tick_sel(2) [of "st\<lparr>q_db := c'\<rparr>"] st' by simp
  then show ?thesis
    using assms(2) [OF f] st' by (auto simp: touches_def)
qed

lemma db_get_touches: "db_get Q k st = (r, st') \<Longrightarrow> touches A st st'"
  unfolding db_get_def cache_ops by (rule db_op_touches) (auto intro: get_keeps)

lemma db_set_touches: "db_set Q k v st = (r, st') \<Longrightarrow> k \<in> A \<Longrightarrow> touches A st st'"
  unfolding db_set_def cache_ops by (rule db_op_touches) (auto intro: set_other)

lemma db_persist_touches: "db_persist Q k v st = (r, st') \<Longrightarrow> k \<in> A \<Longrightarrow> touches A st st'"
  unfolding db_persist_def cache_ops by (rule db_op_touches) (auto intro: persist_other)

lemma db_del_touches: "db_del Q k st = (r, st') \<Longrightarrow> k \<in> A \<Longrightarrow> touches A st st'"
  unfolding db_del_def cache_ops by (rule db_op_touches) (auto intro: del_other)

lemma db_persist_val:
  "db_persist Q k v st = (r, st') \<Longrightarrow> q_now st' \<le> t \<Longrightarrow>
     val t (q_db st') k = val t (q_db st) k \<or> val t (q_db st') k = Some v"
proof -
  assume "db_persist Q k v st = (r, st')" "q_now st' \<le> t"
  moreover obtain c' where "set_persistent (q_now st) k v (q_db st) = (r, c')"
    "st' = q_tick Q (st\<lparr>q_db := c'\<rparr>)"
    using calculation(1) by (auto simp: db_persist_def db_op_def cache_ops split: prod.splits)
  moreover have "q_now st \<le> q_now st'"
    using db_persist_touches [OF calculation(1), of "{k}"] by (simp add: touches_def)
  ultimately show ?thesis
    using persist_only [of "q_now st" k v "q_db st" r c' t k] by auto
qed

lemma db_get_val:
  "db_get Q k st = (Inr v, st') \<Longrightarrow> v = val (q_now st) (q_db st) k"
  unfolding db_get_def db_op_def cache_ops using get_val by (fastforce split: prod.splits)

lemmas db_touches_snd =
  db_set_touches [OF prod.collapse [symmetric]] db_del_touches [OF prod.collapse [symmetric]]
  db_persist_touches [OF prod.collapse [symmetric]] db_get_touches [OF prod.collapse [symmetric]]

lemma getToken_touches: "getTokenFromCache Q conf st = (r, st') \<Longrightarrow> touches A st st'"
  by (auto simp: getTokenFromCache_def dest: db_get_touches split: prod.splits sum.splits)

lemma login_touches: "login Q st = (r, st') \<Longrightarrow> touches A st st'"
  by (auto simp: login_def touches_counters)

lemma setToken_touches: "tokenCacheKey conf \<in> A \<Longrightarrow> touches A st (setTokenIntoCache Q conf token st)"
  by (simp add: setTokenIntoCache_def db_touches_snd)

lemma auth_touches:
  assumes "auth Q conf st = (r, st')" "tokenCacheKey conf \<in> A"
  shows "touches A st st'"
proof -
  obtain token st1 where get: "getTokenFromCache Q conf st = (token, st1)" by fastforce
  obtain r2 st2 where login: "login Q st1 = (r2, st2)" by fastforce
  have "st' = st1 \<or> st' = st2 \<or> (\<exists>t. st' = setTokenIntoCache Q conf t st2)"
    using assms(1) get login by (auto simp: auth_def split: option.splits sum.splits)
  then show ?thesis
    using getToken_touches [OF get] login_touches [OF login] setToken_touches [OF assms(2)] touches_trans
    by blast
qed

lemma relogin_touches:
  assumes "relogin Q conf st = (r, st')" "tokenCacheKey conf \<in> A"
  shows "touches A st st'"
proof -
  have "touches A st (deleteTokenFromCache Q conf st)"
    by (simp add: deleteTokenFromCache_def db_touches_snd assms(2))
  moreover obtain r1 where "auth Q conf (deleteTokenFromCache Q conf st) = (r1, st')"
    using assms(1) by (auto simp: relogin_def split: prod.splits sum.splits)
  ultimately show ?thesis using auth_touches [OF _ assms(2)] touches_trans by blast
qed

lemma do_request_touches: "do_request Q url token st = (r, st') \<Longrightarrow> touches A st st'"
  by (auto simp: do_request_def touches_counters)

lemma retried_request_touches:
  assumes "retried_request Q conf url st = (r, st')" "tokenCacheKey conf \<in> A"
  shows "touches A st st'"
proof -
  obtain r1 st1 where a: "auth Q conf st = (r1, st1)" by fastforce
  then have "st' = st1 \<or> (\<exists>token. do_request Q url token st1 = (r, st'))"
    using assms(1) by (auto simp: retried_request_def split: sum.splits)
  then show ?thesis
    using auth_touches [OF a assms(2)] do_request_touches touches_trans by blast
qed

lemma requestWithTimeout_touches:
  assumes "requestWithTimeout Q conf url st = (r, st')" "tokenCacheKey conf \<in> A"
  shows "touches A st st'"
proof -
  obtain r1 st1 where a: "auth Q conf st = (r1, st1)" by fastforce
  note t1 = auth_touches [OF a assms(2)]
  show ?thesis
  proof (cases r1)
    case (Inl err)
    then show ?thesis using assms(1) a t1 by (simp add: requestWithTimeout_def)
  next
    case (Inr token)
    obtain r2 st2 where d: "do_request Q url token st1 = (r2, st2)" by fastforce
    have t2: "touches A st st2" using t1 do_request_touches [OF d] touches_trans by blast
    obtain r3 st3 where l: "relogin Q conf st2 = (r3, st3)" by fastforce
    have t3: "touches A st st3" using t2 relogin_touches [OF l assms(2)] touches_trans by blast
    have "st' = st2 \<or> st' = st3 \<or> retried_request Q conf url st3 = (r, st')"
      using assms(1) a d l Inr by (auto simp: requestWithTimeout_def split: sum.splits option.splits if_splits)
    then show ?thesis
      using t2 t3 retried_request_touches [OF _ assms(2)] touches_trans by blast
  qed
qed

lemma getJSON_touches:
  assumes "getJSON Q dec conf url st = (r, st')" "tokenCacheKey conf \<in> A"
  shows "touches A st st'"
proof -
  obtain r1 where "requestWithTimeout Q conf url st = (r1, st')"
    using assms(1) by (auto simp: getJSON_def split: prod.splits sum.splits if_splits option.splits)
  then show ?thesis using requestWithTimeout_touches assms(2) by blast
qed

lemma follow_pages_touches:
  assumes "follow_pages Q dec conf left url acc st = (r, st')" "tokenCacheKey conf \<in> A"
  shows "touches A st st'"
  using assms(1)
proof (induction left arbitrary: url acc st)
  case 0
  then show ?case by (simp add: follow_pages.simps split: if_splits)
next
  case (Suc left)
  show ?case
  proof (cases "url = []")
    case True
    then show ?thesis using Suc.prems by (simp add: follow_pages.simps)
  next
    case False
    obtain r1 st1 where g: "getJSON Q dec conf url st = (r1, st1)" by fastforce
    have "st' = st1 \<or> (\<exists>url' acc'. follow_pages Q dec conf left url' acc' st1 = (r, st'))"
      using Suc.prems False g
      by (simp add: follow_pages.simps [of _ _ _ "Suc left"] Let_def split: sum.splits if_splits) blast+
    then show ?thesis
      using getJSON_touches [OF g assms(2)] Suc.IH touches_trans by blast
  qed
qed

lemma DownloadCsvFile_touches:
  assumes "DownloadCsvFile Q conf ce cl rec st = (r, st')" "tokenCacheKey conf \<in> A"
  shows "touches A st st'"
proof -
  obtain r1 where "requestWithTimeout Q conf (auth_TokenUrl (ec_Auth conf) @ lf_LogFile rec) st = (r1, st')"
    using assms(1) unfolding DownloadCsvFile_def Let_def
    by (auto split: prod.splits sum.splits if_splits option.splits)
  then show ?thesis using requestWithTimeout_touches assms(2) by blast
qed

end

section \<open>What an archived file leaves in the sink\<close>

text \<open>Salesforce IDs are letters and digits.\<close>

definition sf_id :: "string \<Rightarrow> bool" where
  "sf_id s \<longleftrightarrow> s \<noteq> [] \<and> (\<forall>c \<in> set s. is_digit c \<or> is_letter c)"

definition own_names :: "string \<Rightarrow> string set" where
  "own_names i = {''elf-'' @ i, ''elf-'' @ i @ ''-quarantine'', ''elf-'' @ i @ ''-unavailable''}"

text \<open>
  The lines that stand for a file: all its rows; or, when it is malformed, all its physical lines; or,
  when the server refuses it for good, its tombstone.
\<close>

definition file_lines ::
  "'c qenv \<Rightarrow> Collector \<Rightarrow> EventLogfileRecord \<Rightarrow> time \<Rightarrow> Line list \<Rightarrow> bool" where
  "file_lines Q K rec created ls \<longleftrightarrow>
     (\<exists>content now rs. served Q K rec content
        \<and> csv_file_records now content (lf_Id rec) (lf_EventType rec) (fieldMapping K (lf_EventType rec)) = Some rs
        \<and> ls = map (line_of (log_file_meta K rec created)) rs)
     \<or> (\<exists>content now reason. served Q K rec content
        \<and> ls = map (line_of (log_file_meta K rec created))
                 (raw_records now (lf_Id rec) (lf_EventType rec) reason content))
     \<or> refused Q K rec \<and> (\<exists>reason attempts.
          ls = [line_of (log_file_meta K rec created) (tombstone rec created reason attempts)])"

definition file_stored ::
  "codec \<Rightarrow> 'c qenv \<Rightarrow> Collector \<Rightarrow> (string \<Rightarrow> string option) \<Rightarrow> EventLogfileRecord \<Rightarrow> bool" where
  "file_stored C Q K objs rec \<longleftrightarrow>
     (\<exists>created k b ls. parseSFDate (lf_CreatedDate rec) = Some created
        \<and> objs k = Some b \<and> body_holds C b ls \<and> file_lines Q K rec created ls)"

lemma sf_id_key_char: "sf_id s \<Longrightarrow> c \<in> set s \<Longrightarrow> key_char c"
  by (auto simp: sf_id_def key_char_def is_digit_def is_letter_def)

lemma own_name_clean:
  assumes "sf_id i" "n \<in> own_names i"
  shows "sanitize n ''object'' = n" "n \<noteq> []" "name_ok n"
proof -
  have i: "\<forall>c \<in> set i. key_char c" using sf_id_key_char [OF assms(1)] by blast
  have lits: "\<forall>c \<in> set ''elf-''. key_char c" "\<forall>c \<in> set ''-quarantine''. key_char c"
    "\<forall>c \<in> set ''-unavailable''. key_char c"
    by (simp_all add: key_char_def)
  obtain x where n: "n = ''elf-'' @ i @ x" "\<forall>c \<in> set x. key_char c"
    using assms(2) lits unfolding own_names_def by (metis append_Nil2 empty_iff empty_set insert_iff)
  have "\<forall>c \<in> set n. key_char c"
    unfolding n(1) set_append using i n(2) lits(1) by blast
  moreover show "n \<noteq> []" using n by simp
  ultimately show "sanitize n ''object'' = n" by (simp add: sanitize_clean)
  have "reserved_name (CHR ''e'' # s)" for s
    by (rule reserved_head) (simp_all add: key_char_def is_digit_def)
  then show "name_ok n" using n by (simp add: name_ok_def)
qed

lemma dash_split:
  "i @ x = j @ y \<Longrightarrow> CHR ''-'' \<notin> set i \<Longrightarrow> CHR ''-'' \<notin> set j \<Longrightarrow>
     x = [] \<or> hd x = CHR ''-'' \<Longrightarrow> y = [] \<or> hd y = CHR ''-'' \<Longrightarrow> i = j"
proof (induction i arbitrary: j)
  case Nil
  then show ?case by (cases j) auto
next
  case (Cons c i)
  then show ?case by (cases j) (auto simp: neq_Nil_conv)
qed

lemma own_names_apart:
  assumes "sf_id i" "sf_id j" "i \<noteq> j" "n \<in> own_names i" "m \<in> own_names j"
  shows "n \<noteq> m"
proof -
  have no_dash: "CHR ''-'' \<notin> set k" if "sf_id k" for k
    using that by (auto simp: sf_id_def is_digit_def is_letter_def)
  obtain x where x: "n = ''elf-'' @ i @ x" "x = [] \<or> hd x = CHR ''-''"
    using assms(4) by (auto simp: own_names_def)
  obtain y where y: "m = ''elf-'' @ j @ y" "y = [] \<or> hd y = CHR ''-''"
    using assms(5) by (auto simp: own_names_def)
  show ?thesis
    using dash_split [of i x j y] no_dash assms(1-3) x y by auto
qed

lemma line_of_same:
  "meta_Source m = meta_Source m' \<Longrightarrow> meta_OrgId m = meta_OrgId m' \<Longrightarrow> meta_Instance m = meta_Instance m' \<Longrightarrow>
     meta_Env m = meta_Env m' \<Longrightarrow> line_of m = line_of m'"
  by (rule ext) (simp add: line_of_def)

lemma line_of_file_metas [simp]:
  "line_of (quarantine_meta reason n meta) = line_of meta"
  "line_of (unavailable_meta K rec created reason n) = line_of (log_file_meta K rec created)"
  by (rule line_of_same; simp add: quarantine_meta_def unavailable_meta_def log_file_meta_def)+

lemma file_meta_names [simp]:
  "meta_Name (log_file_meta K rec created) \<in> own_names (lf_Id rec)"
  "meta_Name (quarantine_meta reason n (log_file_meta K rec created)) \<in> own_names (lf_Id rec)"
  "meta_Name (unavailable_meta K rec created reason n) \<in> own_names (lf_Id rec)"
  by (simp_all add: log_file_meta_def quarantine_meta_def unavailable_meta_def own_names_def)

text \<open>The keys of the cache a file may change, besides its own marker.\<close>

definition file_keys :: "Collector \<Rightarrow> string \<Rightarrow> string set" where
  "file_keys K i =
     {tokenCacheKey (co_conf K), ec_Name (co_conf K) @ ''_elf_malformed_'' @ i,
      ec_Name (co_conf K) @ ''_elf_unavailable_'' @ i}"

lemma file_keys_simps [simp]:
  "tokenCacheKey (co_conf K) \<in> file_keys K i" "ec_Name (co_conf K) @ ''_elf_malformed_'' @ i \<in> file_keys K i"
  "ec_Name (co_conf K) @ ''_elf_unavailable_'' @ i \<in> file_keys K i"
  by (simp_all add: file_keys_def)

lemma marker_not_file_key: "sf_id i \<Longrightarrow> processedKey K i \<notin> file_keys K j"
  by (auto simp: file_keys_def processedKey_def tokenCacheKey_def sf_id_def is_digit_def is_letter_def)

lemma watermark_not_file_key: "logFilesWatermarkKey K \<notin> file_keys K j" "logFilesWatermarkKey K \<noteq> processedKey K i"
  by (auto simp: file_keys_def logFilesWatermarkKey_def processedKey_def tokenCacheKey_def)

lemma processedKey_inject: "processedKey K i = processedKey K j \<longleftrightarrow> i = j"
  by (simp add: processedKey_def)

locale event_deps =
  named_sink C swrite lookup manifested keys_of inv + query_deps get set_val set_persistent del val Q
  for C :: codec and swrite :: "'s sink_write" and lookup manifested keys_of inv
    and get set_val set_persistent del val and Q :: "'c qenv" +
  fixes E :: "('c, 's) cenv"
  assumes env: "ce_q E = Q" "ce_codec E = C" "ce_Write E = swrite"
begin

definition stored_at :: "Collector \<Rightarrow> 's \<Rightarrow> EventLogfileRecord \<Rightarrow> time \<Rightarrow> bool" where
  "stored_at K s rec created \<longleftrightarrow>
     (\<exists>meta b ls. meta_Name meta \<in> own_names (lf_Id rec) \<and> lookup s (fst (keys_of s meta)) = Some b
        \<and> body_holds C b ls \<and> file_lines Q K rec created ls)"

text \<open>What handling the file \<open>i\<close> may change: its own objects, the cache keys in \<open>A\<close>, and the clock.\<close>

definition confined :: "Collector \<Rightarrow> string \<Rightarrow> string set \<Rightarrow> ('c, 's) cstate \<Rightarrow> ('c, 's) cstate \<Rightarrow> bool" where
  "confined K i A st st' \<longleftrightarrow>
     touches A (cs_q st) (cs_q st') \<and> (inv (cs_sink st) \<longrightarrow> inv (cs_sink st')
       \<and> (\<forall>rec created. sf_id (lf_Id rec) \<longrightarrow> lf_Id rec \<noteq> i \<longrightarrow> stored_at K (cs_sink st) rec created \<longrightarrow>
            stored_at K (cs_sink st') rec created))"

lemma confined_refl [simp]: "confined K i A st st"
  by (simp add: confined_def)

lemma confined_trans: "confined K i A st st1 \<Longrightarrow> confined K i A st1 st2 \<Longrightarrow> confined K i A st st2"
  unfolding confined_def using touches_trans by blast

lemma confined_mono: "confined K i A st st' \<Longrightarrow> A \<subseteq> B \<Longrightarrow> confined K i B st st'"
  unfolding confined_def using touches_mono by blast

lemma confined_q: "touches A (cs_q st) q \<Longrightarrow> confined K i A st (st\<lparr>cs_q := q\<rparr>)"
  by (simp add: confined_def)

lemma on_q_confined:
  "on_q f st = (r, st') \<Longrightarrow> (\<And>q. f (cs_q st) = (r, q) \<Longrightarrow> touches A (cs_q st) q) \<Longrightarrow> confined K i A st st'"
  by (auto simp: on_q_def intro: confined_q split: prod.splits)

lemma on_q_db_confined:
  "on_q (db_get Q k) st = (r1, st') \<Longrightarrow> confined K i A st st'"
  "on_q (db_set Q k v) st = (r2, st') \<Longrightarrow> k \<in> A \<Longrightarrow> confined K i A st st'"
  "on_q (db_persist Q k v) st = (r2, st') \<Longrightarrow> k \<in> A \<Longrightarrow> confined K i A st st'"
  "on_q (db_del Q k) st = (r2, st') \<Longrightarrow> k \<in> A \<Longrightarrow> confined K i A st st'"
  by (erule on_q_confined, blast intro: db_get_touches db_set_touches db_persist_touches db_del_touches)+

lemmas on_q_db_snd = on_q_db_confined [OF prod.collapse [symmetric]]

lemma disk_op_sel: "disk_op E st = (r, st') \<Longrightarrow> cs_q st' = cs_q st \<and> cs_sink st' = cs_sink st \<and> r = ce_disk E (cs_disk st)"
  by (auto simp: disk_op_def)

lemma disk_op_confined: "disk_op E st = (r, st') \<Longrightarrow> confined K i A st st'"
  using disk_op_sel [of st r st'] by (simp add: confined_def)

lemma attempt_number_confined: "attempt_number E key st = (n, st') \<Longrightarrow> confined K i A st st' \<and> cs_sink st' = cs_sink st"
proof -
  obtain r st1 where g: "on_q (db_get Q key) st = (r, st1)" by fastforce
  assume "attempt_number E key st = (n, st')"
  then have "st' = st1"
    using g by (auto simp: attempt_number_def env split: sum.splits option.splits)
  then show ?thesis
    using on_q_db_confined(1) [OF g] g by (auto simp: on_q_def split: prod.splits)
qed

lemma sink_write_confined:
  assumes w: "sink_write E c meta fill st = (r, st')" and n: "meta_Name meta \<in> own_names i" and i: "sf_id i"
  shows "confined K i A st st'"
proof -
  obtain s where s: "swrite c (cs_now st) meta fill (cs_sink st) = (r, s)"
    and st': "st' = st\<lparr>cs_sink := s, cs_q := q_tick Q (cs_q st)\<rparr>"
    using w by (auto simp: sink_write_def env split: prod.splits)
  note name = own_name_clean [OF i n]
  have "stored_at K s rec created"
    if "inv (cs_sink st)" "sf_id (lf_Id rec)" "lf_Id rec \<noteq> i" "stored_at K (cs_sink st) rec created" for rec created
  proof -
    obtain meta' b ls where m: "meta_Name meta' \<in> own_names (lf_Id rec)"
      "lookup (cs_sink st) (fst (keys_of (cs_sink st) meta')) = Some b" "body_holds C b ls"
      "file_lines Q K rec created ls"
      using \<open>stored_at K (cs_sink st) rec created\<close> unfolding stored_at_def by blast
    have "sanitize (meta_Name meta') ''object'' \<noteq> sanitize (meta_Name meta) ''object''"
      using own_name_clean(1) [OF that(2) m(1)] name(1) own_names_apart [OF that(2) i that(3) m(1) n] by simp
    then have "lookup s (fst (keys_of s meta')) = Some b"
      using other_name_kept [OF that(1) name(2) s] m(2) by simp
    with m show ?thesis unfolding stored_at_def by blast
  qed
  then show ?thesis
    using inv_write [OF _ name(3) s] st' by (simp add: confined_def)
qed

lemma sink_write_stored:
  assumes "sink_write E c meta fill st = (Inr m, st')" "inv (cs_sink st)"
    and n: "meta_Name meta \<in> own_names (lf_Id rec)" and i: "sf_id (lf_Id rec)"
    and fill: "\<And>e e'. fill e = Inr e' \<Longrightarrow> \<exists>rs. file_lines Q K rec created (map (line_of meta) rs) \<and> write_each C rs e = Inr e'"
  shows "stored_at K (cs_sink st') rec created"
proof -
  obtain s where s: "swrite c (cs_now st) meta fill (cs_sink st) = (Inr m, s)" and st': "cs_sink st' = s"
    using assms(1) by (auto simp: sink_write_def env split: prod.splits)
  from named_records [OF assms(2) own_name_clean(2) [OF i n] s fill] show ?thesis
    using n st' unfolding stored_at_def by blast
qed

lemma on_q_sink: "on_q f st = (r, st') \<Longrightarrow> cs_sink st' = cs_sink st"
  by (auto simp: on_q_def split: prod.splits)

text \<open>One step of a handler: it is confined, and when it succeeds the file is stored.\<close>

definition archives :: "Collector \<Rightarrow> EventLogfileRecord \<Rightarrow> time \<Rightarrow> string set \<Rightarrow> ('c, 's) cstate
    \<Rightarrow> goerror option \<Rightarrow> ('c, 's) cstate \<Rightarrow> bool" where
  "archives K rec created A st r st' \<longleftrightarrow>
     confined K (lf_Id rec) A st st'
     \<and> (r = None \<longrightarrow> inv (cs_sink st) \<longrightarrow> stored_at K (cs_sink st') rec created)"

lemma archives_after: "confined K (lf_Id rec) A st st1 \<Longrightarrow> archives K rec created A st1 r st' \<Longrightarrow> archives K rec created A st r st'"
  unfolding archives_def using confined_trans unfolding confined_def by blast

lemma archives_then_q:
  assumes "archives K rec created A st None st1" "on_q f st1 = (r, st')" "confined K (lf_Id rec) A st1 st'"
  shows "archives K rec created A st None st'"
  using assms on_q_sink [OF assms(2)] confined_trans unfolding archives_def by metis

lemma archives_error: "confined K (lf_Id rec) A st st' \<Longrightarrow> archives K rec created A st (Some err) st'"
  by (simp add: archives_def)

lemma sink_write_archives:
  assumes "sink_write E c meta fill st = (r, st')" "meta_Name meta \<in> own_names (lf_Id rec)" "sf_id (lf_Id rec)"
    and "\<And>e e'. fill e = Inr e' \<Longrightarrow> \<exists>rs. file_lines Q K rec created (map (line_of meta) rs) \<and> write_each C rs e = Inr e'"
  shows "archives K rec created A st (case r of Inl err \<Rightarrow> Some err | Inr m \<Rightarrow> None) st'"
  using sink_write_confined [OF assms(1-3)] sink_write_stored [OF _ _ assms(2-4)] assms(1)
  unfolding archives_def by (cases r) auto

lemma streamRawLines_lines:
  assumes "streamRawLines C now openErr content (lf_Id rec) (lf_EventType rec) reason e = Inr e'" "served Q K rec content"
  shows "\<exists>rs. file_lines Q K rec created (map (line_of (log_file_meta K rec created)) rs) \<and> write_each C rs e = Inr e'"
proof -
  have "write_each C (raw_records now (lf_Id rec) (lf_EventType rec) reason content) e = Inr e'"
    using assms(1) by (simp add: streamRawLines_def split: option.splits)
  then show ?thesis using assms(2) unfolding file_lines_def by blast
qed

lemma streamCsv_lines:
  assumes "streamCsv C now openErr content (lf_Id rec) (lf_EventType rec) (fieldMapping K (lf_EventType rec)) e = Inr e'"
    and "served Q K rec content"
  shows "\<exists>rs. file_lines Q K rec created (map (line_of (log_file_meta K rec created)) rs) \<and> write_each C rs e = Inr e'"
  using streamCsv_records [OF assms(1)] assms(2) unfolding file_lines_def by blast

lemma handleMalformed_archives:
  assumes "handleMalformed E K c rec (log_file_meta K rec created) content cause st = (r, st')"
    and "sf_id (lf_Id rec)" "served Q K rec content"
  shows "archives K rec created (file_keys K (lf_Id rec)) st r st'"
proof -
  let ?key = "ec_Name (co_conf K) @ ''_elf_malformed_'' @ lf_Id rec" and ?A = "file_keys K (lf_Id rec)"
  obtain n st1 where n: "attempt_number E ?key st = (n, st1)" by fastforce
  note c1 = attempt_number_confined [OF n, THEN conjunct1, of K "lf_Id rec" ?A]
  show ?thesis
  proof (cases "n < malformedAttempts K")
    case True
    then have r: "r \<noteq> None" "st' = snd (on_q (db_set Q ?key (Itoa n)) st1)"
      using assms(1) n by (auto simp: handleMalformed_def env)
    have "confined K (lf_Id rec) ?A st1 st'"
      unfolding r(2) by (rule on_q_db_snd(2)) (simp add: file_keys_def)
    then show ?thesis using c1 confined_trans r(1) by (auto intro: archives_error)
  next
    case False
    obtain oe st2 where d: "disk_op E st1 = (oe, st2)" by fastforce
    let ?m = "quarantine_meta (ce_text E cause) n (log_file_meta K rec created)"
    obtain r3 st3 where w: "sink_write E c ?m
        (streamRawLines C (cs_now st2) oe content (lf_Id rec) (lf_EventType rec) (ce_text E cause)) st2 = (r3, st3)"
      by fastforce
    have a3: "archives K rec created ?A st2 (case r3 of Inl err \<Rightarrow> Some err | Inr m \<Rightarrow> None) st3"
      using sink_write_archives [OF w] streamRawLines_lines [OF _ assms(3)] assms(2) by simp
    note a = archives_after [OF c1 archives_after [OF disk_op_confined [OF d] a3]]
    show ?thesis
    proof (cases r3)
      case (Inl err)
      then have "st' = st3" "r \<noteq> None"
        using assms(1) n False d w by (auto simp: handleMalformed_def env)
      then show ?thesis using a by (auto simp: archives_def)
    next
      case (Inr m)
      then have st': "st' = snd (on_q (db_del Q ?key) st3)" "r = None"
        using assms(1) n False d w by (auto simp: handleMalformed_def env)
      have "confined K (lf_Id rec) ?A st3 st'"
        unfolding st'(1) by (rule on_q_db_snd(4)) (simp add: file_keys_def)
      then show ?thesis
        using archives_then_q [of K rec created ?A st st3 "db_del Q ?key" _ st'] a Inr st' by (metis old.sum.simps(6) prod.collapse)
    qed
  qed
qed

lemma tombstone_lines:
  assumes "refused Q K rec"
    "write_each C [tombstone rec created reason n] e = Inr e'"
  shows "\<exists>rs. file_lines Q K rec created (map (line_of (log_file_meta K rec created)) rs) \<and> write_each C rs e = Inr e'"
  using assms unfolding file_lines_def by (intro exI [of _ "[tombstone rec created reason n]"]) auto

lemma handleDownloadFailure_archives:
  assumes "handleDownloadFailure E K c rec created cause st = (r, st')" "sf_id (lf_Id rec)"
    and ref: "permanent_failure cause \<Longrightarrow> refused Q K rec"
  shows "archives K rec created (file_keys K (lf_Id rec)) st r st'"
proof (cases "permanent_failure cause")
  case False
  then show ?thesis using assms(1) by (auto simp: handleDownloadFailure_def intro: archives_error)
next
  case True
  let ?key = "ec_Name (co_conf K) @ ''_elf_unavailable_'' @ lf_Id rec" and ?A = "file_keys K (lf_Id rec)"
  obtain n st1 where n: "attempt_number E ?key st = (n, st1)" by fastforce
  note c1 = attempt_number_confined [OF n, THEN conjunct1, of K "lf_Id rec" ?A]
  show ?thesis
  proof (cases "n < unavailableAttempts K")
    case less: True
    then have r: "r \<noteq> None" "st' = snd (on_q (db_set Q ?key (Itoa n)) st1)"
      using assms(1) n True by (auto simp: handleDownloadFailure_def env)
    have "confined K (lf_Id rec) ?A st1 st'"
      unfolding r(2) by (rule on_q_db_snd(2)) (simp add: file_keys_def)
    then show ?thesis using c1 confined_trans r(1) by (auto intro: archives_error)
  next
    case False
    let ?m = "unavailable_meta K rec created (ce_text E cause) n"
    obtain r3 st3 where w: "sink_write E c ?m
        (write_each C [tombstone rec created (ce_text E cause) n]) st1 = (r3, st3)" by fastforce
    have a3: "archives K rec created ?A st1 (case r3 of Inl err \<Rightarrow> Some err | Inr m \<Rightarrow> None) st3"
      using sink_write_archives [OF w] tombstone_lines [OF ref [OF True]] assms(2) by simp
    note a = archives_after [OF c1 a3]
    show ?thesis
    proof (cases r3)
      case (Inl err)
      then have "st' = st3" "r \<noteq> None"
        using assms(1) n False w True by (auto simp: handleDownloadFailure_def env)
      then show ?thesis using a by (auto simp: archives_def)
    next
      case (Inr m)
      then have st': "st' = snd (on_q (db_del Q ?key) st3)" "r = None"
        using assms(1) n False w True by (auto simp: handleDownloadFailure_def env)
      have "confined K (lf_Id rec) ?A st3 st'"
        unfolding st'(1) by (rule on_q_db_snd(4)) (simp add: file_keys_def)
      then show ?thesis
        using archives_then_q [of K rec created ?A st st3 "db_del Q ?key" _ st'] a Inr st' by (metis old.sum.simps(6) prod.collapse)
    qed
  qed
qed

lemma archiveLogFile_archives:
  assumes "archiveLogFile E K c rec created st = (r, st')" "sf_id (lf_Id rec)"
    and foreign: "foreign_errors Q (ce_disk E)"
  shows "archives K rec created (file_keys K (lf_Id rec)) st r st'"
proof -
  let ?A = "file_keys K (lf_Id rec)"
  obtain ce st1 where d1: "disk_op E st = (ce, st1)" by fastforce
  obtain cl st2 where d2: "disk_op E st1 = (cl, st2)" by fastforce
  note faults = disk_op_sel [OF d1] disk_op_sel [OF d2]
  obtain r3 st3 where dl: "on_q (DownloadCsvFile Q (co_conf K) ce cl rec) st2 = (r3, st3)" by fastforce
  then obtain q where q: "DownloadCsvFile Q (co_conf K) ce cl rec (cs_q st2) = (r3, q)"
    by (auto simp: on_q_def split: prod.splits)
  have c2: "confined K (lf_Id rec) ?A st st2"
    using confined_trans [OF disk_op_confined [OF d1] disk_op_confined [OF d2]] .
  have c3: "confined K (lf_Id rec) ?A st2 st3"
    by (rule on_q_confined [OF dl]) (rule DownloadCsvFile_touches, assumption, simp)
  note after = archives_after [OF c2 archives_after [OF c3]]
  show ?thesis
  proof (cases r3)
    case (Inl err)
    then have "handleDownloadFailure E K c rec created err st3 = (r, st')"
      using assms(1) d1 d2 dl by (simp add: archiveLogFile_def env)
    moreover have "refused Q K rec" if "permanent_failure err"
      using DownloadCsvFile_refused [of Q K "ce_disk E"] q faults that foreign Inl by metis
    ultimately show ?thesis
      using handleDownloadFailure_archives [OF _ assms(2)] after by blast
  next
    case (Inr content)
    have served: "served Q K rec content" using DownloadCsvFile_served q Inr by blast
    obtain oe st4 where d4: "disk_op E st3 = (oe, st4)" by fastforce
    let ?m = "log_file_meta K rec created"
    obtain r5 st5 where w: "sink_write E c ?m (streamCsv C (cs_now st4) oe content (lf_Id rec) (lf_EventType rec)
        (fieldMapping K (lf_EventType rec))) st4 = (r5, st5)" by fastforce
    have a5: "archives K rec created ?A st3 (case r5 of Inl err \<Rightarrow> Some err | Inr m \<Rightarrow> None) st5"
      using archives_after [OF disk_op_confined [OF d4]]
        sink_write_archives [OF w] streamCsv_lines [OF _ served] assms(2) by simp
    show ?thesis
    proof (cases r5)
      case (Inr m)
      then have "r = None" "st' = st5"
        using assms(1) d1 d2 dl d4 w \<open>r3 = Inr content\<close> by (simp_all add: archiveLogFile_def env)
      then show ?thesis using after a5 Inr by simp
    next
      case (Inl err)
      then have rest: "(case errors_as is_MalformedCsv err of
            Some malformed \<Rightarrow> handleMalformed E K c rec ?m content malformed st5
          | None \<Rightarrow> (Some err, st5)) = (r, st')"
        using assms(1) d1 d2 dl d4 w \<open>r3 = Inr content\<close> by (simp add: archiveLogFile_def env)
      have c5: "confined K (lf_Id rec) ?A st3 st5" using a5 by (simp add: archives_def)
      show ?thesis
      proof (cases "errors_as is_MalformedCsv err")
        case None
        then show ?thesis using rest after a5 Inl by simp
      next
        case (Some malformed)
        then show ?thesis
          using rest handleMalformed_archives [OF _ assms(2) served] archives_after [OF c5] after by simp
      qed
    qed
  qed
qed

end

section \<open>The loop over the listed files\<close>

text \<open>How far the watermark has moved after some files.\<close>

definition reach :: "time \<Rightarrow> EventLogfileRecord list \<Rightarrow> time" where
  "reach wm recs =
     fold (\<lambda>rec w. case parseSFDate (lf_CreatedDate rec) of Some created \<Rightarrow> max w created | None \<Rightarrow> w) recs wm"

lemma reach_simps [simp]: "reach wm [] = wm"
  "reach wm (rec # recs) =
     reach (case parseSFDate (lf_CreatedDate rec) of Some created \<Rightarrow> max wm created | None \<Rightarrow> wm) recs"
  by (simp_all add: reach_def)

lemma reach_cases:
  "reach wm recs = wm \<or> (\<exists>rec \<in> set recs. parseSFDate (lf_CreatedDate rec) = Some (reach wm recs))"
proof (induction recs arbitrary: wm)
  case (Cons rec recs)
  show ?case
  proof (cases "parseSFDate (lf_CreatedDate rec)")
    case None
    then show ?thesis using Cons [of wm] by auto
  next
    case (Some created)
    then show ?thesis using Cons [of "max wm created"] by (auto simp: max_def split: if_splits)
  qed
qed simp

context event_deps
begin

definition marked :: "Collector \<Rightarrow> ('c, 's) cstate \<Rightarrow> EventLogfileRecord \<Rightarrow> bool" where
  "marked K st rec \<longleftrightarrow> val (cs_now st) (q_db (cs_q st)) (processedKey K (lf_Id rec)) \<noteq> None"

definition handled :: "Collector \<Rightarrow> ('c, 's) cstate \<Rightarrow> ('c, 's) cstate \<Rightarrow> EventLogfileRecord \<Rightarrow> bool" where
  "handled K st st' rec \<longleftrightarrow>
     (\<exists>created. parseSFDate (lf_CreatedDate rec) = Some created
        \<and> (marked K st rec \<or> stored_at K (cs_sink st') rec created))"

abbreviation own_keys :: "Collector \<Rightarrow> string \<Rightarrow> string set" where
  "own_keys K i \<equiv> insert (processedKey K i) (file_keys K i)"

definition collected :: "Collector \<Rightarrow> EventLogfileRecord list \<Rightarrow> time \<Rightarrow> ('c, 's) cstate
    \<Rightarrow> goerror option \<Rightarrow> ('c, 's) cstate \<Rightarrow> EventLogfileRecord list \<Rightarrow> bool" where
  "collected K recs wm st r st' pre \<longleftrightarrow>
     (\<exists>post. recs = pre @ post) \<and> (r = None \<longrightarrow> pre = recs)
     \<and> inv (cs_sink st') \<and> cs_now st \<le> cs_now st'
     \<and> (\<forall>rec \<in> set pre. handled K st st' rec)
     \<and> (\<forall>rec created. sf_id (lf_Id rec) \<longrightarrow> lf_Id rec \<notin> lf_Id ` set recs \<longrightarrow>
          stored_at K (cs_sink st) rec created \<longrightarrow> stored_at K (cs_sink st') rec created)
     \<and> (\<forall>t \<ge> cs_now st'. val t (q_db (cs_q st')) (logFilesWatermarkKey K)
            = val t (q_db (cs_q st)) (logFilesWatermarkKey K)
          \<or> val t (q_db (cs_q st')) (logFilesWatermarkKey K) = Some (Itoa (unix_milli (reach wm pre))))"

lemma confined_now: "confined K i A st st' \<Longrightarrow> cs_now st \<le> cs_now st'"
  by (simp add: confined_def touches_def cs_now_def)

lemma confined_val:
  "confined K i A st st' \<Longrightarrow> k \<notin> A \<Longrightarrow> cs_now st' \<le> t \<Longrightarrow> val t (q_db (cs_q st')) k = val t (q_db (cs_q st)) k"
  by (simp add: confined_def touches_def cs_now_def)

lemma confined_marked:
  assumes "confined K i (own_keys K i) st st'" "sf_id (lf_Id rec)" "lf_Id rec \<noteq> i" "marked K st' rec"
  shows "marked K st rec"
proof -
  have "processedKey K (lf_Id rec) \<notin> own_keys K i"
    using marker_not_file_key [OF assms(2)] assms(3) by (simp add: processedKey_inject)
  from confined_val [OF assms(1) this order_refl] have
    "val (cs_now st') (q_db (cs_q st)) (processedKey K (lf_Id rec)) \<noteq> None"
    using assms(4) by (simp add: marked_def)
  then show ?thesis
    using expired [where t = "cs_now st" and t' = "cs_now st'" and c = "q_db (cs_q st)"
        and k = "processedKey K (lf_Id rec)"] confined_now [OF assms(1)]
    by (cases "val (cs_now st) (q_db (cs_q st)) (processedKey K (lf_Id rec))") (simp_all add: marked_def)
qed

text \<open>The poll ends with the watermark written, or without.\<close>

lemma collected_end:
  assumes inv: "inv (cs_sink st)" and c0: "confined K i (own_keys K i) st0 st"
    and stored: "\<And>rec created. sf_id (lf_Id rec) \<Longrightarrow> lf_Id rec \<notin> lf_Id ` set recs \<Longrightarrow>
      stored_at K (cs_sink st0) rec created \<Longrightarrow> stored_at K (cs_sink st) rec created"
    and r: "r = None \<Longrightarrow> recs = []"
    and st': "st' = st \<or> st' = setWatermark E (logFilesWatermarkKey K) wm st"
  shows "collected K recs wm st0 r st' []"
proof -
  let ?W = "logFilesWatermarkKey K"
  have notin: "?W \<notin> own_keys K i" using watermark_not_file_key by auto
  obtain r1 st1 where p: "on_q (db_persist Q ?W (Itoa (unix_milli wm))) st = (r1, st1)" by fastforce
  have st1: "setWatermark E ?W wm st = st1" using p by (simp add: setWatermark_def env)
  have "cs_now st \<le> cs_now st1"
    using confined_now [OF on_q_db_confined(3) [OF p, where A = "{?W}"]] by simp
  moreover have "val t (q_db (cs_q st1)) ?W = val t (q_db (cs_q st)) ?W
      \<or> val t (q_db (cs_q st1)) ?W = Some (Itoa (unix_milli wm))" if "cs_now st1 \<le> t" for t
    using p that db_persist_val by (fastforce simp: on_q_def cs_now_def split: prod.splits)
  ultimately have end_now: "cs_now st \<le> cs_now st'" and end_sink: "cs_sink st' = cs_sink st"
    and end_val: "\<And>t. cs_now st' \<le> t \<Longrightarrow> val t (q_db (cs_q st')) ?W = val t (q_db (cs_q st)) ?W
      \<or> val t (q_db (cs_q st')) ?W = Some (Itoa (unix_milli wm))"
    using st' st1 on_q_sink [OF p] by auto
  have "val t (q_db (cs_q st')) ?W = val t (q_db (cs_q st0)) ?W
      \<or> val t (q_db (cs_q st')) ?W = Some (Itoa (unix_milli wm))" if "cs_now st' \<le> t" for t
    using end_val [OF that] confined_val [OF c0 notin, of t] end_now that by simp
  moreover have "cs_now st0 \<le> cs_now st'" using confined_now [OF c0] end_now by simp
  ultimately show ?thesis
    unfolding collected_def using inv stored r end_sink by simp
qed

lemma collected_step:
  assumes rest: "collected K recs (case parseSFDate (lf_CreatedDate rec) of Some created \<Rightarrow> max wm created | None \<Rightarrow> wm)
      st1 r st' pre"
    and c: "confined K (lf_Id rec) (own_keys K (lf_Id rec)) st st1" and inv: "inv (cs_sink st)"
    and fin: "parseSFDate (lf_CreatedDate rec) = Some created"
      "marked K st rec \<or> stored_at K (cs_sink st1) rec created"
    and ids: "sf_id (lf_Id rec)" "lf_Id rec \<notin> lf_Id ` set recs" "\<forall>x \<in> set recs. sf_id (lf_Id x)"
  shows "collected K (rec # recs) wm st r st' (rec # pre)"
proof -
  have notin: "logFilesWatermarkKey K \<notin> own_keys K (lf_Id rec)" using watermark_not_file_key by auto
  have stored: "stored_at K (cs_sink st') x cr"
    if "sf_id (lf_Id x)" "lf_Id x \<notin> lf_Id ` set recs" "stored_at K (cs_sink st1) x cr" for x cr
    using rest that unfolding collected_def by blast
  have "handled K st st' rec"
    unfolding handled_def using fin stored [OF ids(1,2)] by blast
  moreover have "handled K st st' x" if "x \<in> set pre" for x
  proof -
    have x: "x \<in> set recs" "handled K st1 st' x" using rest that unfolding collected_def by auto
    then have "sf_id (lf_Id x)" "lf_Id x \<noteq> lf_Id rec" using ids by (blast, metis image_eqI)
    then show ?thesis using x(2) confined_marked [OF c] unfolding handled_def by blast
  qed
  moreover have "stored_at K (cs_sink st') x cr"
    if "sf_id (lf_Id x)" "lf_Id x \<notin> lf_Id ` set (rec # recs)" "stored_at K (cs_sink st) x cr" for x cr
    using that inv c stored unfolding confined_def by simp
  moreover have "cs_now st \<le> cs_now st'"
    using confined_now [OF c] rest unfolding collected_def by simp
  moreover have "val t (q_db (cs_q st')) (logFilesWatermarkKey K) = val t (q_db (cs_q st)) (logFilesWatermarkKey K)
      \<or> val t (q_db (cs_q st')) (logFilesWatermarkKey K) = Some (Itoa (unix_milli (reach wm (rec # pre))))"
    if "cs_now st' \<le> t" for t
  proof -
    have "cs_now st1 \<le> t" using rest that unfolding collected_def by simp
    from confined_val [OF c notin this] show ?thesis
      using rest that unfolding collected_def by auto
  qed
  ultimately show ?thesis using rest unfolding collected_def by auto
qed

lemma isProcessed_confined:
  assumes "isProcessed E key st = (b, st1)"
  shows "confined K i A st st1 \<and> cs_sink st1 = cs_sink st \<and> (b \<longrightarrow> val (cs_now st) (q_db (cs_q st)) key \<noteq> None)"
proof -
  obtain r where g: "on_q (db_get Q key) st = (r, st1)"
    using assms by (auto simp: isProcessed_def env split: prod.splits sum.splits)
  then obtain q where q: "db_get Q key (cs_q st) = (r, q)" by (auto simp: on_q_def split: prod.splits)
  have "val (cs_now st) (q_db (cs_q st)) key \<noteq> None" if b
    using assms g q db_get_val [of key "cs_q st"] that
    by (auto simp: isProcessed_def env cs_now_def split: sum.splits)
  then show ?thesis using on_q_db_confined(1) [OF g] on_q_sink [OF g] by blast
qed

lemma collect_files_collected:
  assumes "collect_files E K c recs wm st = (r, st')" "inv (cs_sink st)"
    and "distinct (map lf_Id recs)" "\<forall>x \<in> set recs. sf_id (lf_Id x)"
    and foreign: "foreign_errors Q (ce_disk E)"
  shows "\<exists>pre. collected K recs wm st r st' pre"
  using assms(1-4)
proof (induction recs arbitrary: wm st)
  case Nil
  then show ?case
    using collected_end [of st K "[]" st "[]" r st' wm] by (auto split: if_splits)
next
  case (Cons rec recs)
  let ?i = "lf_Id rec"
  have ids: "sf_id ?i" "?i \<notin> lf_Id ` set recs" "\<forall>x \<in> set recs. sf_id (lf_Id x)" using Cons.prems by auto
  show ?case
  proof (cases "parseSFDate (lf_CreatedDate rec)")
    case None
    then show ?thesis
      using Cons.prems collected_end [of st K ?i st "rec # recs" r st' wm] by auto
  next
    case (Some created)
    obtain b st1 where p: "isProcessed E (processedKey K ?i) st = (b, st1)" by fastforce
    note c1 = isProcessed_confined [OF p, of K ?i "own_keys K ?i"]
    have inv1: "inv (cs_sink st1)" using c1 Cons.prems(2) by simp
    have max: "max wm created = (if wm < created then created else wm)" by simp
    show ?thesis
    proof (cases b)
      case True
      have "collect_files E K c recs (max wm created) st1 = (r, st')"
        using Cons.prems(1) Some p True max by (simp add: Let_def)
      from Cons.IH [OF this inv1] obtain pre where "collected K recs (max wm created) st1 r st' pre"
        using Cons.prems by auto
      then show ?thesis
        using collected_step [where K = K and recs = recs and rec = rec and wm = wm and r = r and pre = pre and st' = st'
              and st = st and created = created and ?st1.0 = st1] c1 Some True Cons.prems(2) ids
        by (auto simp: marked_def)
    next
      case False
      obtain r2 st2 where a: "archiveLogFile E K c rec created st1 = (r2, st2)" by fastforce
      note ar = archiveLogFile_archives [OF a ids(1) foreign]
      have c2: "confined K ?i (own_keys K ?i) st st2"
        using c1 ar confined_mono [of K ?i "file_keys K ?i" st1 st2 "own_keys K ?i"] confined_trans
        unfolding archives_def by blast
      have inv2: "inv (cs_sink st2)" using c2 Cons.prems(2) unfolding confined_def by blast
      show ?thesis
      proof (cases r2)
        case (Some err)
        have "r \<noteq> None" "st' = st2 \<or> st' = setWatermark E (logFilesWatermarkKey K) wm st2"
          using Cons.prems(1) \<open>parseSFDate (lf_CreatedDate rec) = Some created\<close> p False a Some
          by (auto simp: Let_def)
        moreover have "stored_at K (cs_sink st2) x cr"
          if "sf_id (lf_Id x)" "lf_Id x \<notin> lf_Id ` set (rec # recs)" "stored_at K (cs_sink st) x cr" for x cr
          using c2 Cons.prems(2) that unfolding confined_def by simp
        ultimately have "collected K (rec # recs) wm st r st' []"
          using collected_end [OF inv2 c2, of "rec # recs" r st' wm] by blast
        then show ?thesis by blast
      next
        case None
        obtain r3 st3 where m: "on_q (db_set Q (processedKey K ?i) ''1'') st2 = (r3, st3)" by fastforce
        have st3: "markProcessed E (processedKey K ?i) st2 = st3" "cs_sink st3 = cs_sink st2"
          using m on_q_sink [OF m] by (simp_all add: markProcessed_def env)
        have c3: "confined K ?i (own_keys K ?i) st st3"
          using confined_trans [OF c2 on_q_db_confined(2) [OF m]] by simp
        have "collect_files E K c recs (max wm created) st3 = (r, st')"
          using Cons.prems(1) Some p False a None max st3(1) by (simp add: Let_def)
        from Cons.IH [OF this] obtain pre where "collected K recs (max wm created) st3 r st' pre"
          using Cons.prems inv2 st3(2) by auto
        then show ?thesis
          using collected_step [where K = K and recs = recs and rec = rec and wm = wm and r = r and pre = pre and st' = st'
              and st = st and created = created and ?st1.0 = st3] c3 Some Cons.prems(2) ids
            ar inv1 None st3(2) unfolding archives_def by auto
      qed
    qed
  qed
qed

section \<open>The next poll's window\<close>

lemma since_stored:
  assumes "since E K key st = (Inr (start, cur), st1)"
    and "val (cs_now st) (q_db (cs_q st)) key = Some s" "ParseInt s = Some ms"
  shows "start = UnixMilli ms - overlap K \<and> cur = Some (UnixMilli ms)"
proof -
  obtain r st2 where g: "on_q (db_get Q key) st = (r, st2)" by fastforce
  then obtain q where q: "db_get Q key (cs_q st) = (r, q)" by (auto simp: on_q_def split: prod.splits)
  obtain v where v: "r = Inr v" using assms(1) g by (cases r) (auto simp: since_def watermark_def env)
  have "v = Some s" using db_get_val q v assms(2) by (simp add: cs_now_def)
  moreover have "s \<noteq> []" using assms(3) by (auto simp: ParseInt_def parse_digits_def)
  ultimately show ?thesis
    using assms(1,3) g v by (simp add: since_def watermark_def env)
qed

lemma since_confined: "since E K key st = (r, st1) \<Longrightarrow> confined K i A st st1 \<and> cs_sink st1 = cs_sink st"
proof -
  assume s: "since E K key st = (r, st1)"
  obtain r2 st2 where g: "on_q (db_get Q key) st = (r2, st2)" by fastforce
  have "st1 = st2"
    using s g by (auto simp: since_def watermark_def env Let_def split: sum.splits option.splits if_splits)
  then show ?thesis using on_q_db_confined(1) [OF g] on_q_sink [OF g] by blast
qed

lemma RequestLogFiles_confined:
  assumes "on_q (RequestLogFiles Q (co_conf K) start until) st = (r, st1)" "tokenCacheKey (co_conf K) \<in> A"
  shows "confined K i A st st1 \<and> cs_sink st1 = cs_sink st"
  using on_q_confined [OF assms(1)] follow_pages_touches assms(2) on_q_sink [OF assms(1)]
  unfolding RequestLogFiles_def by blast

lemma collectLogFiles_unfold:
  assumes "collectLogFiles E K c st = (r, st')"
    and "since E K (logFilesWatermarkKey K) st = (Inr (start, cur), st1)"
    and "on_q (RequestLogFiles Q (co_conf K) start (truncate_second (cs_now st1))) st1 = (Inr records, st2)"
  shows "collect_files E K c records (case cur of Some wm \<Rightarrow> wm | None \<Rightarrow> zero_time) st2 = (r, st')"
  using assms by (simp add: collectLogFiles_def env)

end

text \<open>What the server promises of a listing: see the query's WHERE and ORDER BY clauses.\<close>

definition listing_ok :: "time \<Rightarrow> EventLogfileRecord list \<Rightarrow> bool" where
  "listing_ok start recs \<longleftrightarrow>
     distinct (map lf_Id recs) \<and> (\<forall>rec \<in> set recs. sf_id (lf_Id rec))
     \<and> sorted (map (\<lambda>rec. the (parseSFDate (lf_CreatedDate rec))) recs)
     \<and> (\<forall>rec \<in> set recs. \<exists>created. parseSFDate (lf_CreatedDate rec) = Some created
          \<and> truncate_second start \<le> created)"

lemma truncate_second_mono: "s \<le> t \<Longrightarrow> truncate_second s \<le> truncate_second t"
proof -
  have "truncate_second u = zero_time + (u - zero_time) div second * second" for u
    by (simp add: truncate_second_def minus_mod_eq_div_mult [symmetric])
  moreover assume "s \<le> t"
  then have "(s - zero_time) div second * second \<le> (t - zero_time) div second * second"
    by (intro mult_right_mono zdiv_mono1) (simp_all add: second_def)
  ultimately show ?thesis by simp
qed

lemma overlap_nonneg: "0 \<le> overlap K"
  by (simp add: overlap_def defaultOverlap_def minute_def)

lemma ParseInt_Itoa_only: "ParseInt (Itoa i) = Some j \<Longrightarrow> j = i"
proof (cases "i < 0")
  case True
  then show "ParseInt (Itoa i) = Some j \<Longrightarrow> j = i"
    by (auto simp: ParseInt_def Itoa_def split: if_splits)
next
  case False
  obtain c r where "dec_digits (nat i) = c # r" "is_digit c" by (rule dec_digits_hd)
  moreover from this have "parse_digits (c # r) = Some (nat i)"
    using parse_dec_digits [of "nat i"] by simp
  moreover assume "ParseInt (Itoa i) = Some j"
  ultimately show ?thesis
    using False not_digit_sign by (auto simp: ParseInt_def Itoa_def split: if_splits)
qed

context event_deps
begin

lemma listed_files:
  assumes "collect_files E K c records wm st2 = (r, st')" "inv (cs_sink st2)" "listing_ok start records"
    and "rec \<in> set records" and foreign: "foreign_errors Q (ce_disk E)"
  shows "cs_now st2 \<le> cs_now st'" and "handled K st2 st' rec \<or> r \<noteq> None \<and>
    (\<forall>t \<ge> cs_now st'. \<exists>W. (W = wm \<or> W \<le> the (parseSFDate (lf_CreatedDate rec)))
       \<and> (val t (q_db (cs_q st')) (logFilesWatermarkKey K) = val t (q_db (cs_q st2)) (logFilesWatermarkKey K)
          \<or> val t (q_db (cs_q st')) (logFilesWatermarkKey K) = Some (Itoa (unix_milli W))))"
proof -
  have ids: "distinct (map lf_Id records)" "\<forall>x \<in> set records. sf_id (lf_Id x)"
    using assms(3) by (auto simp: listing_ok_def)
  obtain pre where pre: "collected K records wm st2 r st' pre"
    using collect_files_collected [OF assms(1,2) ids foreign] by blast
  then obtain post where post: "records = pre @ post" unfolding collected_def by blast
  show "cs_now st2 \<le> cs_now st'" using pre unfolding collected_def by blast
  show "handled K st2 st' rec \<or> r \<noteq> None \<and>
    (\<forall>t \<ge> cs_now st'. \<exists>W. (W = wm \<or> W \<le> the (parseSFDate (lf_CreatedDate rec)))
       \<and> (val t (q_db (cs_q st')) (logFilesWatermarkKey K) = val t (q_db (cs_q st2)) (logFilesWatermarkKey K)
          \<or> val t (q_db (cs_q st')) (logFilesWatermarkKey K) = Some (Itoa (unix_milli W))))"
  proof (cases "rec \<in> set pre")
    case True
    then show ?thesis using pre unfolding collected_def by blast
  next
    case False
    then have "rec \<in> set post" "r \<noteq> None" using assms(4) post pre unfolding collected_def by auto
    have "the (parseSFDate (lf_CreatedDate x)) \<le> the (parseSFDate (lf_CreatedDate rec))" if "x \<in> set pre" for x
      using assms(3) post that \<open>rec \<in> set post\<close> by (auto simp: listing_ok_def sorted_append)
    then have "reach wm pre = wm \<or> reach wm pre \<le> the (parseSFDate (lf_CreatedDate rec))"
      using reach_cases [of wm pre] by (metis option.sel)
    then show ?thesis
      using pre \<open>r \<noteq> None\<close> unfolding collected_def by blast
  qed
qed

lemma since_written:
  assumes "since E K key st = (Inr (start, cur), st1)"
    and "val (cs_now st) (q_db (cs_q st)) key = Some (Itoa i)"
  shows "start = UnixMilli i - overlap K"
proof (cases "ParseInt (Itoa i)")
  case None
  obtain r st2 where g: "on_q (db_get Q key) st = (r, st2)" by fastforce
  then obtain q where q: "db_get Q key (cs_q st) = (r, q)" by (auto simp: on_q_def split: prod.splits)
  obtain v where v: "r = Inr v" using assms(1) g by (cases r) (auto simp: since_def watermark_def env)
  have "v = Some (Itoa i)" using db_get_val q v assms(2) by (simp add: cs_now_def)
  then show ?thesis using assms(1) g v None by (simp add: since_def watermark_def env)
next
  case (Some ms)
  then show ?thesis using since_stored [OF assms Some] ParseInt_Itoa_only [OF Some] by simp
qed

lemma next_window:
  assumes poll: "collectLogFiles E K c st = (r, st')" and inv: "inv (cs_sink st)"
    and start: "since E K (logFilesWatermarkKey K) st = (Inr (start, cur), st1)"
    and list: "on_q (RequestLogFiles Q (co_conf K) start (truncate_second (cs_now st1))) st1 = (Inr records, st2)"
    and ok: "listing_ok start records" and rec: "rec \<in> set records"
    and foreign: "foreign_errors Q (ce_disk E)"
    and stored: "\<And>t. cs_now st \<le> t \<Longrightarrow> val t (q_db (cs_q st)) (logFilesWatermarkKey K) = Some s0"
      "ParseInt s0 = Some ms0"
    and later: "q_db (cs_q st3) = q_db (cs_q st')" "cs_now st' \<le> cs_now st3"
      "since E K (logFilesWatermarkKey K) st3 = (Inr (start', cur'), st4)"
  shows "handled K st2 st' rec
    \<or> r \<noteq> None \<and> truncate_second start' \<le> the (parseSFDate (lf_CreatedDate rec))"
proof -
  let ?W = "logFilesWatermarkKey K" and ?created = "the (parseSFDate (lf_CreatedDate rec))"
  let ?A = "{tokenCacheKey (co_conf K)}"
  have s1: "confined K [] ?A st st1" "cs_sink st1 = cs_sink st" using since_confined [OF start] by simp_all
  have s2: "confined K [] ?A st1 st2" "cs_sink st2 = cs_sink st1"
    using RequestLogFiles_confined [OF list, of ?A] by simp_all
  have c: "confined K [] ?A st st2" by (rule confined_trans [OF s1(1) s2(1)])
  have notin: "?W \<notin> ?A" using watermark_not_file_key(1) [of K "[]"] by (auto simp: file_keys_def)
  have first: "start = UnixMilli ms0 - overlap K" "cur = Some (UnixMilli ms0)"
    using since_stored [OF start stored(1) stored(2)] by simp_all
  have inv2: "inv (cs_sink st2)" using s1 s2 inv by simp
  have loop: "collect_files E K c records (UnixMilli ms0) st2 = (r, st')"
    using collectLogFiles_unfold [OF poll start list] first by simp
  from listed_files(2) [OF loop inv2 ok rec foreign] show ?thesis
  proof (elim disjE conjE)
    assume "r \<noteq> None" and ends: "\<forall>t \<ge> cs_now st'. \<exists>W. (W = UnixMilli ms0 \<or> W \<le> ?created)
       \<and> (val t (q_db (cs_q st')) ?W = val t (q_db (cs_q st2)) ?W
          \<or> val t (q_db (cs_q st')) ?W = Some (Itoa (unix_milli W)))"
    obtain W where W: "W = UnixMilli ms0 \<or> W \<le> ?created"
      "val (cs_now st3) (q_db (cs_q st')) ?W = val (cs_now st3) (q_db (cs_q st2)) ?W
        \<or> val (cs_now st3) (q_db (cs_q st')) ?W = Some (Itoa (unix_milli W))"
      using ends later(2) by blast
    have now: "cs_now st \<le> cs_now st2" "cs_now st2 \<le> cs_now st3"
      using confined_now [OF c] listed_files(1) [OF loop inv2 ok rec foreign] later(2) by simp_all
    have old: "val (cs_now st3) (q_db (cs_q st2)) ?W = Some s0"
      using confined_val [OF c notin now(2)] stored(1) now by simp
    have created: "truncate_second start \<le> ?created"
      using ok rec by (fastforce simp: listing_ok_def)
    have "truncate_second start' \<le> ?created"
    proof (cases "val (cs_now st3) (q_db (cs_q st')) ?W = Some s0")
      case True
      then have "start' = start"
        using since_stored [OF later(3) _ stored(2)] later(1) first(1) by simp
      then show ?thesis using created by simp
    next
      case False
      then have v: "val (cs_now st3) (q_db (cs_q st3)) ?W = Some (Itoa (unix_milli W))"
        using W(2) old later(1) by simp
      have "start' = UnixMilli (unix_milli W) - overlap K" by (rule since_written [OF later(3) v])
      then have "start' \<le> W - overlap K" using UnixMilli_unix_milli_le [of W] by simp
      then have "start' \<le> start \<or> start' \<le> ?created"
        using W(1) first(1) overlap_nonneg [of K] by auto
      moreover have "truncate_second start' \<le> start'" by (rule truncate_second_le)
      ultimately show ?thesis using truncate_second_mono [of start' start] created by auto
    qed
    then show ?thesis using \<open>r \<noteq> None\<close> by simp
  qed simp
qed

end

end
