(* ===== verification/EventLog_Queries.thy ===== *)
theory EventLog_Queries
  imports EventLog_Safety
begin

text \<open>
  Custom SOQL queries: which rows a poll has archived, and which de-duplication markers it may have
  set. A marker stands for a row that is stored, also when the poll fails half way.
\<close>

section \<open>Invariant of the row loop\<close>

lemma line_of_query_meta:
  "line_of (query_meta K q start until ty) = line_of (query_meta K q start' until' ty')"
  by (rule line_of_same) (simp_all add: query_meta_def)

text \<open>A version of a row that the query would archive is a line of a stored object.\<close>

definition row_stored ::
  "codec \<Rightarrow> Collector \<Rightarrow> QueryConfig \<Rightarrow> (string \<Rightarrow> string option) \<Rightarrow> payload \<Rightarrow> bool" where
  "row_stored C K q objs row \<longleftrightarrow>
     (\<exists>now. holds C objs (line_of (query_meta K q 0 0 []) (buildCustomRecord now row q)))"

lemma row_stored_mono:
  "row_stored C K q objs row \<Longrightarrow> (\<And>k b. objs k = Some b \<Longrightarrow> objs' k = Some b) \<Longrightarrow> row_stored C K q objs' row"
  unfolding row_stored_def using holds_mono by blast

context event_deps
begin

text \<open>The key was in the cache at the start, or belongs to a stored row.\<close>

definition accounted :: "Collector \<Rightarrow> QueryConfig \<Rightarrow> ('c, 's) cstate \<Rightarrow> ('c, 's) cstate \<Rightarrow> string \<Rightarrow> bool" where
  "accounted K q st0 st k \<longleftrightarrow>
     val (cs_now st0) (q_db (cs_q st0)) k \<noteq> None
     \<or> (\<exists>row. rowDedupKey K q row = k \<and> row_stored C K q (lookup (cs_sink st)) row)"

definition markers_ok :: "Collector \<Rightarrow> QueryConfig \<Rightarrow> ('c, 's) cstate \<Rightarrow> ('c, 's) cstate \<Rightarrow> bool" where
  "markers_ok K q st0 st \<longleftrightarrow>
     inv (cs_sink st) \<and> (\<forall>t \<ge> cs_now st. \<forall>k. val t (q_db (cs_q st)) k \<noteq> None \<longrightarrow> accounted K q st0 st k)"

definition row_done :: "Collector \<Rightarrow> QueryConfig \<Rightarrow> ('c, 's) cstate \<Rightarrow> ('c, 's) cstate \<Rightarrow> payload \<Rightarrow> bool" where
  "row_done K q st0 st row \<longleftrightarrow>
     row_stored C K q (lookup (cs_sink st)) row
     \<or> rowDedupKey K q row \<noteq> [] \<and> accounted K q st0 st (rowDedupKey K q row)"

text \<open>Nothing stored is lost, and the clock moves on.\<close>

definition extends :: "('c, 's) cstate \<Rightarrow> ('c, 's) cstate \<Rightarrow> bool" where
  "extends st st' \<longleftrightarrow> (\<forall>k b. lookup (cs_sink st) k = Some b \<longrightarrow> lookup (cs_sink st') k = Some b)"

lemma extends_refl [simp]: "extends st st"
  by (simp add: extends_def)

lemma extends_trans: "extends st st1 \<Longrightarrow> extends st1 st2 \<Longrightarrow> extends st st2"
  by (simp add: extends_def)

lemma extends_stored: "extends st st' \<Longrightarrow> row_stored C K q (lookup (cs_sink st)) row \<Longrightarrow>
    row_stored C K q (lookup (cs_sink st')) row"
  by (auto simp: extends_def elim: row_stored_mono)

lemma extends_accounted: "extends st st' \<Longrightarrow> accounted K q st0 st k \<Longrightarrow> accounted K q st0 st' k"
  unfolding accounted_def using extends_stored by blast

lemma extends_done: "extends st st' \<Longrightarrow> row_done K q st0 st row \<Longrightarrow> row_done K q st0 st' row"
  unfolding row_done_def using extends_stored extends_accounted by blast

lemma markers_ok_refl:
  assumes "inv (cs_sink st)"
  shows "markers_ok K q st st"
proof -
  have "val (cs_now st) (q_db (cs_q st)) k \<noteq> None"
    if "cs_now st \<le> t" "val t (q_db (cs_q st)) k \<noteq> None" for t k
    using expired [OF _ that(1), of "q_db (cs_q st)" k] that(2) by metis
  then show ?thesis using assms unfolding markers_ok_def accounted_def by blast
qed

text \<open>An operation that only reads the cache keeps the markers.\<close>

lemma markers_ok_touches:
  assumes "markers_ok K q st0 st" "touches {} (cs_q st) (cs_q st')" "extends st st'" "inv (cs_sink st')"
  shows "markers_ok K q st0 st'"
  using assms extends_accounted unfolding markers_ok_def touches_def cs_now_def
  by (metis empty_iff order_trans)

lemma mark_val:
  fixes st st' :: "('c, 's) cstate"
  assumes "on_q (db_set Q k ''1'') st = (r, st')" "cs_now st' \<le> t" "val t (q_db (cs_q st')) j \<noteq> None"
  shows "val t (q_db (cs_q st)) j \<noteq> None \<or> j = k"
  using confined_val [OF on_q_db_confined(2) [OF assms(1), where A = "{k}"], of j t] assms(2,3) by (metis insertI1 singletonD)

lemma markProcessed_ok:
  assumes "markers_ok K q st0 st" "rowDedupKey K q row = k" "row_stored C K q (lookup (cs_sink st)) row"
  shows "markers_ok K q st0 (markProcessed E k st) \<and> cs_sink (markProcessed E k st) = cs_sink st
    \<and> cs_now st \<le> cs_now (markProcessed E k st)"
proof -
  obtain r st' where m: "on_q (db_set Q k ''1'') st = (r, st')" by fastforce
  have st': "markProcessed E k st = st'" using m by (simp add: markProcessed_def env)
  have now: "cs_now st \<le> cs_now st'" using confined_now [OF on_q_db_confined(2) [OF m, of "{k}"]] by simp
  have "accounted K q st0 st' j" if "cs_now st' \<le> t" "val t (q_db (cs_q st')) j \<noteq> None" for t j
  proof -
    have "cs_now st \<le> t" using now that(1) by simp
    then have "j = k \<or> accounted K q st0 st j"
      using mark_val [OF m that] assms(1) unfolding markers_ok_def by blast
    then show ?thesis using assms(2,3) on_q_sink [OF m] unfolding accounted_def by auto
  qed
  then show ?thesis
    using assms(1) on_q_sink [OF m] now unfolding st' markers_ok_def by auto
qed

lemma mark_all_ok:
  assumes "markers_ok K q st0 st"
    and "\<forall>k \<in> set ks. \<exists>row. rowDedupKey K q row = k \<and> row_stored C K q (lookup (cs_sink st)) row"
  shows "markers_ok K q st0 (fold (markProcessed E) ks st) \<and> cs_sink (fold (markProcessed E) ks st) = cs_sink st"
  using assms
proof (induction ks arbitrary: st)
  case (Cons k ks)
  then obtain row where row: "rowDedupKey K q row = k" "row_stored C K q (lookup (cs_sink st)) row" by auto
  note m = markProcessed_ok [OF Cons.prems(1) row]
  show ?case using Cons.IH [of "markProcessed E k st"] Cons.prems(2) m by simp
qed simp

text \<open>The rows waiting to be written, each with the instant at which its record was built.\<close>

definition pending_records :: "QueryConfig \<Rightarrow> (payload \<times> time) list \<Rightarrow> Record list" where
  "pending_records q src = map (\<lambda>(row, now). buildCustomRecord now row q) src"

definition pending_keys :: "Collector \<Rightarrow> QueryConfig \<Rightarrow> (payload \<times> time) list \<Rightarrow> string list" where
  "pending_keys K q src = filter (\<lambda>k. k \<noteq> []) (map (rowDedupKey K q \<circ> fst) src)"

lemma flush_rows_ok:
  assumes "flush_rows E K c q start until (pending_records q src) (pending_keys K q src) st = (r, st')"
    and "markers_ok K q st0 st"
  shows "markers_ok K q st0 st' \<and> extends st st'
    \<and> (r = None \<longrightarrow> (\<forall>x \<in> set src. row_stored C K q (lookup (cs_sink st')) (fst x)))"
proof (cases "src = []")
  case True
  then show ?thesis using assms by (simp add: flush_rows_def pending_records_def)
next
  case False
  let ?meta = "query_meta K q start until (rec_Type (hd (pending_records q src)))"
  have inv: "inv (cs_sink st)" using assms(2) by (simp add: markers_ok_def)
  obtain r1 st1 where w: "sink_write E c ?meta (write_each C (pending_records q src)) st = (r1, st1)" by fastforce
  then have sw: "WriteRecords C swrite c (cs_now st) ?meta (pending_records q src) (cs_sink st) = (r1, cs_sink st1)"
    by (auto simp: sink_write_def env WriteRecords_def split: prod.splits)
  have name: "meta_Name ?meta = []" by (simp add: query_meta_def)
  have ext: "extends st st1"
    using keep_generated [OF inv name] sw unfolding extends_def WriteRecords_def by blast
  have inv1: "inv (cs_sink st1)"
    using WriteRecords_inv [OF inv _ sw] name by (simp add: name_ok_def)
  have t: "touches {} (cs_q st) (cs_q st1)"
    using w by (auto simp: sink_write_def env split: prod.splits)
  have m1: "markers_ok K q st0 st1" by (rule markers_ok_touches [OF assms(2) t ext inv1])
  have ne: "pending_records q src \<noteq> []" using False by (simp add: pending_records_def)
  show ?thesis
  proof (cases r1)
    case (Inl err)
    then show ?thesis
      using assms(1) w ne m1 ext by (auto simp: flush_rows_def env)
  next
    case (Inr m)
    have stored: "row_stored C K q (lookup (cs_sink st1)) row" if "(row, now) \<in> set src" for row now
    proof -
      have "buildCustomRecord now row q \<in> set (pending_records q src)"
        using that by (force simp: pending_records_def)
      from WriteRecords_holds [OF inv sw [unfolded Inr] this] show ?thesis
        unfolding row_stored_def by (metis line_of_query_meta)
    qed
    have st': "r = None" "st' = fold (markProcessed E) (pending_keys K q src) st1"
      using assms(1) w ne Inr by (simp_all add: flush_rows_def env)
    have "\<exists>row. rowDedupKey K q row = k \<and> row_stored C K q (lookup (cs_sink st1)) row"
      if "k \<in> set (pending_keys K q src)" for k
      using that stored by (auto simp: pending_keys_def)
    then have "markers_ok K q st0 st' \<and> cs_sink st' = cs_sink st1"
      unfolding st'(2) using mark_all_ok [OF m1] by blast
    then show ?thesis using ext stored by (auto simp: extends_def)
  qed
qed

lemma pending_snoc:
  "pending_records q src @ [buildCustomRecord now row q] = pending_records q (src @ [(row, now)])"
  "(if rowDedupKey K q row = [] then pending_keys K q src else pending_keys K q src @ [rowDedupKey K q row])
     = pending_keys K q (src @ [(row, now)])"
  by (simp_all add: pending_records_def pending_keys_def)

text \<open>The check of a row's marker: what it tells, and that it changes nothing.\<close>

lemma row_check:
  assumes "(if rowDedupKey K q row = [] then (False, st) else isProcessed E (rowDedupKey K q row) st) = (b, st1)"
    and "markers_ok K q st0 st"
  shows "markers_ok K q st0 st1 \<and> cs_sink st1 = cs_sink st \<and> (b \<longrightarrow> row_done K q st0 st1 row)"
proof (cases "rowDedupKey K q row = []")
  case True
  then show ?thesis using assms by auto
next
  case False
  then have p: "isProcessed E (rowDedupKey K q row) st = (b, st1)" using assms(1) by simp
  note c = isProcessed_confined [OF p, of K "[]" "{}"]
  have ext: "extends st st1" using c by (simp add: extends_def)
  have "markers_ok K q st0 st1"
    using markers_ok_touches [OF assms(2) _ ext] c assms(2) unfolding confined_def markers_ok_def by simp
  moreover have "accounted K q st0 st (rowDedupKey K q row)" if b
    using c that assms(2) unfolding markers_ok_def by blast
  ultimately show ?thesis
    using False c extends_accounted [OF ext] unfolding row_done_def by blast
qed

lemma collect_rows_ok:
  assumes "collect_rows E K c q start until rows (pending_records q src) (pending_keys K q src) st = (r, st')"
    and "markers_ok K q st0 st"
  shows "markers_ok K q st0 st' \<and> extends st st'
    \<and> (r = None \<longrightarrow> (\<forall>row \<in> set rows. row_done K q st0 st' row)
         \<and> (\<forall>x \<in> set src. row_stored C K q (lookup (cs_sink st')) (fst x)))"
  using assms
proof (induction rows arbitrary: src st)
  case Nil
  then show ?case using flush_rows_ok by simp
next
  case (Cons row rows)
  let ?dk = "rowDedupKey K q row"
  obtain b st1 where p: "(if ?dk = [] then (False, st) else isProcessed E ?dk st) = (b, st1)" by fastforce
  note chk = row_check [OF p Cons.prems(2)]
  have m1: "markers_ok K q st0 st1" and ext1: "extends st st1" using chk by (simp_all add: extends_def)
  show ?case
  proof (cases b)
    case True
    then have "collect_rows E K c q start until rows (pending_records q src) (pending_keys K q src) st1 = (r, st')"
      using Cons.prems(1) p by (simp add: Let_def)
    note rest = Cons.IH [OF this m1]
    then show ?thesis
      using chk True extends_done extends_trans [OF ext1] by auto
  next
    case False
    let ?src = "src @ [(row, cs_now st1)]"
    have step: "(if records_per_object K \<le> int (length (pending_records q ?src)) then
               (case flush_rows E K c q start until (pending_records q ?src) (pending_keys K q ?src) st1 of
                  (Some err, st2) \<Rightarrow> (Some err, st2)
                | (None, st2) \<Rightarrow> collect_rows E K c q start until rows [] [] st2)
             else collect_rows E K c q start until rows (pending_records q ?src) (pending_keys K q ?src) st1) = (r, st')"
      using Cons.prems(1) p False unfolding pending_snoc [symmetric] by (simp add: Let_def)
    show ?thesis
    proof (cases "records_per_object K \<le> int (length (pending_records q ?src))")
      case full: True
      obtain r2 st2 where f: "flush_rows E K c q start until (pending_records q ?src) (pending_keys K q ?src) st1 = (r2, st2)"
        by fastforce
      note fl = flush_rows_ok [OF f m1]
      show ?thesis
      proof (cases r2)
        case (Some err)
        then show ?thesis using step full f fl extends_trans [OF ext1] by auto
      next
        case None
        have "collect_rows E K c q start until rows (pending_records q []) (pending_keys K q []) st2 = (r, st')"
          using step full f None by (simp add: pending_records_def pending_keys_def)
        note rest = Cons.IH [OF this fl [THEN conjunct1]]
        have done_row: "row_stored C K q (lookup (cs_sink st')) (fst x)" if "x \<in> set ?src" for x
          using fl None that rest extends_stored by blast
        from this [of "(row, cs_now st1)"] have "row_done K q st0 st' row" by (simp add: row_done_def)
        then show ?thesis
          using rest done_row fl extends_trans [OF ext1 extends_trans] by auto
      qed
    next
      case not_full: False
      have "collect_rows E K c q start until rows (pending_records q ?src) (pending_keys K q ?src) st1 = (r, st')"
        using step not_full by simp
      note rest = Cons.IH [OF this m1]
      have "row_done K q st0 st' row" if "r = None"
        using rest that by (auto simp: row_done_def)
      then show ?thesis using rest extends_trans [OF ext1] by auto
    qed
  qed
qed

text \<open>
  One query: no marker without a stored row, whatever happens, and a query that succeeds has every
  row stored or marked before.
\<close>

lemma collectCustomQuery_rows:
  assumes "since E K (queryWatermarkKey K q) st = (Inr (start, cur), st1)"
    and "on_q (RequestCustomQuery Q q (co_conf K) start (truncate_second (cs_now st1))) st1 = (Inr rows, st2)"
    and "collectCustomQuery E K c q st = (r, st')" "inv (cs_sink st)"
  shows "(r = None \<longrightarrow> (\<forall>row \<in> set rows. row_done K q st2 st' row))
    \<and> (\<forall>k. val (cs_now st') (q_db (cs_q st')) k \<noteq> None \<longrightarrow> k = queryWatermarkKey K q \<or> accounted K q st2 st' k)"
proof -
  have inv2: "inv (cs_sink st2)"
    using since_confined [OF assms(1)] on_q_sink [OF assms(2)] assms(4) by simp
  obtain r3 st3 where loop: "collect_rows E K c q start (truncate_second (cs_now st1)) rows
      (pending_records q []) (pending_keys K q []) st2 = (r3, st3)" by fastforce
  note ok = collect_rows_ok [OF loop markers_ok_refl [OF inv2]]
  have "collect_rows E K c q start (truncate_second (cs_now st1)) rows [] [] st2 = (r3, st3)"
    using loop by (simp add: pending_records_def pending_keys_def)
  then have result: "(case r3 of Some err \<Rightarrow> (Some err, st3)
      | None \<Rightarrow> (None, setWatermark E (queryWatermarkKey K q) (truncate_second (cs_now st1)) st3)) = (r, st')"
    using assms(1-3) by (simp add: collectCustomQuery_def env Let_def split: option.splits)
  show ?thesis
  proof (cases r3)
    case (Some err)
    then show ?thesis using result ok unfolding markers_ok_def by auto
  next
    case None
    obtain r4 st4 where w: "on_q (db_persist Q (queryWatermarkKey K q)
        (Itoa (unix_milli (truncate_second (cs_now st1))))) st3 = (r4, st4)" by fastforce
    then have st': "st' = st4" "r = None" using result None by (simp_all add: setWatermark_def env)
    have conf: "confined K [] {queryWatermarkKey K q} st3 st4" by (rule on_q_db_confined(3) [OF w]) simp
    have ext: "extends st3 st4" using on_q_sink [OF w] by (simp add: extends_def)
    have "accounted K q st2 st4 k"
      if "val (cs_now st4) (q_db (cs_q st4)) k \<noteq> None" "k \<noteq> queryWatermarkKey K q" for k
    proof -
      have "val (cs_now st4) (q_db (cs_q st3)) k \<noteq> None"
        using confined_val [OF conf _ order_refl, of k] that by simp
      then have "accounted K q st2 st3 k" using ok confined_now [OF conf] unfolding markers_ok_def by blast
      then show ?thesis by (rule extends_accounted [OF ext])
    qed
    then show ?thesis using ok None st' extends_done [OF ext] by blast
  qed
qed

end

end
