(* ===== verification/EventLog_Service.thy ===== *)
theory EventLog_Service
  imports EventLog_Queries Sink_Local Stream_Service
begin

text \<open>
  The EventLogFile collector as deployed: an S3 archive with a Redis cache under a key prefix, or a
  local archive with the in-process cache. The locale \<open>event_deps\<close> is interpreted on both, and what
  it proves of a poll is stated over the first.
\<close>

section \<open>The deployed dependencies\<close>

text \<open>What \<^verbatim>\<open>BuildCache\<close> returns for a configuration with and without Redis.\<close>

definition redis_cache_ops :: "string \<Rightarrow> RedisCache cache_ops" where
  "redis_cache_ops prefix =
     \<lparr>c_get = prefixed_get prefix rc_get, c_set = prefixed_set prefix rc_SetCacheVal,
      c_persist = prefixed_set prefix rc_SetPersistentVal, c_del = prefixed_get prefix rc_del\<rparr>"

definition memory_cache_ops :: "MemoryCache cache_ops" where
  "memory_cache_ops =
     \<lparr>c_get = GetCacheVal, c_set = SetCacheVal, c_persist = SetPersistentVal, c_del = DelCacheVal\<rparr>"

definition query_env ::
  "'c cache_ops \<Rightarrow> (nat \<Rightarrow> string result) \<Rightarrow> (nat \<Rightarrow> string \<Rightarrow> string \<Rightarrow> http_response result) \<Rightarrow> (nat \<Rightarrow> duration)
   \<Rightarrow> (string \<Rightarrow> EventLogfileRecord page result) \<Rightarrow> (string \<Rightarrow> payload page result)
   \<Rightarrow> (string \<Rightarrow> (string \<times> SingleLimitResponse) list result) \<Rightarrow> 'c qenv" where
  "query_env cache logins http lat files rows limits =
     \<lparr>qe_cache = cache, qe_login = logins, qe_http = http, qe_latency = lat,
      qe_decodeLogFiles = files, qe_decodeRows = rows, qe_decodeLimits = limits\<rparr>"

definition collector_env ::
  "codec \<Rightarrow> 's sink_write \<Rightarrow> 'c qenv \<Rightarrow> (nat \<Rightarrow> goerror option) \<Rightarrow> (goerror \<Rightarrow> string) \<Rightarrow> ('c, 's) cenv" where
  "collector_env C w Q disk msg = \<lparr>ce_q = Q, ce_codec = C, ce_Write = w, ce_disk = disk, ce_text = msg\<rparr>"

interpretation s3_redis_events: event_deps C "S3Sink_Write C" s3_lookup "s3_manifested C" s3_keys s3_inv
  "prefixed_get p rc_get" "prefixed_set p rc_SetCacheVal" "prefixed_set p rc_SetPersistentVal"
  "prefixed_get p rc_del" "prefixed_val p rc_val"
  "query_env (redis_cache_ops p) logins http lat files rows limits"
  "collector_env C (S3Sink_Write C) (query_env (redis_cache_ops p) logins http lat files rows limits) disk msg"
  for C p logins http lat files rows limits disk msg
  by unfold_locales (simp_all add: query_env_def redis_cache_ops_def collector_env_def)

interpretation local_memory_events: event_deps C "LocalSink_Write C" ls_lookup "ls_manifested C" ls_keys ls_inv
  GetCacheVal SetCacheVal SetPersistentVal DelCacheVal mc_val
  "query_env memory_cache_ops logins http lat files rows limits"
  "collector_env C (LocalSink_Write C) (query_env memory_cache_ops logins http lat files rows limits) disk msg"
  for C logins http lat files rows limits disk msg
  by unfold_locales (simp_all add: query_env_def memory_cache_ops_def collector_env_def)

context event_deps
begin

lemma handled_stored:
  "handled K st st' rec \<Longrightarrow> marked K st rec \<or> file_stored C Q K (lookup (cs_sink st')) rec"
  unfolding handled_def stored_at_def file_stored_def by blast

end

section \<open>Log files\<close>

text \<open>
  C8: a log file that is reported archived is in the archive. When \<open>archiveLogFile\<close> returns without an
  error, an object of the bucket holds either every row of the CSV file the server sent (one line per
  row, numbered in order), or, for a file that cannot be parsed, every physical line of it, or, for a
  file the server refuses for good, its tombstone; this holds for any faults of the network, the cache,
  the disk and the bucket before that.
\<close>

theorem archived_log_file:
  assumes "Q = query_env (redis_cache_ops p) logins http lat files rows limits"
    and "E = collector_env C (S3Sink_Write C) Q disk msg"
    and "foreign_errors Q disk" "s3_inv (cs_sink st)" "sf_id (lf_Id rec)"
    and "parseSFDate (lf_CreatedDate rec) = Some created"
    and "archiveLogFile E K c rec created st = (None, st')"
  shows "file_stored C Q K (s3_lookup (cs_sink st')) rec"
proof -
  have "s3_redis_events.stored_at C p logins http lat files rows limits K (cs_sink st') rec created"
    using s3_redis_events.archiveLogFile_archives [OF assms(7) [unfolded assms(2) assms(1)] assms(5)]
      assms(3,4) s3_redis_events.archives_def by (simp add: assms(1) collector_env_def)
  then show ?thesis
    using assms(1,6) unfolding s3_redis_events.stored_at_def file_stored_def by blast
qed


text \<open>A concrete deployment: one hourly file of one row.\<close>

definition wit_ec :: EventLogConfig where
  "wit_ec = \<lparr>ec_Name = ''i'', ec_ApiVer = ''60.0'', ec_RequestTimeout = 30,
     ec_Auth = \<lparr>auth_TokenUrl = ''u'', auth_UserPass = None, auth_Jwt = None, auth_ClientCred = None\<rparr>,
     ec_Cache = None, ec_EventTypes = [], ec_FieldMapping = [], ec_InitialHours = 0, ec_InitialMinutes = 0,
     ec_SkipLogFiles = False, ec_SkipLimits = True, ec_NoInterval = False, ec_CustomQueries = [],
     ec_Limits = \<lparr>lim_ApiVer = [], lim_Names = []\<rparr>, ec_PollIntervalSeconds = 0,
     ec_WatermarkOverlapMinutes = 1, ec_DownloadStallTimeoutSeconds = 0, ec_MalformedFileAttempts = 0,
     ec_UnavailableFileAttempts = 0, ec_RecordsPerObject = 0\<rparr>"

definition wit_K :: Collector where "wit_K = NewCollector wit_ec ''o'' []"

definition wit_rec :: EventLogfileRecord where
  "wit_rec = \<lparr>lf_Id = ''0AT1'', lf_LogDate = ''2024-01-01T00:00:00.000+0000'',
     lf_CreatedDate = ''2024-01-01T00:00:00.000+0000'', lf_LogFile = ''/f'', lf_EventType = ''API'',
     lf_Interval = ''Hourly'', lf_Sequence = 1, lf_LogFileLength = (0, 0)\<rparr>"

definition wit_created :: time where "wit_created = 1704067200000000000"

definition wit_content :: string where "wit_content = [CHR ''A'', NL, CHR ''1'', NL]"

definition wit_resp :: "int \<Rightarrow> string \<Rightarrow> http_response" where
  "wit_resp code body = \<lparr>hr_StatusCode = code, hr_Body = body, hr_readErr = None, hr_ContentLength = - 1\<rparr>"

text \<open>The first \<open>n\<close> requests are answered with the body, the others with 503.\<close>

definition wit_Q :: "nat \<Rightarrow> string \<Rightarrow> RedisCache qenv" where
  "wit_Q n body = query_env (redis_cache_ops []) (\<lambda>n. Inr ''t'')
     (\<lambda>i url token. Inr (if i < n then wit_resp 200 body else wit_resp 503 []))
     (\<lambda>n. 0)
     (\<lambda>b. Inr \<lparr>pg_TotalSize = 1, pg_Done = True, pg_NextRecordsUrl = [], pg_Records = [wit_rec]\<rparr>)
     (\<lambda>b. Inr \<lparr>pg_TotalSize = 1, pg_Done = True, pg_NextRecordsUrl = [], pg_Records = [[(''Id'', AStr ''r'')]]\<rparr>)
     (\<lambda>b. Inr [])"

definition wit_E :: "nat \<Rightarrow> string \<Rightarrow> (RedisCache, S3Sink) cenv" where
  "wit_E n body = collector_env wit_codec (S3Sink_Write wit_codec) (wit_Q n body) (\<lambda>n. None) (\<lambda>e. [])"

text \<open>The cache holds an access token and a watermark.\<close>

definition wit_db :: RedisCache where
  "wit_db = \<lparr>rc_ExpireDays = 0, rc_net = (\<lambda>n. Reply), rc_calls = 0,
     rc_redis = [''i_access_token'' \<mapsto> (''t'', None), ''i_last_run_ts'' \<mapsto> (''1704067200000'', None)]\<rparr>"

definition wit_q :: "redis \<Rightarrow> nat \<Rightarrow> nat \<Rightarrow> nat \<Rightarrow> RedisCache qstate" where
  "wit_q r k i j = \<lparr>q_db = wit_db\<lparr>rc_calls := k, rc_redis := r\<rparr>, q_now = 1704067260000000000,
     q_ticks = i, q_logins = 0, q_requests = j\<rparr>"

definition wit_cs :: "(RedisCache, S3Sink) cstate" where
  "wit_cs = \<lparr>cs_q = wit_q (rc_redis wit_db) 0 0 0, cs_sink = wit_s3, cs_disk = 0\<rparr>"

lemma replicate_6: "replicate 6 x = [x, x, x, x, x, x]"
  by (simp add: numeral_eq_Suc)

lemma wit_parse: "parseSFDate ''2024-01-01T00:00:00.000+0000'' = Some wit_created"
  by (simp add: parseSFDate_def scan_simps replicate_6 wit_created_def minute_def hour_def second_def)

lemma wit_foreign: "foreign_errors (wit_Q n body) (\<lambda>n. None)"
  by (auto simp: foreign_errors_def wit_Q_def query_env_def wit_resp_def)

lemma wit_sf_id: "sf_id (lf_Id wit_rec)"
  by (simp add: sf_id_def wit_rec_def is_digit_def is_letter_def)

lemmas wit_event_defs = wit_ec_def wit_K_def NewCollector_def wit_rec_def wit_resp_def wit_Q_def wit_E_def
  query_env_def collector_env_def redis_cache_ops_def prefixed_get_def prefixed_set_def

lemma wit_get:
  "db_get (wit_Q n body) key (wit_q r k i j) = (Inr (redis_GET 1704067260000000000 key r), wit_q r (Suc k) (Suc i) j)"
  by (simp add: db_get_def db_op_def wit_event_defs rc_get_def rc_call_def redis_call_def wit_db_def wit_q_def q_tick_def)

lemma wit_persist:
  "db_persist (wit_Q n body) key v (wit_q r k i j) = (None, wit_q (r(key \<mapsto> (v, None))) (Suc k) (Suc i) j)"
  by (simp add: db_persist_def db_op_def wit_event_defs rc_SetPersistentVal_def rc_set_def err_of_def rc_call_def
      redis_call_def wit_db_def wit_q_def q_tick_def)

lemma wit_auth:
  "r ''i_access_token'' = Some (''t'', None) \<Longrightarrow>
     auth (wit_Q n body) wit_ec (wit_q r k i j) = (Inr ''t'', wit_q r (Suc k) (Suc i) j)"
  by (simp add: auth_def getTokenFromCache_def tokenCacheKey_def wit_ec_def wit_get redis_GET_def)

lemma wit_do:
  "do_request (wit_Q n body) url token (wit_q r k i j) =
     (Inr (if j < n then wit_resp 200 body else wit_resp 503 []), wit_q r k (Suc i) (Suc j))"
  by (simp add: do_request_def wit_Q_def query_env_def wit_q_def q_tick_def)

lemma wit_request:
  "r ''i_access_token'' = Some (''t'', None) \<Longrightarrow>
     requestWithTimeout (wit_Q n body) wit_ec url (wit_q r k i j) =
       (Inr (if j < n then wit_resp 200 body else wit_resp 503 []), wit_q r (Suc k) (Suc (Suc i)) (Suc j))"
  by (simp add: requestWithTimeout_def wit_auth wit_do) (simp add: wit_resp_def)

lemma wit_download:
  assumes "r ''i_access_token'' = Some (''t'', None)" "j < n"
  shows "on_q (DownloadCsvFile (wit_Q n body) wit_ec None None wit_rec) (st\<lparr>cs_q := wit_q r k i j\<rparr>)
    = (Inr body, st\<lparr>cs_q := wit_q r (Suc k) (Suc (Suc i)) (Suc j)\<rparr>)"
  using assms(2)
  by (simp add: on_q_def DownloadCsvFile_def wit_request [where r = r, OF assms(1)] wit_resp_def double_positive_def wit_rec_def)

lemma wit_listing:
  assumes "r ''i_access_token'' = Some (''t'', None)" "j < n"
  shows "on_q (RequestLogFiles (wit_Q n body) wit_ec a b) (st\<lparr>cs_q := wit_q r k i j\<rparr>)
    = (Inr [wit_rec], st\<lparr>cs_q := wit_q r (Suc k) (Suc (Suc i)) (Suc j)\<rparr>)"
  using assms(2)
  by (simp add: on_q_def RequestLogFiles_def maxPages_def numeral_eq_Suc follow_pages.simps getJSON_def queryURL_def
      wit_request [where r = r, OF assms(1)] wit_resp_def)
    (simp add: wit_Q_def query_env_def)

lemma wit_stream:
  "\<exists>e'. streamCsv wit_codec now None wit_content i ty m e = Inr e'"
  by (simp add: streamCsv_def csv_Read.simps csv_fields.simps csv_readLine_def wit_content_def NL_def
      normalize_line_def nl_only_def QUOTE_def COMMA_def CR_def strip_nl_def csv_rows.simps
      WriteRecord_def wit_codec_def Let_def)

lemma wit_s3_write:
  assumes "meta_Source meta \<noteq> []" "\<And>e. \<exists>e'. fill e = Inr e'"
  shows "\<exists>m s. S3Sink_Write wit_codec None now meta fill wit_s3 = (Inr m, s)"
proof -
  have "\<exists>e'. fill (newEncoder (if IsZero (meta_PartitionTime meta) then meta\<lparr>meta_PartitionTime := now\<rparr> else meta)) = Inr e'"
    by (rule assms(2))
  then show ?thesis
    using assms(1)
    by (auto simp: S3Sink_Write_def encodeObject_def wit_s3_def wit_codec_def s3_store_def put_def Let_def
        split: prod.splits)
qed

lemma wit_archive:
  assumes "r ''i_access_token'' = Some (''t'', None)" "j < n" "cs_sink st = wit_s3"
  shows "\<exists>s. archiveLogFile (wit_E n wit_content) wit_K None wit_rec wit_created (st\<lparr>cs_q := wit_q r k i j\<rparr>)
    = (None, st\<lparr>cs_q := wit_q r (Suc k) (Suc (Suc (Suc i))) (Suc j), cs_sink := s, cs_disk := cs_disk st + 3\<rparr>)"
proof -
  obtain m s where w: "S3Sink_Write wit_codec None 1704067260000000000 (log_file_meta wit_K wit_rec wit_created)
      (streamCsv wit_codec 1704067260000000000 None wit_content (lf_Id wit_rec) (lf_EventType wit_rec)
        (fieldMapping wit_K (lf_EventType wit_rec))) wit_s3 = (Inr m, s)"
    using wit_s3_write [of "log_file_meta wit_K wit_rec wit_created"] wit_stream
    by (fastforce simp: log_file_meta_def SourceEventLog_def)
  have E: "ce_q (wit_E n wit_content) = wit_Q n wit_content" "ce_codec (wit_E n wit_content) = wit_codec"
    "ce_Write (wit_E n wit_content) = S3Sink_Write wit_codec" "ce_disk (wit_E n wit_content) = (\<lambda>i. None)"
    by (simp_all add: wit_E_def collector_env_def)
  have K: "co_conf wit_K = wit_ec" by (simp add: wit_K_def NewCollector_def)
  have d: "disk_op (wit_E n wit_content) (st\<lparr>cs_q := q\<rparr>) = (None, st\<lparr>cs_q := q, cs_disk := cs_disk st + 1\<rparr>)" for q and st :: "(RedisCache, S3Sink) cstate"
    by (simp add: disk_op_def E)
  have dl: "on_q (DownloadCsvFile (wit_Q n wit_content) wit_ec None None wit_rec) (st\<lparr>cs_q := wit_q r k i j, cs_disk := x\<rparr>)
    = (Inr wit_content, st\<lparr>cs_q := wit_q r (Suc k) (Suc (Suc i)) (Suc j), cs_disk := x\<rparr>)" for x
    using wit_download [where r = r and st = "st\<lparr>cs_disk := x\<rparr>" and body = wit_content and k = k and i = i,
        OF assms(1,2)] by (cases st) simp
  show ?thesis
    using w assms(3)
    by (simp add: archiveLogFile_def disk_op_def E K dl sink_write_def cs_now_def)
      (simp add: wit_q_def q_tick_def wit_Q_def query_env_def, rule exI [of _ s], cases st, simp)
qed

lemma wit_cs_update: "wit_cs = wit_cs\<lparr>cs_q := wit_q (rc_redis wit_db) 0 0 0\<rparr>"
  by (simp add: wit_cs_def)

lemma wit_token: "rc_redis wit_db ''i_access_token'' = Some (''t'', None)"
  by (simp add: wit_db_def)

lemma archived_log_file_witness:
  "file_stored wit_codec (wit_Q 1 wit_content) wit_K
     (s3_lookup (cs_sink (snd (archiveLogFile (wit_E 1 wit_content) wit_K None wit_rec wit_created wit_cs)))) wit_rec"
proof -
  have run: "archiveLogFile (wit_E 1 wit_content) wit_K None wit_rec wit_created wit_cs
      = (None, snd (archiveLogFile (wit_E 1 wit_content) wit_K None wit_rec wit_created wit_cs))"
    using wit_archive [where r = "rc_redis wit_db" and st = wit_cs, OF wit_token, of 0 1 0 0]
    unfolding wit_cs_update [symmetric] by (auto simp: wit_cs_def)
  show ?thesis
    by (rule archived_log_file [OF wit_Q_def wit_E_def wit_foreign _ wit_sf_id _ run])
      (simp_all add: wit_cs_def wit_s3_inv wit_rec_def wit_parse)
qed

section \<open>Polls\<close>

text \<open>
  C9: a poll that succeeds has every listed log file. When \<open>collectLogFiles\<close> returns without an error,
  each file the listing query returned either had its processed marker in the cache when the loop
  began, or is now in the bucket, as rows, raw lines or tombstone; later files of the poll never
  overwrite earlier ones.
\<close>

theorem poll_archives_listing:
  assumes "Q = query_env (redis_cache_ops p) logins http lat files rows limits"
    and "E = collector_env C (S3Sink_Write C) Q disk msg"
    and "foreign_errors Q disk" "s3_inv (cs_sink st)"
    and "since E K (logFilesWatermarkKey K) st = (Inr (start, cur), st1)"
    and "on_q (RequestLogFiles Q (co_conf K) start (truncate_second (cs_now st1))) st1 = (Inr records, st2)"
    and "listing_ok start records" "rec \<in> set records"
    and "collectLogFiles E K c st = (None, st')"
  shows "prefixed_val p rc_val (cs_now st2) (q_db (cs_q st2)) (processedKey K (lf_Id rec)) \<noteq> None
    \<or> file_stored C Q K (s3_lookup (cs_sink st')) rec"
proof -
  note E = assms(2) [unfolded assms(1)]
  have c1: "cs_sink st1 = cs_sink st"
    using s3_redis_events.since_confined [OF assms(5) [unfolded E]] by blast
  have inv2: "s3_inv (cs_sink st2)"
    using c1 assms(4) on_q_def [of _ st1] assms(6) by (auto simp: on_q_def split: prod.splits)
  note loop = s3_redis_events.collectLogFiles_unfold [OF assms(9) [unfolded E] assms(5) [unfolded E] assms(6) [unfolded assms(1)]]
  have "s3_redis_events.handled C p logins http lat files rows limits K st2 st' rec"
    using s3_redis_events.listed_files(2) [OF loop inv2 assms(7,8)] assms(1,3) by (simp add: collector_env_def)
  from s3_redis_events.handled_stored [OF this] show ?thesis
    using assms(1) by (simp add: s3_redis_events.marked_def)
qed

lemma wit_env_sel:
  "ce_q (wit_E n body) = wit_Q n body" "ce_disk (wit_E n body) = (\<lambda>i. None)" "co_conf wit_K = wit_ec"
  by (simp_all add: wit_E_def collector_env_def wit_K_def NewCollector_def)

lemma wit_watermark_key: "logFilesWatermarkKey wit_K = ''i_last_run_ts''"
  by (simp add: logFilesWatermarkKey_def wit_K_def NewCollector_def wit_ec_def)

lemma wit_ms: "ParseInt ''1704067200000'' = Some 1704067200000"
  by (simp add: ParseInt_def parse_digits_def is_digit_def digits_val_def digit_val_def)

lemma wit_since:
  assumes "r ''i_last_run_ts'' = Some (''1704067200000'', None)"
  shows "since (wit_E n body) wit_K ''i_last_run_ts'' (st\<lparr>cs_q := wit_q r k i j\<rparr>)
    = (Inr (1704067140000000000, Some 1704067200000000000), st\<lparr>cs_q := wit_q r (Suc k) (Suc i) j\<rparr>)"
  using assms
  by (simp add: since_def watermark_def wit_env_sel on_q_def wit_get redis_GET_def wit_ms overlap_def UnixMilli_def
      minute_def) (simp add: wit_ec_def)

lemma wit_start:
  "since (wit_E n body) wit_K ''i_last_run_ts'' wit_cs
    = (Inr (1704067140000000000, Some 1704067200000000000), wit_cs\<lparr>cs_q := wit_q (rc_redis wit_db) (Suc 0) (Suc 0) 0\<rparr>)"
  by (subst wit_cs_update) (simp add: wit_since wit_db_def)

lemma wit_list:
  "0 < n \<Longrightarrow> on_q (RequestLogFiles (wit_Q n body) wit_ec a b) (wit_cs\<lparr>cs_q := wit_q (rc_redis wit_db) (Suc 0) (Suc 0) 0\<rparr>)
    = (Inr [wit_rec], wit_cs\<lparr>cs_q := wit_q (rc_redis wit_db) 2 3 (Suc 0)\<rparr>)"
  using wit_listing [where r = "rc_redis wit_db" and j = 0 and st = wit_cs and k = "Suc 0" and i = "Suc 0", OF wit_token]
  by (simp add: numeral_2_eq_2 numeral_3_eq_3)

lemma wit_listing_ok: "listing_ok 1704067140000000000 [wit_rec]"
proof -
  have "truncate_second 1704067140000000000 \<le> 1704067140000000000" by (rule truncate_second_le)
  then show ?thesis
    using wit_sf_id by (simp add: listing_ok_def wit_rec_def wit_parse wit_created_def)
qed

lemma wit_unmarked:
  "isProcessed (wit_E n body) (processedKey wit_K (lf_Id wit_rec)) (wit_cs\<lparr>cs_q := wit_q (rc_redis wit_db) k i j\<rparr>)
    = (False, wit_cs\<lparr>cs_q := wit_q (rc_redis wit_db) (Suc k) (Suc i) j\<rparr>)"
  by (simp add: isProcessed_def wit_env_sel on_q_def wit_get redis_GET_def processedKey_def wit_ec_def wit_db_def wit_rec_def)

lemma wit_poll:
  "fst (collectLogFiles (wit_E 2 wit_content) wit_K None wit_cs) = None"
proof -
  obtain s where a: "archiveLogFile (wit_E 2 wit_content) wit_K None wit_rec wit_created
      (wit_cs\<lparr>cs_q := wit_q (rc_redis wit_db) 3 4 (Suc 0)\<rparr>)
    = (None, wit_cs\<lparr>cs_q := wit_q (rc_redis wit_db) (Suc 3) (Suc (Suc (Suc 4))) (Suc (Suc 0)), cs_sink := s,
        cs_disk := cs_disk wit_cs + 3\<rparr>)"
    using wit_archive [where r = "rc_redis wit_db" and j = "Suc 0" and n = 2 and st = wit_cs and k = 3 and i = 4, OF wit_token]
    by (auto simp: wit_cs_def)
  have u: "isProcessed (wit_E 2 wit_content) (processedKey wit_K (lf_Id wit_rec)) (wit_cs\<lparr>cs_q := wit_q (rc_redis wit_db) 2 3 (Suc 0)\<rparr>)
    = (False, wit_cs\<lparr>cs_q := wit_q (rc_redis wit_db) 3 4 (Suc 0)\<rparr>)"
    by (simp add: wit_unmarked)
  have created: "parseSFDate (lf_CreatedDate wit_rec) = Some wit_created" by (simp add: wit_rec_def wit_parse)
  show ?thesis
    unfolding collectLogFiles_def wit_watermark_key wit_start wit_env_sel
    by (simp add: wit_list created u a Let_def)
qed

lemma poll_archives_listing_witness:
  "file_stored wit_codec (wit_Q 2 wit_content) wit_K
     (s3_lookup (cs_sink (snd (collectLogFiles (wit_E 2 wit_content) wit_K None wit_cs)))) wit_rec"
proof -
  let ?run = "collectLogFiles (wit_E 2 wit_content) wit_K None wit_cs"
  have run: "?run = (None, snd ?run)" using wit_poll by (metis prod.collapse)
  have "prefixed_val [] rc_val (cs_now (wit_cs\<lparr>cs_q := wit_q (rc_redis wit_db) 2 3 (Suc 0)\<rparr>))
      (q_db (cs_q (wit_cs\<lparr>cs_q := wit_q (rc_redis wit_db) 2 3 (Suc 0)\<rparr>))) (processedKey wit_K (lf_Id wit_rec)) = None"
    by (simp add: prefixed_val_def rc_val_def wit_q_def wit_db_def redis_GET_def processedKey_def wit_env_sel wit_ec_def wit_rec_def)
  moreover have "s3_inv (cs_sink wit_cs)" by (simp add: wit_cs_def wit_s3_inv)
  ultimately show ?thesis
    using poll_archives_listing [OF wit_Q_def wit_E_def wit_foreign _ wit_start [folded wit_watermark_key]
        wit_list [folded wit_env_sel(3)] wit_listing_ok _ run, of wit_rec] by simp
qed


text \<open>The listing is answered, the download is not; a later poll asks again from the same second.\<close>

lemma wit_failed_download:
  assumes "r ''i_access_token'' = Some (''t'', None)"
  shows "archiveLogFile (wit_E (Suc 0) body) wit_K None wit_rec wit_created (wit_cs\<lparr>cs_q := wit_q r 3 4 (Suc 0)\<rparr>)
    = (Some (HTTPError 503 []), wit_cs\<lparr>cs_q := wit_q r 4 6 2, cs_disk := 2\<rparr>)"
proof -
  have "DownloadCsvFile (wit_Q (Suc 0) body) wit_ec None None wit_rec (wit_q r 3 4 (Suc 0))
      = (Inl (HTTPError 503 []), wit_q r 4 6 2)"
    by (simp add: DownloadCsvFile_def wit_request [where r = r, OF assms] generateError_def
        numeral_2_eq_2) (simp add: wit_resp_def)
  then show ?thesis
    by (simp add: archiveLogFile_def disk_op_def wit_env_sel on_q_def handleDownloadFailure_def
        permanent_HTTPError Permanent_def wit_cs_def)
qed

lemma wit_failed_poll:
  "collectLogFiles (wit_E (Suc 0) body) wit_K None wit_cs = (Some (Wrap ''EventLogFile'' (HTTPError 503 [])),
     wit_cs\<lparr>cs_q := wit_q ((rc_redis wit_db)(''i_last_run_ts'' \<mapsto> (''1704067200000'', None))) 5 7 2, cs_disk := 2\<rparr>)"
proof -
  have u: "isProcessed (wit_E (Suc 0) body) (processedKey wit_K (lf_Id wit_rec)) (wit_cs\<lparr>cs_q := wit_q (rc_redis wit_db) 2 3 (Suc 0)\<rparr>)
    = (False, wit_cs\<lparr>cs_q := wit_q (rc_redis wit_db) 3 4 (Suc 0)\<rparr>)"
    by (simp add: wit_unmarked)
  have created: "parseSFDate (lf_CreatedDate wit_rec) = Some wit_created" by (simp add: wit_rec_def wit_parse)
  have wm: "Itoa (unix_milli 1704067200000000000) = ''1704067200000''"
    by (simp add: Itoa_def unix_milli_def dec_digits.simps digit_def char_of_def bit_0)
  have set: "setWatermark (wit_E (Suc 0) body) ''i_last_run_ts'' 1704067200000000000
      (wit_cs\<lparr>cs_q := wit_q (rc_redis wit_db) 4 6 2, cs_disk := 2\<rparr>)
    = wit_cs\<lparr>cs_q := wit_q ((rc_redis wit_db)(''i_last_run_ts'' \<mapsto> (''1704067200000'', None))) 5 7 2, cs_disk := 2\<rparr>"
    by (simp add: setWatermark_def on_q_def wit_env_sel wit_persist wm wit_cs_def)
  show ?thesis
    unfolding collectLogFiles_def wit_watermark_key wit_start wit_env_sel
    by (simp add: wit_list created u wit_failed_download [where r = "rc_redis wit_db", OF wit_token] wit_watermark_key set zero_time_def)
qed


section \<open>Custom queries\<close>


definition wit_query :: QueryConfig where
  "wit_query = \<lparr>qc_Soql = \<lparr>soql_Select = [''Id'', ''CreatedDate''], soql_From = ''Case'', soql_Where = [],
       soql_Tail = []\<rparr>, qc_ApiVer = ''60.0'', qc_Timestamp = ''CreatedDate'', qc_EndTimestamp = [],
     qc_ApiName = ''rest'', qc_CustomId = []\<rparr>"

lemma wit_query_key: "queryWatermarkKey wit_K wit_query = ''i_query_'' @ queryHash wit_query @ ''_last_run_ts''"
  by (simp add: queryWatermarkKey_def wit_env_sel wit_ec_def)

lemma wit_query_start:
  "since (wit_E n body) wit_K (queryWatermarkKey wit_K wit_query) wit_cs
    = (Inr (1704063660000000000, None), wit_cs\<lparr>cs_q := wit_q (rc_redis wit_db) (Suc 0) (Suc 0) 0\<rparr>)"
proof -
  have "redis_GET t (queryWatermarkKey wit_K wit_query) (rc_redis wit_db) = None" for t
    by (simp add: redis_GET_def wit_db_def wit_query_key)
  then show ?thesis
    by (simp add: since_def watermark_def wit_env_sel on_q_def wit_cs_def wit_get cs_now_def)
      (simp add: wit_ec_def wit_q_def hour_def)
qed

lemma wit_rows:
  "on_q (RequestCustomQuery (wit_Q (Suc 0) body) wit_query wit_ec a b) (wit_cs\<lparr>cs_q := wit_q (rc_redis wit_db) (Suc 0) (Suc 0) 0\<rparr>)
    = (Inr [[(''Id'', AStr ''r'')]], wit_cs\<lparr>cs_q := wit_q (rc_redis wit_db) 2 3 (Suc 0)\<rparr>)"
proof -
  have "\<exists>u v. queryURL u v = url \<Longrightarrow> url \<noteq> []" for url by (auto simp: queryURL_def)
  then show ?thesis
    by (simp add: on_q_def RequestCustomQuery_def maxPages_def numeral_eq_Suc follow_pages.simps getJSON_def
        wit_request [where r = "rc_redis wit_db", OF wit_token] wit_resp_def queryURL_def)
      (simp add: wit_Q_def query_env_def)
qed

lemma wit_query_run: "fst (collectCustomQuery (wit_E (Suc 0) body) wit_K None wit_query wit_cs) = None"
proof -
  have key: "rowDedupKey wit_K wit_query [(''Id'', AStr ''r'')] = ''i_soql_'' @ queryHash wit_query @ ''_r_<nil>''"
    by (simp add: rowDedupKey_def row_id_def str_field_def wit_env_sel wit_ec_def row_field_def) (simp add: wit_query_def)
  have get: "isProcessed (wit_E (Suc 0) body) (''i_soql_'' @ x) (wit_cs\<lparr>cs_q := wit_q (rc_redis wit_db) k i j\<rparr>)
      = (False, wit_cs\<lparr>cs_q := wit_q (rc_redis wit_db) (Suc k) (Suc i) j\<rparr>)" for x k i j
    by (simp add: isProcessed_def wit_env_sel on_q_def wit_get redis_GET_def wit_db_def)
  have big: "\<not> records_per_object wit_K \<le> 1"
    by (simp add: records_per_object_def wit_env_sel wit_ec_def defaultRecordsPerObject_def)
  have w: "\<exists>m st2. sink_write (wit_E (Suc 0) body) None (query_meta wit_K wit_query a b ty) (write_each wit_codec rs)
      (wit_cs\<lparr>cs_q := x\<rparr>) = (Inr m, st2)" for a b ty rs x
  proof -
    obtain m s where "S3Sink_Write wit_codec None (q_now x) (query_meta wit_K wit_query a b ty)
        (write_each wit_codec rs) wit_s3 = (Inr m, s)"
      using wit_s3_write [of "query_meta wit_K wit_query a b ty" "write_each wit_codec rs" "q_now x"] wit_write_each
      by (auto simp: query_meta_def SourceSOQL_def)
    then show ?thesis by (simp add: sink_write_def wit_E_def collector_env_def wit_cs_def cs_now_def)
  qed
  have codec: "ce_codec (wit_E (Suc 0) body) = wit_codec" by (simp add: wit_E_def collector_env_def)
  have flush: "\<exists>st2. flush_rows (wit_E (Suc 0) body) wit_K None wit_query a b [rec] keys (wit_cs\<lparr>cs_q := x\<rparr>) = (None, st2)"
    for a b rec keys x
    using w [of a b "rec_Type rec" "[rec]" x] by (auto simp: flush_rows_def codec split: prod.splits sum.splits)
  have loop: "\<exists>st2. collect_rows (wit_E (Suc 0) body) wit_K None wit_query a b
      [[(''Id'', AStr ''r'')]] [] [] (wit_cs\<lparr>cs_q := wit_q (rc_redis wit_db) 2 3 (Suc 0)\<rparr>) = (None, st2)" for a b
    using flush get [of "queryHash wit_query @ ''_r_<nil>''" 2 3 "Suc 0"] big key by (simp add: Let_def)
  then obtain st2 where loop: "collect_rows (wit_E (Suc 0) body) wit_K None wit_query 1704063660000000000
      (truncate_second (cs_now (wit_cs\<lparr>cs_q := wit_q (rc_redis wit_db) (Suc 0) (Suc 0) 0\<rparr>)))
      [[(''Id'', AStr ''r'')]] [] [] (wit_cs\<lparr>cs_q := wit_q (rc_redis wit_db) 2 3 (Suc 0)\<rparr>) = (None, st2)"
    by blast
  show ?thesis
    using loop by (simp add: collectCustomQuery_def wit_query_start wit_env_sel wit_rows)
qed


section \<open>Row identity\<close>

text \<open>
  C11: a custom ID cannot confuse two rows. The bytes that are hashed into a custom ID determine the
  text of every one of its fields: two rows of a query with the same bytes agree on all the fields, so
  two rows that differ in one share an ID only if SHA-256 collides.
\<close>

theorem custom_id_determines_fields:
  assumes "custom_id_bytes row fs = custom_id_bytes row' fs"
  shows "\<forall>f \<in> set fs. Sprint (row_field row f) = Sprint (row_field row' f)"
  using assms
proof (induction fs)
  case (Cons f fs)
  let ?v = "Sprint (row_field row f)" and ?v' = "Sprint (row_field row' f)"
  have colon: "CHR '':'' \<notin> set (Itoa n)" for n
    using Itoa_chars [of "CHR '':''" n] by (auto simp: is_digit_def)
  have cut: "takeWhile (\<lambda>c. c \<noteq> CHR '':'') (Itoa n @ CHR '':'' # xs) = Itoa n" for n xs
    using colon [of n] by (auto simp: takeWhile_append)
  have "Itoa (int (length ?v)) @ CHR '':'' # ?v @ ''|'' @ custom_id_bytes row fs
      = Itoa (int (length ?v')) @ CHR '':'' # ?v' @ ''|'' @ custom_id_bytes row' fs"
    using Cons.prems by (simp add: custom_id_bytes_def Let_def)
  moreover from this have "Itoa (int (length ?v)) = Itoa (int (length ?v'))" by (metis cut)
  ultimately have "length ?v = length ?v'"
    "?v @ ''|'' @ custom_id_bytes row fs = ?v' @ ''|'' @ custom_id_bytes row' fs"
    by (simp_all add: Itoa_inject)
  then show ?case using Cons.IH by simp
qed simp

lemma custom_id_determines_fields_witness:
  "Sprint (row_field [(''A'', AStr ''x'')] ''A'') = Sprint (row_field [(''A'', ANum ''x''), (''B'', ANil)] ''A'')"
  using custom_id_determines_fields [of "[(''A'', AStr ''x'')]" "[''A'']" "[(''A'', ANum ''x''), (''B'', ANil)]"]
  by (simp add: custom_id_bytes_def row_field_def)

text \<open>
  Versions of a row are told apart. For a query without an end timestamp, two versions of a row with
  the same ID whose timestamp fields print differently have different de-duplication keys and different
  event IDs, so that the later version is archived again and not dropped downstream.
\<close>

theorem row_versions_distinct:
  assumes "qc_EndTimestamp q = []" "row_id q row = row_id q row'" "row_id q row \<noteq> []"
    and "Sprint (row_field row (qc_Timestamp q)) \<noteq> Sprint (row_field row' (qc_Timestamp q))"
  shows "rowDedupKey K q row \<noteq> rowDedupKey K q row' \<and> customEventId row q \<noteq> customEventId row' q"
  using assms by (simp add: rowDedupKey_def customEventId_def)

lemma row_versions_distinct_witness:
  "rowDedupKey wit_K wit_query [(''Id'', AStr ''r''), (''CreatedDate'', AStr ''1'')]
     \<noteq> rowDedupKey wit_K wit_query [(''Id'', AStr ''r''), (''CreatedDate'', AStr ''2'')]"
  using row_versions_distinct [of wit_query "[(''Id'', AStr ''r''), (''CreatedDate'', AStr ''1'')]"
      "[(''Id'', AStr ''r''), (''CreatedDate'', AStr ''2'')]" wit_K]
  by (simp add: wit_query_def row_id_def str_field_def row_field_def)

text \<open>
  The configuration check and the collector disagree on the case of the timestamp field. The check
  compares the field with the selected ones ignoring case, the collector looks it up in the row as it is
  spelled: with the spelling \<open>lastmodifieddate\<close> the query is accepted, and two versions of a record get
  one de-duplication key, so that the second version is taken for the first and never archived.
\<close>

theorem timestamp_case_merges_versions:
  defines "q \<equiv> wit_query\<lparr>qc_Timestamp := ''lastmodifieddate''\<rparr>"
    and "row v \<equiv> [(''Id'', AStr ''r''), (''LastModifiedDate'', AStr v)]"
  shows "selectsField [''Id'', ''LastModifiedDate''] (qc_Timestamp q)
    \<and> rowDedupKey K q (row ''2024-01-01'') = rowDedupKey K q (row ''2024-01-02'')"
proof
  show "selectsField [''Id'', ''LastModifiedDate''] (qc_Timestamp q)"
    by (simp add: selectsField_def q_def EqualFold_def ToLower_def lower_char_def TrimSpace_clean key_char_def
        char_of_def bit_0)
  show "rowDedupKey K q (row ''2024-01-01'') = rowDedupKey K q (row ''2024-01-02'')"
    by (simp add: rowDedupKey_def row_id_def str_field_def row_field_def q_def row_def wit_query_def)
qed

section \<open>The first poll\<close>

text \<open>
  Before a watermark exists, a failing file can drop out of the window. With no watermark in the
  cache, the poll whose first file fails stores none, and the next poll asks for files of the last hour
  from its own start: two hours later the file, created a minute before the first poll, is not asked
  for.
\<close>

theorem first_poll_can_lose_a_file:
  defines "st \<equiv> wit_cs\<lparr>cs_q := wit_q [''i_access_token'' \<mapsto> (''t'', None)] 0 0 0\<rparr>"
    and "E \<equiv> wit_E (Suc 0) []" and "later \<equiv> 1704067260000000000 + 2 * hour"
  shows "\<exists>err st' start st''. collectLogFiles E wit_K None st = (Some err, st')
    \<and> since E wit_K (logFilesWatermarkKey wit_K) (st'\<lparr>cs_q := (cs_q st')\<lparr>q_now := later\<rparr>\<rparr>)
        = (Inr (start, None), st'') \<and> wit_created < start"
proof (intro exI conjI)
  let ?r = "[''i_access_token'' \<mapsto> (''t'', None)] :: redis" and ?W = "''i_last_run_ts''"
  have token: "?r ''i_access_token'' = Some (''t'', None)" by simp
  have none: "redis_GET t ?W ?r = None" for t by (simp add: redis_GET_def)
  have at: "db_get (wit_Q n body) key ((wit_q r k i j)\<lparr>q_now := t\<rparr>)
      = (Inr (redis_GET t key r), (wit_q r (Suc k) (Suc i) j)\<lparr>q_now := t\<rparr>)" for n body key r k i j t
    by (simp add: db_get_def db_op_def wit_event_defs rc_get_def rc_call_def redis_call_def wit_db_def wit_q_def q_tick_def)
  have start: "since E wit_K ?W st = (Inr (1704063660000000000, None), wit_cs\<lparr>cs_q := wit_q ?r (Suc 0) (Suc 0) 0\<rparr>)"
    unfolding st_def E_def
    by (simp add: since_def watermark_def wit_env_sel on_q_def wit_get none cs_now_def)
      (simp add: wit_ec_def wit_q_def hour_def)
  have listed: "on_q (RequestLogFiles (wit_Q (Suc 0) []) wit_ec a b) (wit_cs\<lparr>cs_q := wit_q ?r (Suc 0) (Suc 0) 0\<rparr>)
    = (Inr [wit_rec], wit_cs\<lparr>cs_q := wit_q ?r 2 3 (Suc 0)\<rparr>)" for a b
    using wit_listing [where r = ?r and j = 0 and st = wit_cs and k = "Suc 0" and i = "Suc 0" and n = "Suc 0", OF token]
    by (simp add: numeral_2_eq_2 numeral_3_eq_3)
  have unmarked: "isProcessed E (processedKey wit_K (lf_Id wit_rec)) (wit_cs\<lparr>cs_q := wit_q ?r 2 3 (Suc 0)\<rparr>)
    = (False, wit_cs\<lparr>cs_q := wit_q ?r 3 4 (Suc 0)\<rparr>)"
    by (simp add: E_def isProcessed_def wit_env_sel on_q_def wit_get redis_GET_def processedKey_def wit_ec_def wit_rec_def)
  have created: "parseSFDate (lf_CreatedDate wit_rec) = Some wit_created" by (simp add: wit_rec_def wit_parse)
  show "collectLogFiles E wit_K None st = (Some (Wrap ''EventLogFile'' (HTTPError 503 [])),
      wit_cs\<lparr>cs_q := wit_q ?r 4 6 2, cs_disk := 2\<rparr>)"
    unfolding collectLogFiles_def wit_watermark_key start
    unfolding E_def by (simp add: wit_env_sel listed created unmarked [unfolded E_def] wit_failed_download Let_def)
  have "wit_created < later - hour" by (simp add: wit_created_def hour_def later_def)
  then show "since E wit_K (logFilesWatermarkKey wit_K) (wit_cs\<lparr>cs_q := wit_q ?r 4 6 2, cs_disk := 2\<rparr>
        \<lparr>cs_q := (cs_q (wit_cs\<lparr>cs_q := wit_q ?r 4 6 2, cs_disk := 2\<rparr>))\<lparr>q_now := later\<rparr>\<rparr>)
      = (Inr (later - hour, None), wit_cs\<lparr>cs_disk := 2, cs_q := (wit_q ?r 5 7 2)\<lparr>q_now := later\<rparr>\<rparr>)"
    "wit_created < later - hour"
    by (simp_all add: E_def wit_watermark_key since_def watermark_def wit_env_sel on_q_def at none cs_now_def wit_cs_def)
      (simp add: wit_ec_def)
qed

end
