(* ===== verification/Verify.thy ===== *)
theory Verify
  imports Sink_S3 "HOL-Library.Mapping" "HOL-Library.Multiset"
begin

text \<open>
  \<^verbatim>\<open>cmd/sf-archive-verify\<close>: the reconciler of an S3 archive. It lists the data objects and the
  manifests, compares each object with its manifest, and optionally compares the archived record
  identifiers with a ledger of what the source sent.

  The S3 service is a parameter, the \<open>s3_client\<close>: the pages a listing returns and the body a read
  returns, or their errors. Objects are read by concurrent workers and their results merged under
  one mutex: the order in which the workers get the mutex is the argument \<open>order\<close>. A context is
  asked for its deadline at the two instants \<open>t1\<close> and \<open>t2\<close> at which \<^verbatim>\<open>checkDeadline\<close> runs.
\<close>

section \<open>Data\<close>

record gap =
  gap_Expected :: int
  gap_Archived :: int
  gap_Missing :: int
  gap_Duplicates :: int
  gap_Examples :: "string list"

type_synonym counts = "(string, int) mapping"

record report =
  rep_Objects :: int
  rep_Manifests :: int
  rep_ManifestMismatches :: "string list"
  rep_ManifestsNoObject :: "string list"
  rep_ObjectsWithoutMan :: int
  rep_UnreadableObjects :: "string list"
  rep_UnreadableManifests :: "string list"
  rep_UnsupportedManifests :: "string list"
  rep_RecordsBySource :: counts
  rep_Streams :: "(string \<times> gap) list"
  rep_EventLogRows :: "gap option"
  rep_CustomRecords :: "(string \<times> gap) list"
  rep_OK :: bool

record objectStats =
  os_records :: int
  os_compressed :: int
  os_uncompressed :: int
  os_sha256 :: string
  os_first :: "time option"
  os_last :: "time option"

record recordRef =
  ref_source :: string
  ref_group :: string
  ref_id :: string

text \<open>What the mock of the source has generated (\<^verbatim>\<open>mocksf.Ledger\<close>).\<close>

record Ledger =
  lg_OrgId :: string
  lg_Streams :: "(string \<times> string list) list"
  lg_EventLogFiles :: "(string \<times> string list) list"
  lg_CustomRecords :: "(string \<times> string list) list"

record s3_client =
  cl_pages :: "string \<Rightarrow> string list result list"
  cl_get :: "string \<Rightarrow> string result"
  cl_text :: "goerror \<Rightarrow> string"

section \<open>Reading the archive\<close>

text \<open>The paginator: all pages, or the error of the first that fails.\<close>

fun list_pages :: "string list result list \<Rightarrow> string list result" where
  "list_pages [] = Inr []"
| "list_pages (Inl err # ps) = Inl err"
| "list_pages (Inr ks # ps) = (case list_pages ps of Inl err \<Rightarrow> Inl err | Inr ks' \<Rightarrow> Inr (ks @ ks'))"

definition getJSON :: "codec \<Rightarrow> s3_client \<Rightarrow> string \<Rightarrow> Manifest result" where
  "getJSON C cl key = (case cl_get cl key of Inl err \<Rightarrow> Inl err | Inr b \<Rightarrow> manDecode C b)"

definition bump :: "string \<Rightarrow> counts \<Rightarrow> counts" where
  "bump k m = Mapping.update k (Mapping.lookup_default 0 m k + 1) m"

text \<open>\<open>scanObject\<close>: the lines it visited and what it measured.\<close>

definition scanObject :: "codec \<Rightarrow> string \<Rightarrow> Line list \<times> objectStats result" where
  "scanObject C body =
     (case DecodeObjectCounted C body of
        (ls, Inl err) \<Rightarrow> (ls, Inl err)
      | (ls, Inr uncompressed) \<Rightarrow>
          let times = range_of (map line_Timestamp ls) in
          (ls, Inr \<lparr>os_records = int (length ls), os_compressed = int (length body),
                    os_uncompressed = uncompressed, os_sha256 = hex_encode (Sum256 body),
                    os_first = tr_First times, os_last = tr_Last times\<rparr>))"

definition readObject :: "codec \<Rightarrow> s3_client \<Rightarrow> string \<Rightarrow> Line list \<times> objectStats result" where
  "readObject C cl key =
     (case cl_get cl key of Inl err \<Rightarrow> ([], Inl err) | Inr body \<Rightarrow> scanObject C body)"

definition sameTime :: "time option \<Rightarrow> time option \<Rightarrow> bool" where
  "sameTime a b =
     (case (a, b) of (None, None) \<Rightarrow> True | (Some s, Some t) \<Rightarrow> s = t | _ \<Rightarrow> False)"

definition stats_compare :: "objectStats \<Rightarrow> Manifest \<Rightarrow> string" where
  "stats_compare s m =
     Join
       ((if os_records s \<noteq> man_RecordCount m
         then [''record count '' @ Itoa (os_records s) @ '' != manifest '' @ Itoa (man_RecordCount m)] else [])
        @ (if os_compressed s \<noteq> man_CompressedBytes m
           then [''compressed bytes '' @ Itoa (os_compressed s) @ '' != manifest ''
                 @ Itoa (man_CompressedBytes m)] else [])
        @ (if os_uncompressed s \<noteq> man_UncompressedBytes m
           then [''uncompressed bytes '' @ Itoa (os_uncompressed s) @ '' != manifest ''
                 @ Itoa (man_UncompressedBytes m)] else [])
        @ (if os_sha256 s \<noteq> man_SHA256 m then [''sha256 mismatch''] else [])
        @ (if \<not> sameTime (os_first s) (man_FirstTimestamp m) \<or> \<not> sameTime (os_last s) (man_LastTimestamp m)
           then [''first/last timestamp mismatch''] else []))
       ''; ''"

text \<open>The identifier the ledger tracks for each source.\<close>

definition refFor :: "Line \<Rightarrow> string \<Rightarrow> recordRef" where
  "refFor l topic =
     (let field = (\<lambda>f. case str_field (line_Payload l) f of Some s \<Rightarrow> s | None \<Rightarrow> []) in
      if line_Source l = SourceStream
      then \<lparr>ref_source = line_Source l, ref_group = topic, ref_id = field ''EventIdentifier''\<rparr>
      else if line_Source l = SourceEventLog
      then \<lparr>ref_source = line_Source l, ref_group = [], ref_id = field ''REQUEST_ID''\<rparr>
      else if line_Source l = SourceSOQL
      then \<lparr>ref_source = line_Source l, ref_group = line_EventType l, ref_id = field ''Id''\<rparr>
      else \<lparr>ref_source = line_Source l, ref_group = [], ref_id = []\<rparr>)"

section \<open>The manifests\<close>

type_synonym manifests = "(string \<times> Manifest) list"

text \<open>One manifest of the listing: reported as broken, or entered under the key of its object.\<close>

definition process_manifest ::
  "(goerror \<Rightarrow> string) \<Rightarrow> string \<times> Manifest result \<Rightarrow> report \<times> manifests \<Rightarrow> report \<times> manifests" where
  "process_manifest errtext km acc =
     (case (km, acc) of ((k, fetched), (rep, ms)) \<Rightarrow>
        (case fetched of
           Inl err \<Rightarrow>
             (rep\<lparr>rep_UnreadableManifests := rep_UnreadableManifests rep @ [k @ '': '' @ errtext err]\<rparr>, ms)
         | Inr m \<Rightarrow>
             if man_ObjectKey m = [] then
               (rep\<lparr>rep_ManifestMismatches :=
                  rep_ManifestMismatches rep @ [k @ '' (manifest has no objectKey)'']\<rparr>, ms)
             else if map_of ms (man_ObjectKey m) \<noteq> None then
               (rep\<lparr>rep_ManifestMismatches :=
                  rep_ManifestMismatches rep @ [k @ '' (duplicate objectKey '' @ man_ObjectKey m @ '')'']\<rparr>, ms)
             else
               (if man_ManifestVersion m \<noteq> ManifestVersion
                then rep\<lparr>rep_UnsupportedManifests := rep_UnsupportedManifests rep
                       @ [k @ '' (manifestVersion '' @ Itoa (man_ManifestVersion m)
                            @ '', this verifier reads '' @ Itoa ManifestVersion @ '')'']\<rparr>
                else rep,
                ms @ [(man_ObjectKey m, m)])))"

section \<open>The data objects\<close>

record tally =
  ta_rep :: report
  ta_seen :: "string set"
  ta_streamIds :: "(string, counts) mapping"
  ta_elfIds :: counts
  ta_customIds :: "(string, counts) mapping"

definition add_id :: "(string, counts) mapping \<Rightarrow> string \<Rightarrow> string \<Rightarrow> (string, counts) mapping" where
  "add_id m g i = Mapping.update g (bump i (Mapping.lookup_default Mapping.empty m g)) m"

definition add_ref :: "recordRef \<Rightarrow> tally \<Rightarrow> tally" where
  "add_ref r ta =
     (if ref_source r = SourceStream
      then ta\<lparr>ta_streamIds := add_id (ta_streamIds ta) (ref_group r) (ref_id r)\<rparr>
      else if ref_source r = SourceEventLog then ta\<lparr>ta_elfIds := bump (ref_id r) (ta_elfIds ta)\<rparr>
      else if ref_source r = SourceSOQL
      then ta\<lparr>ta_customIds := add_id (ta_customIds ta) (ref_group r) (ref_id r)\<rparr>
      else ta)"

text \<open>
  What a worker merges under the mutex for one data object: with a manifest of the current format,
  or without one (\<open>None\<close>).
\<close>

definition merge_object ::
  "codec \<Rightarrow> s3_client \<Rightarrow> bool \<Rightarrow> string \<Rightarrow> Manifest option \<Rightarrow> tally \<Rightarrow> tally" where
  "merge_object C cl reconcile key m ta0 =
     (let ta = (if m \<noteq> None then ta0\<lparr>ta_seen := insert key (ta_seen ta0)\<rparr> else ta0);
          rep = ta_rep ta
      in case readObject C cl key of
           (_, Inl err) \<Rightarrow>
             ta\<lparr>ta_rep := rep\<lparr>rep_UnreadableObjects :=
                  rep_UnreadableObjects rep @ [key @ '': '' @ cl_text cl err]\<rparr>\<rparr>
         | (ls, Inr stats) \<Rightarrow>
             let rep1 =
                   (case m of
                      None \<Rightarrow> rep\<lparr>rep_ObjectsWithoutMan := rep_ObjectsWithoutMan rep + 1\<rparr>
                    | Some m \<Rightarrow>
                        if stats_compare stats m \<noteq> []
                        then rep\<lparr>rep_ManifestMismatches := rep_ManifestMismatches rep
                               @ [key @ '' ('' @ stats_compare stats m @ '')'']\<rparr>
                        else rep);
                 bySource = fold bump (map line_Source ls) Mapping.empty;
                 rep2 = rep1\<lparr>rep_RecordsBySource := Mapping.combine (+) (rep_RecordsBySource rep1) bySource\<rparr>;
                 topic = (case m of None \<Rightarrow> []
                          | Some m \<Rightarrow> (case map_of (man_Lineage m) ''topic'' of Some t \<Rightarrow> t | None \<Rightarrow> []))
             in fold add_ref (if reconcile then map (\<lambda>l. refFor l topic) ls else []) (ta\<lparr>ta_rep := rep2\<rparr>))"

definition verify_key ::
  "codec \<Rightarrow> s3_client \<Rightarrow> bool \<Rightarrow> manifests \<Rightarrow> string \<Rightarrow> tally \<Rightarrow> tally" where
  "verify_key C cl reconcile ms key ta =
     (case map_of ms key of
        None \<Rightarrow> merge_object C cl reconcile key None ta
      | Some m \<Rightarrow>
          if man_ManifestVersion m \<noteq> ManifestVersion then ta\<lparr>ta_seen := insert key (ta_seen ta)\<rparr>
          else merge_object C cl reconcile key (Some m) ta)"

section \<open>The ledger\<close>

definition compare_ids :: "string list \<Rightarrow> counts \<Rightarrow> gap" where
  "compare_ids expected seen =
     (let missing = filter (\<lambda>i. Mapping.lookup_default 0 seen i = 0) expected in
      \<lparr>gap_Expected = int (length expected), gap_Archived = int (Mapping.size seen),
       gap_Missing = int (length missing),
       gap_Duplicates = (\<Sum>k \<in> Mapping.keys seen.
          let c = Mapping.lookup_default 0 seen k in if 1 < c then c - 1 else 0),
       gap_Examples = sort (take 10 missing)\<rparr>)"

definition reconcile_ledger :: "Ledger \<Rightarrow> tally \<Rightarrow> report \<Rightarrow> report" where
  "reconcile_ledger lg ta rep =
     (let streams = map (\<lambda>(topic, ids).
            (topic, compare_ids ids (Mapping.lookup_default Mapping.empty (ta_streamIds ta) topic))) (lg_Streams lg);
          rows = compare_ids (concat (map snd (lg_EventLogFiles lg))) (ta_elfIds ta);
          custom = map (\<lambda>(obj, ids).
            (obj, compare_ids ids (Mapping.lookup_default Mapping.empty (ta_customIds ta) obj))) (lg_CustomRecords lg)
      in rep\<lparr>rep_Streams := streams, rep_EventLogRows := Some rows, rep_CustomRecords := custom,
             rep_OK := rep_OK rep \<and> list_all (\<lambda>x. gap_Missing (snd x) = 0) streams
               \<and> gap_Missing rows = 0 \<and> list_all (\<lambda>x. gap_Missing (snd x) = 0) custom\<rparr>)"

text \<open>\<open>fetchJSON\<close>: the response's status and body, or the transport's error.\<close>

definition fetchJSON :: "(string \<Rightarrow> Ledger result) \<Rightarrow> (int \<times> string) result \<Rightarrow> Ledger result" where
  "fetchJSON decodeLedger resp =
     (case resp of
        Inl err \<Rightarrow> Inl err
      | Inr (status, body) \<Rightarrow>
          if status \<noteq> 200 then Inl (Err ''unexpected status'') else decodeLedger body)"

section \<open>The run\<close>

definition empty_report :: "int \<Rightarrow> int \<Rightarrow> report" where
  "empty_report objects mans =
     \<lparr>rep_Objects = objects, rep_Manifests = mans, rep_ManifestMismatches = [],
      rep_ManifestsNoObject = [], rep_ObjectsWithoutMan = 0, rep_UnreadableObjects = [],
      rep_UnreadableManifests = [], rep_UnsupportedManifests = [], rep_RecordsBySource = Mapping.empty,
      rep_Streams = [], rep_EventLogRows = None, rep_CustomRecords = [], rep_OK = False\<rparr>"

definition new_tally :: "report \<Rightarrow> tally" where
  "new_tally rep = \<lparr>ta_rep = rep, ta_seen = {}, ta_streamIds = Mapping.empty, ta_elfIds = Mapping.empty,
     ta_customIds = Mapping.empty\<rparr>"

text \<open>After the workers: the manifests without an object, the sorted lists, the verdict.\<close>

definition conclude :: "bool \<Rightarrow> manifests \<Rightarrow> tally \<Rightarrow> report" where
  "conclude strict ms ta =
     (let rep = ta_rep ta;
          rep1 = rep\<lparr>rep_ManifestsNoObject := sort (filter (\<lambda>k. k \<notin> ta_seen ta) (map fst ms)),
                     rep_ManifestMismatches := sort (rep_ManifestMismatches rep),
                     rep_UnreadableObjects := sort (rep_UnreadableObjects rep),
                     rep_UnreadableManifests := sort (rep_UnreadableManifests rep),
                     rep_UnsupportedManifests := sort (rep_UnsupportedManifests rep)\<rparr>
      in rep1\<lparr>rep_OK := rep_ManifestMismatches rep1 = [] \<and> rep_ManifestsNoObject rep1 = []
           \<and> rep_UnreadableObjects rep1 = [] \<and> rep_UnreadableManifests rep1 = []
           \<and> rep_UnsupportedManifests rep1 = [] \<and> (\<not> strict \<or> rep_ObjectsWithoutMan rep1 = 0)\<rparr>)"

record verify_options =
  vo_bucket :: string
  vo_prefix :: string
  vo_strict :: bool
  vo_timeout :: ctx

text \<open>The process ends with exit code 2 and an error, or with a report (code 0 when it is OK).\<close>

datatype verdict = Exit2 goerror | Reported report

definition checkDeadline :: "ctx \<Rightarrow> time \<Rightarrow> goerror option" where
  "checkDeadline c now =
     (if ctx_done c now
      then Some (Err ''verification did not finish within -timeout; the report would be incomplete'')
      else None)"

definition key_base :: "string \<Rightarrow> string" where
  "key_base prefix = (let base = Trim (CHR ''/'') prefix in if base = [] then [] else base @ ''/'')"

definition read_manifests :: "codec \<Rightarrow> s3_client \<Rightarrow> string list \<Rightarrow> report \<Rightarrow> report \<times> manifests" where
  "read_manifests C cl manifestKeys rep =
     fold (process_manifest (cl_text cl)) (map (\<lambda>k. (k, getJSON C cl k)) manifestKeys) (rep, [])"

definition verify_main ::
  "codec \<Rightarrow> s3_client \<Rightarrow> verify_options \<Rightarrow> goerror option \<Rightarrow> (string list \<Rightarrow> string list)
   \<Rightarrow> Ledger result option \<Rightarrow> time \<Rightarrow> time \<Rightarrow> verdict" where
  "verify_main C cl vo awsErr order ledger t1 t2 =
     (if vo_bucket vo = [] then Exit2 (Err ''-bucket is required'')
      else case awsErr of
        Some err \<Rightarrow> Exit2 err
      | None \<Rightarrow>
     (case list_pages (cl_pages cl (key_base (vo_prefix vo) @ ''raw/'')) of
        Inl err \<Rightarrow> Exit2 err
      | Inr dataKeys \<Rightarrow>
     (case list_pages (cl_pages cl (key_base (vo_prefix vo) @ ''manifests/'')) of
        Inl err \<Rightarrow> Exit2 err
      | Inr manifestKeys \<Rightarrow>
     (case checkDeadline (vo_timeout vo) t1 of
        Some err \<Rightarrow> Exit2 err
      | None \<Rightarrow>
     (case read_manifests C cl manifestKeys (empty_report (int (length dataKeys)) (int (length manifestKeys))) of
        (rep, ms) \<Rightarrow>
          let ta = fold (verify_key C cl (ledger \<noteq> None) ms) (order dataKeys) (new_tally rep) in
          (case checkDeadline (vo_timeout vo) t2 of
             Some err \<Rightarrow> Exit2 err
           | None \<Rightarrow>
               let final = conclude (vo_strict vo) ms ta in
               (case ledger of
                  None \<Rightarrow> Reported final
                | Some (Inl err) \<Rightarrow> Exit2 err
                | Some (Inr lg) \<Rightarrow> Reported (reconcile_ledger lg ta final))))))))"

definition exit_code :: "verdict \<Rightarrow> int" where
  "exit_code v = (case v of Exit2 err \<Rightarrow> 2 | Reported rep \<Rightarrow> if rep_OK rep then 0 else 1)"

end
