(* ===== verification/Verify_Report.thy ===== *)
theory Verify_Report
  imports Verify
begin

text \<open>
  What a report of the verifier means: the effect of one object on the report in closed form, the
  report as a function of the set of objects and not of the order in which workers finish, the
  soundness of an \<open>OK\<close>, and the meaning of the ledger comparison.
\<close>

section \<open>Counting\<close>

lemma count_bump [simp]:
  "Mapping.lookup_default 0 (bump k m) j = Mapping.lookup_default 0 m j + (if j = k then 1 else 0)"
  by (simp add: bump_def lookup_default_update')

lemma bump_commute: "bump j (bump k m) = bump k (bump j m)"
  by (rule mapping_eqI) (simp add: bump_def lookup_default_update' lookup_update')

lemma keys_bump [simp]: "Mapping.keys (bump k m) = insert k (Mapping.keys m)"
  by (simp add: bump_def)

text \<open>How often an identifier of a group has been counted.\<close>

definition id_count :: "(string, counts) mapping \<Rightarrow> string \<Rightarrow> string \<Rightarrow> int" where
  "id_count m g i = Mapping.lookup_default 0 (Mapping.lookup_default Mapping.empty m g) i"

lemma id_count_add [simp]:
  "id_count (add_id m h j) g i = id_count m g i + (if g = h \<and> i = j then 1 else 0)"
  by (simp add: id_count_def add_id_def lookup_default_update')

lemma id_count_empty [simp]: "id_count Mapping.empty g i = 0"
  by (simp add: id_count_def lookup_default_empty)

lemma add_id_commute: "add_id (add_id m g i) h j = add_id (add_id m h j) g i"
  by (rule mapping_eqI)
    (auto simp: add_id_def lookup_default_update' lookup_update' bump_commute)

lemma add_ref_commute: "add_ref r (add_ref s ta) = add_ref s (add_ref r ta)"
  by (simp add: add_ref_def bump_commute add_id_commute)

lemma fold_add_ref_permuted:
  "mset rs = mset ss \<Longrightarrow> fold add_ref rs ta = fold add_ref ss ta"
  by (rule fun_cong [OF fold_multiset_equiv]) (simp_all add: fun_eq_iff add_ref_commute)

lemma add_ref_keeps [simp]: "ta_rep (add_ref r ta) = ta_rep ta" "ta_seen (add_ref r ta) = ta_seen ta"
  by (simp_all add: add_ref_def)

lemma fold_add_ref_keeps [simp]:
  "ta_rep (fold add_ref rs ta) = ta_rep ta" "ta_seen (fold add_ref rs ta) = ta_seen ta"
  by (induction rs arbitrary: ta) simp_all

text \<open>The counters, addressed by the reference they count.\<close>

definition tracked :: "recordRef \<Rightarrow> bool" where
  "tracked r \<longleftrightarrow> ref_source r \<in> {SourceStream, SourceSOQL} \<or> ref_source r = SourceEventLog \<and> ref_group r = []"

definition recorded :: "tally \<Rightarrow> recordRef \<Rightarrow> int" where
  "recorded ta r =
     (if ref_source r = SourceStream then id_count (ta_streamIds ta) (ref_group r) (ref_id r)
      else if ref_source r = SourceEventLog then Mapping.lookup_default 0 (ta_elfIds ta) (ref_id r)
      else if ref_source r = SourceSOQL then id_count (ta_customIds ta) (ref_group r) (ref_id r)
      else 0)"

lemmas source_defs = SourceStream_def SourceEventLog_def SourceSOQL_def

lemma recorded_add:
  "tracked r \<Longrightarrow> tracked s \<or> ref_source s \<notin> {SourceStream, SourceEventLog, SourceSOQL} \<Longrightarrow>
     recorded (add_ref s ta) r = recorded ta r + (if r = s then 1 else 0)"
  by (cases r; cases s) (auto simp: recorded_def add_ref_def tracked_def source_defs)

lemma refFor_tracked: "tracked (refFor l topic) \<or> ref_source (refFor l topic) \<notin> {SourceStream, SourceEventLog, SourceSOQL}"
  by (simp add: refFor_def tracked_def)

lemma recorded_fold:
  assumes "tracked r"
    and "\<And>s. s \<in> set rs \<Longrightarrow> tracked s \<or> ref_source s \<notin> {SourceStream, SourceEventLog, SourceSOQL}"
  shows "recorded (fold add_ref rs ta) r = recorded ta r + int (length (filter ((=) r) rs))"
  using assms(2) by (induction rs arbitrary: ta) (simp_all add: recorded_add [OF assms(1)])

section \<open>One object in closed form\<close>

definition supported :: "manifests \<Rightarrow> string \<Rightarrow> bool" where
  "supported ms k \<longleftrightarrow> (case map_of ms k of None \<Rightarrow> True | Some m \<Rightarrow> man_ManifestVersion m = ManifestVersion)"

definition unreadable_of :: "codec \<Rightarrow> s3_client \<Rightarrow> manifests \<Rightarrow> string \<Rightarrow> string list" where
  "unreadable_of C cl ms k =
     (if supported ms k
      then (case readObject C cl k of (_, Inl err) \<Rightarrow> [k @ '': '' @ cl_text cl err] | _ \<Rightarrow> [])
      else [])"

definition mismatch_of :: "codec \<Rightarrow> s3_client \<Rightarrow> manifests \<Rightarrow> string \<Rightarrow> string list" where
  "mismatch_of C cl ms k =
     (if supported ms k
      then (case (readObject C cl k, map_of ms k) of
              ((_, Inr stats), Some m) \<Rightarrow>
                if stats_compare stats m \<noteq> [] then [k @ '' ('' @ stats_compare stats m @ '')''] else []
            | _ \<Rightarrow> [])
      else [])"

definition without_of :: "codec \<Rightarrow> s3_client \<Rightarrow> manifests \<Rightarrow> string \<Rightarrow> int" where
  "without_of C cl ms k =
     (case (readObject C cl k, map_of ms k) of ((_, Inr stats), None) \<Rightarrow> 1 | _ \<Rightarrow> 0)"

definition lines_of :: "codec \<Rightarrow> s3_client \<Rightarrow> manifests \<Rightarrow> string \<Rightarrow> Line list" where
  "lines_of C cl ms k =
     (if supported ms k then (case readObject C cl k of (ls, Inr stats) \<Rightarrow> ls | _ \<Rightarrow> []) else [])"

definition topic_of :: "manifests \<Rightarrow> string \<Rightarrow> string" where
  "topic_of ms k =
     (case map_of ms k of None \<Rightarrow> []
      | Some m \<Rightarrow> (case map_of (man_Lineage m) ''topic'' of Some t \<Rightarrow> t | None \<Rightarrow> []))"

definition refs_of :: "codec \<Rightarrow> s3_client \<Rightarrow> bool \<Rightarrow> manifests \<Rightarrow> string \<Rightarrow> recordRef list" where
  "refs_of C cl reconcile ms k =
     (if reconcile then map (\<lambda>l. refFor l (topic_of ms k)) (lines_of C cl ms k) else [])"

definition sources_of :: "codec \<Rightarrow> s3_client \<Rightarrow> manifests \<Rightarrow> string \<Rightarrow> counts" where
  "sources_of C cl ms k = fold bump (map line_Source (lines_of C cl ms k)) Mapping.empty"

definition seen_of :: "manifests \<Rightarrow> string \<Rightarrow> string set" where
  "seen_of ms k = (if map_of ms k = None then {} else {k})"

lemmas effect_defs = unreadable_of_def mismatch_of_def without_of_def lines_of_def topic_of_def
  refs_of_def sources_of_def seen_of_def supported_def

lemma verify_key_effect:
  "verify_key C cl reconcile ms k ta =
     fold add_ref (refs_of C cl reconcile ms k)
       (ta\<lparr>ta_seen := seen_of ms k \<union> ta_seen ta,
           ta_rep := (ta_rep ta)
             \<lparr>rep_UnreadableObjects := rep_UnreadableObjects (ta_rep ta) @ unreadable_of C cl ms k,
              rep_ManifestMismatches := rep_ManifestMismatches (ta_rep ta) @ mismatch_of C cl ms k,
              rep_ObjectsWithoutMan := rep_ObjectsWithoutMan (ta_rep ta) + without_of C cl ms k,
              rep_RecordsBySource :=
                Mapping.combine (+) (rep_RecordsBySource (ta_rep ta)) (sources_of C cl ms k)\<rparr>\<rparr>)"
proof (cases "map_of ms k")
  case None
  then show ?thesis
    by (cases "readObject C cl k"; cases "snd (readObject C cl k)"; cases ta; cases "ta_rep ta")
      (auto simp: verify_key_def merge_object_def effect_defs Let_def)
next
  case (Some m)
  then show ?thesis
    by (cases "readObject C cl k"; cases "snd (readObject C cl k)"; cases ta; cases "ta_rep ta")
      (auto simp: verify_key_def merge_object_def effect_defs Let_def)
qed

lemma verify_key_parts:
  "ta_seen (verify_key C cl rc ms k ta) = seen_of ms k \<union> ta_seen ta"
  "rep_UnreadableObjects (ta_rep (verify_key C cl rc ms k ta))
     = rep_UnreadableObjects (ta_rep ta) @ unreadable_of C cl ms k"
  "rep_ManifestMismatches (ta_rep (verify_key C cl rc ms k ta))
     = rep_ManifestMismatches (ta_rep ta) @ mismatch_of C cl ms k"
  "rep_ObjectsWithoutMan (ta_rep (verify_key C cl rc ms k ta))
     = rep_ObjectsWithoutMan (ta_rep ta) + without_of C cl ms k"
  "rep_UnreadableManifests (ta_rep (verify_key C cl rc ms k ta)) = rep_UnreadableManifests (ta_rep ta)"
  "rep_UnsupportedManifests (ta_rep (verify_key C cl rc ms k ta)) = rep_UnsupportedManifests (ta_rep ta)"
  by (simp_all add: verify_key_effect)

lemma verify_keys_parts:
  "ta_seen (fold (verify_key C cl rc ms) ks ta) = (\<Union>k \<in> set ks. seen_of ms k) \<union> ta_seen ta"
  "rep_UnreadableObjects (ta_rep (fold (verify_key C cl rc ms) ks ta))
     = rep_UnreadableObjects (ta_rep ta) @ concat (map (unreadable_of C cl ms) ks)"
  "rep_ManifestMismatches (ta_rep (fold (verify_key C cl rc ms) ks ta))
     = rep_ManifestMismatches (ta_rep ta) @ concat (map (mismatch_of C cl ms) ks)"
  "rep_ObjectsWithoutMan (ta_rep (fold (verify_key C cl rc ms) ks ta))
     = rep_ObjectsWithoutMan (ta_rep ta) + sum_list (map (without_of C cl ms) ks)"
  "rep_UnreadableManifests (ta_rep (fold (verify_key C cl rc ms) ks ta)) = rep_UnreadableManifests (ta_rep ta)"
  "rep_UnsupportedManifests (ta_rep (fold (verify_key C cl rc ms) ks ta)) = rep_UnsupportedManifests (ta_rep ta)"
  by (induction ks arbitrary: ta) (auto simp: verify_key_parts)

lemma recorded_verify_key:
  assumes "tracked r"
  shows "recorded (verify_key C cl True ms k ta) r
    = recorded ta r + int (length (filter ((=) r) (refs_of C cl True ms k)))"
proof -
  have "s \<in> set (refs_of C cl True ms k) \<Longrightarrow>
      tracked s \<or> ref_source s \<notin> {SourceStream, SourceEventLog, SourceSOQL}" for s
    using refFor_tracked by (auto simp: refs_of_def)
  note count = recorded_fold [OF assms this]
  have same: "recorded (ta\<lparr>ta_seen := u, ta_rep := v\<rparr>) r = recorded ta r" for u v
    by (simp add: recorded_def)
  show ?thesis
    by (simp add: verify_key_effect count same)
qed

lemma recorded_verify_keys:
  assumes "tracked r"
  shows "recorded (fold (verify_key C cl True ms) ks ta) r
    = recorded ta r + int (length (filter ((=) r) (concat (map (refs_of C cl True ms) ks))))"
  by (induction ks arbitrary: ta) (simp_all add: recorded_verify_key [OF assms])

section \<open>The manifests\<close>

text \<open>The complaints of the first phase, and the manifests it lets pass.\<close>

definition complaints :: "report \<Rightarrow> string list" where
  "complaints rep = rep_ManifestMismatches rep @ rep_UnreadableManifests rep @ rep_UnsupportedManifests rep"

abbreviation keyed :: "Manifest list \<Rightarrow> manifests" where
  "keyed Ms \<equiv> map (\<lambda>m. (man_ObjectKey m, m)) Ms"

definition fine :: "manifests \<Rightarrow> Manifest \<Rightarrow> bool" where
  "fine ms m \<longleftrightarrow> man_ObjectKey m \<noteq> [] \<and> map_of ms (man_ObjectKey m) = None
     \<and> man_ManifestVersion m = ManifestVersion"

lemma process_manifest_cases:
  assumes "process_manifest errtext (k, f) (rep, ms) = (rep', ms')"
  shows "(\<exists>m. f = Inr m \<and> fine ms m \<and> rep' = rep \<and> ms' = ms @ keyed [m]) \<or> complaints rep' \<noteq> []"
  using assms
  by (auto simp: process_manifest_def fine_def complaints_def split: sum.splits if_splits option.splits)

lemma process_manifest_mono:
  assumes "process_manifest errtext kf (rep, ms) = (rep', ms')" "complaints rep' = []"
  shows "complaints rep = []"
  using assms
  by (cases kf) (auto simp: process_manifest_def complaints_def split: sum.splits if_splits option.splits)

lemma process_manifest_fine:
  "fine ms m \<Longrightarrow> process_manifest errtext (k, Inr m) (rep, ms) = (rep, ms @ keyed [m])"
  by (simp add: process_manifest_def fine_def)

lemma process_manifests_mono:
  assumes "fold (process_manifest errtext) kfs (rep, ms) = (rep', ms')" "complaints rep' = []"
  shows "complaints rep = []"
  using assms
proof (induction kfs arbitrary: rep ms)
  case (Cons kf kfs)
  obtain rep1 ms1 where p: "process_manifest errtext kf (rep, ms) = (rep1, ms1)" by fastforce
  with Cons have "complaints rep1 = []" by simp
  with p show ?case by (rule process_manifest_mono)
qed simp

text \<open>
  Without complaints, every manifest was read, names an object of its own and has the format of
  this verifier.
\<close>

lemma process_manifests_sound:
  assumes "fold (process_manifest errtext) (map (\<lambda>k. (k, f k)) ks) (rep, ms) = (rep', ms')"
    and "complaints rep' = []" "distinct (map fst ms)"
  shows "\<exists>Ms. map f ks = map Inr Ms \<and> rep' = rep \<and> ms' = ms @ keyed Ms \<and> distinct (map fst ms')
    \<and> (\<forall>m \<in> set Ms. man_ManifestVersion m = ManifestVersion)"
  using assms
proof (induction ks arbitrary: rep ms)
  case Nil
  then show ?case by simp
next
  case (Cons k ks)
  obtain rep1 ms1 where p: "process_manifest errtext (k, f k) (rep, ms) = (rep1, ms1)" by fastforce
  with Cons.prems(1) have rest: "fold (process_manifest errtext) (map (\<lambda>k. (k, f k)) ks) (rep1, ms1) = (rep', ms')"
    by simp
  then have "complaints rep1 = []" using process_manifests_mono Cons.prems(2) by blast
  with process_manifest_cases [OF p] obtain m
    where m: "f k = Inr m" "fine ms m" "rep1 = rep" "ms1 = ms @ keyed [m]" by blast
  have "distinct (map fst ms1)"
    using Cons.prems(3) m(2,4) by (auto simp: fine_def map_of_eq_None_iff)
  from Cons.IH [OF rest Cons.prems(2) this] obtain Ms where
    "map f ks = map Inr Ms" "rep' = rep1" "ms' = ms1 @ keyed Ms" "distinct (map fst ms')"
    "\<forall>m \<in> set Ms. man_ManifestVersion m = ManifestVersion" by blast
  then show ?case using m by (intro exI [of _ "m # Ms"]) (simp add: fine_def)
qed

lemma process_manifests_complete:
  assumes "distinct (map man_ObjectKey Ms)"
    and "\<And>m. m \<in> set Ms \<Longrightarrow> fine ms m"
  shows "fold (process_manifest errtext) (zip ks (map Inr Ms)) (rep, ms)
    = (rep, ms @ keyed (take (length ks) Ms))"
  using assms
proof (induction Ms arbitrary: ms ks)
  case Nil
  then show ?case by simp
next
  case (Cons m Ms)
  show ?case
  proof (cases ks)
    case (Cons k ks')
    have "fine (ms @ keyed [m]) n" if "n \<in> set Ms" for n
    proof -
      have "fine ms n" "man_ObjectKey n \<noteq> man_ObjectKey m"
        using Cons.prems that by (auto simp: image_iff)
      then show ?thesis by (auto simp: fine_def map_add_Some_iff map_of_eq_None_iff)
    qed
    then show ?thesis
      using Cons.IH [of "ms @ keyed [m]" ks'] Cons.prems Cons
      by (simp add: process_manifest_fine)
  qed simp
qed

section \<open>An OK is sound\<close>

lemma sort_eq_Nil [simp]: "sort xs = [] \<longleftrightarrow> xs = ([] :: string list)"
  by (metis set_empty set_sort)

lemma conclude_OK:
  "rep_OK (conclude strict ms ta) \<longleftrightarrow>
     rep_ManifestMismatches (ta_rep ta) = [] \<and> fst ` set ms \<subseteq> ta_seen ta
     \<and> rep_UnreadableObjects (ta_rep ta) = [] \<and> rep_UnreadableManifests (ta_rep ta) = []
     \<and> rep_UnsupportedManifests (ta_rep ta) = [] \<and> (\<not> strict \<or> rep_ObjectsWithoutMan (ta_rep ta) = 0)"
  by (auto simp: conclude_def Let_def filter_empty_conv)

lemma reconcile_OK: "rep_OK (reconcile_ledger lg ta rep) \<Longrightarrow> rep_OK rep"
  by (simp add: reconcile_ledger_def Let_def)

lemma sameTime_eq [simp]: "sameTime a b \<longleftrightarrow> a = b"
  by (auto simp: sameTime_def split: option.splits)

lemma Join_eq_Nil: "\<forall>p \<in> set ps. p \<noteq> [] \<Longrightarrow> Join ps sep = [] \<longleftrightarrow> ps = []"
  by (induction ps sep rule: Join.induct) auto

lemma stats_compare_eq_Nil:
  "stats_compare s m = [] \<longleftrightarrow>
     os_records s = man_RecordCount m \<and> os_compressed s = man_CompressedBytes m
     \<and> os_uncompressed s = man_UncompressedBytes m \<and> os_sha256 s = man_SHA256 m
     \<and> os_first s = man_FirstTimestamp m \<and> os_last s = man_LastTimestamp m"
  unfolding stats_compare_def by (subst Join_eq_Nil) auto

text \<open>What it means that a manifest describes an object body.\<close>

definition describes :: "codec \<Rightarrow> Manifest \<Rightarrow> string \<Rightarrow> bool" where
  "describes C m b \<longleftrightarrow>
     (\<exists>ls. DecodeObjectCounted C b = (ls, Inr (man_UncompressedBytes m))
        \<and> man_RecordCount m = int (length ls) \<and> man_CompressedBytes m = int (length b)
        \<and> man_SHA256 m = hex_encode (Sum256 b)
        \<and> man_FirstTimestamp m = tr_First (range_of (map line_Timestamp ls))
        \<and> man_LastTimestamp m = tr_Last (range_of (map line_Timestamp ls)))"

lemma describes_scan:
  "describes C m b \<longleftrightarrow> (\<exists>ls s. scanObject C b = (ls, Inr s) \<and> stats_compare s m = [])"
  by (cases "DecodeObjectCounted C b"; cases "snd (DecodeObjectCounted C b)")
    (auto simp: describes_def scanObject_def stats_compare_eq_Nil Let_def)

lemma readObject_Inr: "readObject C cl k = (ls, Inr s) \<Longrightarrow> \<exists>b. cl_get cl k = Inr b \<and> scanObject C b = (ls, Inr s)"
  by (auto simp: readObject_def split: sum.splits)

lemma verify_main_Reported:
  assumes "verify_main C cl vo awsErr order ledger t1 t2 = Reported rep"
  obtains dataKeys manifestKeys rep0 ms ta where
    "list_pages (cl_pages cl (key_base (vo_prefix vo) @ ''raw/'')) = Inr dataKeys"
    "list_pages (cl_pages cl (key_base (vo_prefix vo) @ ''manifests/'')) = Inr manifestKeys"
    "read_manifests C cl manifestKeys (empty_report (int (length dataKeys)) (int (length manifestKeys))) = (rep0, ms)"
    "ta = fold (verify_key C cl (ledger \<noteq> None) ms) (order dataKeys) (new_tally rep0)"
    "ledger = None \<and> rep = conclude (vo_strict vo) ms ta
     \<or> (\<exists>lg. ledger = Some (Inr lg) \<and> rep = reconcile_ledger lg ta (conclude (vo_strict vo) ms ta))"
  using assms unfolding verify_main_def Let_def
  by (auto split: if_splits option.splits sum.splits prod.splits)

lemma exit_0: "exit_code v = 0 \<Longrightarrow> \<exists>rep. v = Reported rep \<and> rep_OK rep"
  by (auto simp: exit_code_def split: verdict.splits if_splits)

lemma new_tally_simps [simp]:
  "ta_rep (new_tally rep) = rep" "ta_seen (new_tally rep) = {}" "recorded (new_tally rep) r = 0"
  by (simp_all add: new_tally_def recorded_def lookup_default_empty)

lemma empty_report_simps [simp]:
  "complaints (empty_report a b) = []" "rep_UnreadableObjects (empty_report a b) = []"
  "rep_ObjectsWithoutMan (empty_report a b) = 0" "rep_RecordsBySource (empty_report a b) = Mapping.empty"
  by (simp_all add: empty_report_def complaints_def)

text \<open>The verdict of a run in terms of what was listed and read.\<close>

lemma verify_OK_inversion:
  assumes "exit_code (verify_main C cl vo awsErr order ledger t1 t2) = 0"
    and order: "\<And>ks. set (order ks) = set ks"
  obtains dataKeys manifestKeys Ms where
    "list_pages (cl_pages cl (key_base (vo_prefix vo) @ ''raw/'')) = Inr dataKeys"
    "list_pages (cl_pages cl (key_base (vo_prefix vo) @ ''manifests/'')) = Inr manifestKeys"
    "map (getJSON C cl) manifestKeys = map Inr Ms" "distinct (map man_ObjectKey Ms)"
    "\<And>m. m \<in> set Ms \<Longrightarrow> man_ManifestVersion m = ManifestVersion \<and> man_ObjectKey m \<in> set dataKeys"
    "\<And>k. k \<in> set dataKeys \<Longrightarrow> unreadable_of C cl (keyed Ms) k = [] \<and> mismatch_of C cl (keyed Ms) k = []"
    "vo_strict vo \<Longrightarrow> sum_list (map (without_of C cl (keyed Ms)) (order dataKeys)) = 0"
proof -
  obtain rep where rep: "verify_main C cl vo awsErr order ledger t1 t2 = Reported rep" "rep_OK rep"
    using exit_0 [OF assms(1)] by blast
  obtain dataKeys manifestKeys rep0 ms ta where run:
    "list_pages (cl_pages cl (key_base (vo_prefix vo) @ ''raw/'')) = Inr dataKeys"
    "list_pages (cl_pages cl (key_base (vo_prefix vo) @ ''manifests/'')) = Inr manifestKeys"
    "read_manifests C cl manifestKeys (empty_report (int (length dataKeys)) (int (length manifestKeys))) = (rep0, ms)"
    "ta = fold (verify_key C cl (ledger \<noteq> None) ms) (order dataKeys) (new_tally rep0)"
    and fin: "ledger = None \<and> rep = conclude (vo_strict vo) ms ta
      \<or> (\<exists>lg. ledger = Some (Inr lg) \<and> rep = reconcile_ledger lg ta (conclude (vo_strict vo) ms ta))"
    by (rule verify_main_Reported [OF rep(1)])
  have "rep_OK (conclude (vo_strict vo) ms ta)"
    using fin rep(2) reconcile_OK by blast
  note ok = this [unfolded conclude_OK run(4) verify_keys_parts new_tally_simps]
  then have "complaints rep0 = []" by (simp add: complaints_def)
  from process_manifests_sound [OF run(3) [unfolded read_manifests_def] this]
  obtain Ms where Ms: "map (getJSON C cl) manifestKeys = map Inr Ms" "ms = keyed Ms"
    "distinct (map man_ObjectKey Ms)" "\<forall>m \<in> set Ms. man_ManifestVersion m = ManifestVersion"
    and rep0: "rep_ObjectsWithoutMan rep0 = 0"
    by (auto simp: comp_def)
  have "man_ObjectKey m \<in> set dataKeys" if "m \<in> set Ms" for m
    using ok that Ms(2) order by (auto simp: seen_of_def image_image split: if_splits)
  moreover have "unreadable_of C cl (keyed Ms) k = [] \<and> mismatch_of C cl (keyed Ms) k = []"
    if "k \<in> set dataKeys" for k
    using ok that order [of dataKeys] Ms(2) by auto
  ultimately show thesis
    using that [OF run(1,2) Ms(1,3)] Ms ok rep0 by auto
qed

text \<open>Reading off the lists of complaints.\<close>

lemma all_read:
  assumes "map f ks = map Inr Ms"
  shows "km \<in> set ks \<Longrightarrow> \<exists>m \<in> set Ms. f km = Inr m" and "m \<in> set Ms \<Longrightarrow> \<exists>km \<in> set ks. f km = Inr m"
proof -
  have same: "f ` set ks = Inr ` set Ms"
    using arg_cong [OF assms, of set] by simp
  show "km \<in> set ks \<Longrightarrow> \<exists>m \<in> set Ms. f km = Inr m" using same by blast
  assume "m \<in> set Ms"
  then have "Inr m \<in> f ` set ks" using same by blast
  then show "\<exists>km \<in> set ks. f km = Inr m" by force
qed

lemma clean_object:
  "unreadable_of C cl ms k = [] \<Longrightarrow> supported ms k \<Longrightarrow> \<exists>ls s. readObject C cl k = (ls, Inr s)"
  by (cases "readObject C cl k"; cases "snd (readObject C cl k)") (auto simp: unreadable_of_def)

lemma clean_body:
  "readObject C cl k = (ls, Inr s) \<Longrightarrow> \<exists>b ls n. cl_get cl k = Inr b \<and> DecodeObjectCounted C b = (ls, Inr n)"
  by (auto simp: scanObject_def dest!: readObject_Inr split: prod.splits sum.splits)

lemma clean_match:
  assumes "unreadable_of C cl ms k = [] \<and> mismatch_of C cl ms k = []" "supported ms k" "map_of ms k = Some m"
  shows "\<exists>b. cl_get cl k = Inr b \<and> describes C m b"
proof -
  obtain ls s where r: "readObject C cl k = (ls, Inr s)" using clean_object assms by blast
  then have "stats_compare s m = []" using assms by (simp add: mismatch_of_def split: if_splits)
  then show ?thesis using readObject_Inr [OF r] describes_scan by blast
qed

lemma keyed_lookup: "distinct (map man_ObjectKey Ms) \<Longrightarrow> m \<in> set Ms \<Longrightarrow> map_of (keyed Ms) (man_ObjectKey m) = Some m"
  by (simp add: comp_def)

lemma keyed_supported: "(\<And>m. m \<in> set Ms \<Longrightarrow> man_ManifestVersion m = ManifestVersion) \<Longrightarrow> supported (keyed Ms) k"
  by (auto simp: supported_def dest!: map_of_SomeD split: option.splits)

lemma all_without:
  assumes "sum_list (map (without_of C cl ms) ks) = 0" "k \<in> set ks" "readObject C cl k = (ls, Inr s)"
  shows "map_of ms k \<noteq> None"
proof -
  have "without_of C cl ms k = 0"
    using assms(1,2) by (subst (asm) sum_list_nonneg_eq_0_iff)
      (auto simp: without_of_def split: prod.splits sum.splits option.splits)
  with assms(3) show ?thesis by (cases "map_of ms k") (auto simp: without_of_def)
qed

text \<open>
  C13: exit code 0 is sound. Every listed data object was read and decodes; every listed manifest was
  read, and the object it names is listed and is exactly what the manifest says: record count, both
  sizes, SHA-256 and the range of timestamps. With \<^verbatim>\<open>-strict\<close> every data object also has its manifest.
\<close>

theorem verify_exit_0_sound:
  assumes "exit_code (verify_main C cl vo awsErr order ledger t1 t2) = 0"
    and "\<And>ks. mset (order ks) = mset ks"
    and "list_pages (cl_pages cl (key_base (vo_prefix vo) @ ''raw/'')) = Inr dataKeys"
    and "list_pages (cl_pages cl (key_base (vo_prefix vo) @ ''manifests/'')) = Inr manifestKeys"
  shows "(\<forall>k \<in> set dataKeys. \<exists>b ls n. cl_get cl k = Inr b \<and> DecodeObjectCounted C b = (ls, Inr n))
    \<and> (\<forall>km \<in> set manifestKeys. \<exists>m b. getJSON C cl km = Inr m \<and> man_ObjectKey m \<in> set dataKeys
         \<and> cl_get cl (man_ObjectKey m) = Inr b \<and> describes C m b)
    \<and> (vo_strict vo \<longrightarrow>
         (\<forall>k \<in> set dataKeys. \<exists>km m. km \<in> set manifestKeys \<and> getJSON C cl km = Inr m \<and> man_ObjectKey m = k))"
proof -
  have order: "set (order ks) = set ks" for ks
    using assms(2) mset_eq_setD by blast
  from assms(1) order obtain dataKeys' manifestKeys' Ms where
    "list_pages (cl_pages cl (key_base (vo_prefix vo) @ ''raw/'')) = Inr dataKeys'"
    "list_pages (cl_pages cl (key_base (vo_prefix vo) @ ''manifests/'')) = Inr manifestKeys'"
    and Ms0: "map (getJSON C cl) manifestKeys' = map Inr Ms"
    and dist: "distinct (map man_ObjectKey Ms)"
    and inside: "\<And>m. m \<in> set Ms \<Longrightarrow> man_ManifestVersion m = ManifestVersion \<and> man_ObjectKey m \<in> set dataKeys'"
    and clean0: "\<And>k. k \<in> set dataKeys' \<Longrightarrow> unreadable_of C cl (keyed Ms) k = [] \<and> mismatch_of C cl (keyed Ms) k = []"
    and strict0: "vo_strict vo \<Longrightarrow> sum_list (map (without_of C cl (keyed Ms)) (order dataKeys')) = 0"
    by (rule verify_OK_inversion) blast
  with assms(3,4) have Ms: "map (getJSON C cl) manifestKeys = map Inr Ms" and keys: "dataKeys' = dataKeys" by auto
  note clean = clean0 [unfolded keys] and strict = strict0 [unfolded keys] and inside = inside [unfolded keys]
  note lookup = keyed_lookup [OF dist]
  have sup: "supported (keyed Ms) k" for k using keyed_supported inside by blast
  have read: "\<exists>ls s. readObject C cl k = (ls, Inr s)" if "k \<in> set dataKeys" for k
    using clean_object clean [OF that] sup by blast
  have mans: "\<exists>m b. getJSON C cl km = Inr m \<and> man_ObjectKey m \<in> set dataKeys
      \<and> cl_get cl (man_ObjectKey m) = Inr b \<and> describes C m b" if "km \<in> set manifestKeys" for km
    using all_read(1) [OF Ms that] inside clean_match [OF clean sup lookup] by metis
  have "\<exists>km m. km \<in> set manifestKeys \<and> getJSON C cl km = Inr m \<and> man_ObjectKey m = k"
    if k: "vo_strict vo" "k \<in> set dataKeys" for k
  proof -
    obtain ls s where r: "readObject C cl k = (ls, Inr s)" using read [OF k(2)] by blast
    have "k \<in> set (order dataKeys)" using k(2) order by simp
    from all_without [OF strict [OF k(1)] this r] obtain m where "map_of (keyed Ms) k = Some m" by blast
    then have "m \<in> set Ms" "man_ObjectKey m = k" by (auto dest!: map_of_SomeD)
    then show ?thesis using all_read(2) [OF Ms] by blast
  qed
  then show ?thesis using read clean_body mans by blast
qed

section \<open>The order of the workers\<close>

lemma sort_cong_mset: "mset xs = mset ys \<Longrightarrow> sort xs = sort (ys :: string list)"
  by (rule properties_for_sort) simp_all

lemma mset_concat_permuted:
  assumes "mset xs = mset ys"
  shows "mset (concat (map f xs)) = mset (concat (map f ys))"
proof -
  have "mset (concat (map f zs)) = \<Sum>\<^sub># (image_mset (\<lambda>x. mset (f x)) (mset zs))" for zs
    by (induction zs) simp_all
  with assms show ?thesis by simp
qed

lemma sum_list_permuted: "mset xs = mset ys \<Longrightarrow> sum_list (map f xs) = sum_list (map f ys)"
  for f :: "'a \<Rightarrow> int"
  by (metis mset_map sum_mset_sum_list)

lemma add_counts_commute:
  "Mapping.combine (+) (Mapping.combine (+) m a) b = Mapping.combine (+) (Mapping.combine (+) m b) (a :: counts)"
proof (rule mapping_eqI)
  show "Mapping.lookup (Mapping.combine (+) (Mapping.combine (+) m a) b) x
      = Mapping.lookup (Mapping.combine (+) (Mapping.combine (+) m b) a) x" for x
    by (cases "Mapping.lookup m x"; cases "Mapping.lookup a x"; cases "Mapping.lookup b x")
      (simp_all add: lookup_combine)
qed

definition ids :: "tally \<Rightarrow> (string, counts) mapping \<times> counts \<times> (string, counts) mapping" where
  "ids ta = (ta_streamIds ta, ta_elfIds ta, ta_customIds ta)"

lemma ids_add_ref:
  "ids (add_ref r ta) =
     (case ids ta of (s, e, c) \<Rightarrow>
        if ref_source r = SourceStream then (add_id s (ref_group r) (ref_id r), e, c)
        else if ref_source r = SourceEventLog then (s, bump (ref_id r) e, c)
        else if ref_source r = SourceSOQL then (s, e, add_id c (ref_group r) (ref_id r))
        else (s, e, c))"
  by (simp add: ids_def add_ref_def)

lemma ids_fold: "ids ta = ids ta' \<Longrightarrow> ids (fold add_ref rs ta) = ids (fold add_ref rs ta')"
proof (induction rs arbitrary: ta ta')
  case (Cons r rs)
  have "ids (add_ref r ta) = ids (add_ref r ta')"
    unfolding ids_add_ref Cons.prems by (rule refl)
  from Cons.IH [OF this] show ?case by simp
qed simp

lemma ids_verify_keys:
  "ids (fold (verify_key C cl rc ms) ks ta) = ids (fold add_ref (concat (map (refs_of C cl rc ms) ks)) ta)"
proof (induction ks arbitrary: ta)
  case (Cons k ks)
  have "ids (verify_key C cl rc ms k ta) = ids (fold add_ref (refs_of C cl rc ms k) ta)"
    unfolding verify_key_effect by (rule ids_fold) (simp add: ids_def)
  then have "ids (fold add_ref rs (verify_key C cl rc ms k ta))
      = ids (fold add_ref rs (fold add_ref (refs_of C cl rc ms k) ta))" for rs
    by (rule ids_fold)
  then show ?case using Cons.IH by simp
qed simp

lemma rep_verify_keys:
  "ta_rep (fold (verify_key C cl rc ms) ks ta) = (ta_rep ta)
     \<lparr>rep_UnreadableObjects := rep_UnreadableObjects (ta_rep ta) @ concat (map (unreadable_of C cl ms) ks),
      rep_ManifestMismatches := rep_ManifestMismatches (ta_rep ta) @ concat (map (mismatch_of C cl ms) ks),
      rep_ObjectsWithoutMan := rep_ObjectsWithoutMan (ta_rep ta) + sum_list (map (without_of C cl ms) ks),
      rep_RecordsBySource :=
        fold (\<lambda>k m. Mapping.combine (+) m (sources_of C cl ms k)) ks (rep_RecordsBySource (ta_rep ta))\<rparr>"
  by (induction ks arbitrary: ta) (simp_all add: verify_key_effect)

lemma conclude_cong:
  assumes "mset ks = mset ks'"
  shows "conclude strict ms (fold (verify_key C cl rc ms) ks ta)
      = conclude strict ms (fold (verify_key C cl rc ms) ks' ta)"
    and "ids (fold (verify_key C cl rc ms) ks ta) = ids (fold (verify_key C cl rc ms) ks' ta)"
proof -
  have lists: "sort (u @ concat (map f ks)) = sort (u @ concat (map f ks'))" for u and f :: "string \<Rightarrow> string list"
    by (rule sort_cong_mset) (simp add: mset_concat_permuted [OF assms(1)])
  have sums: "sum_list (map f ks) = sum_list (map f ks')" for f :: "string \<Rightarrow> int"
    using assms(1) by (rule sum_list_permuted)
  have srcs: "fold (\<lambda>k m. Mapping.combine (+) m (sources_of C cl ms k)) ks
      = fold (\<lambda>k m. Mapping.combine (+) m (sources_of C cl ms k)) ks'"
    using assms(1) by (intro fold_multiset_equiv) (simp_all add: fun_eq_iff add_counts_commute)
  have seen: "ta_seen (fold (verify_key C cl rc ms) ks ta) = ta_seen (fold (verify_key C cl rc ms) ks' ta)"
    using mset_eq_setD [OF assms(1)] by (simp add: verify_keys_parts)
  show "conclude strict ms (fold (verify_key C cl rc ms) ks ta)
      = conclude strict ms (fold (verify_key C cl rc ms) ks' ta)"
    unfolding conclude_def Let_def seen rep_verify_keys
    by (simp add: lists sums srcs)
  show "ids (fold (verify_key C cl rc ms) ks ta) = ids (fold (verify_key C cl rc ms) ks' ta)"
    unfolding ids_verify_keys
    using fold_add_ref_permuted [OF mset_concat_permuted [OF assms(1)]] by metis
qed

lemma reconcile_cong: "ids ta = ids ta' \<Longrightarrow> reconcile_ledger lg ta rep = reconcile_ledger lg ta' rep"
  by (simp add: ids_def reconcile_ledger_def)

text \<open>
  C15: the result of a run, report and exit code, does not depend on the order in which the concurrent
  workers finish their objects.
\<close>

theorem verify_order_irrelevant:
  assumes "\<And>ks. mset (order ks) = mset ks" and "\<And>ks. mset (order' ks) = mset ks"
  shows "verify_main C cl vo awsErr order ledger t1 t2 = verify_main C cl vo awsErr order' ledger t1 t2"
proof -
  have same: "mset (order ks) = mset (order' ks)" for ks using assms by simp
  note swap = conclude_cong(1) [OF same] reconcile_cong [OF conclude_cong(2) [OF same]]
  show ?thesis unfolding verify_main_def Let_def swap by (rule refl)
qed

section \<open>The ledger\<close>

lemma no_missing:
  "gap_Missing (compare_ids expected seen) = 0 \<longleftrightarrow>
     (\<forall>i \<in> set expected. Mapping.lookup_default 0 seen i \<noteq> 0)"
  by (auto simp: compare_ids_def Let_def filter_empty_conv)

text \<open>A reference that was counted comes from a line of an object.\<close>

lemma recorded_found:
  assumes "recorded (fold (verify_key C cl True ms) ks (new_tally rep)) r \<noteq> 0" "tracked r"
  shows "\<exists>k \<in> set ks. \<exists>l \<in> set (lines_of C cl ms k). refFor l (topic_of ms k) = r"
proof -
  have "filter ((=) r) (concat (map (refs_of C cl True ms) ks)) \<noteq> []"
    using assms(1) by (simp add: recorded_verify_keys [OF assms(2)])
  then show ?thesis by (auto simp: refs_of_def filter_empty_conv)
qed

lemma lines_of_read:
  assumes "l \<in> set (lines_of C cl ms k)"
  shows "\<exists>b ls n. cl_get cl k = Inr b \<and> DecodeObjectCounted C b = (ls, Inr n) \<and> l \<in> set ls"
proof -
  obtain ls x where r0: "readObject C cl k = (ls, x)" by fastforce
  have mem: "l \<in> set (case x of Inr stats \<Rightarrow> ls | _ \<Rightarrow> [])"
    using assms by (cases "supported ms k") (simp_all add: lines_of_def r0)
  then obtain s where x: "x = Inr s" and l: "l \<in> set ls"
    by (cases x) simp_all
  note r = r0 [unfolded x]
  obtain b where b: "cl_get cl k = Inr b" "scanObject C b = (ls, Inr s)"
    using readObject_Inr [OF r] by blast
  from b(2) obtain n where "DecodeObjectCounted C b = (ls, Inr n)"
    by (auto simp: scanObject_def Let_def split: prod.splits sum.splits)
  with b(1) l show ?thesis by blast
qed

text \<open>A line that the listed objects hold.\<close>

definition archived_line :: "codec \<Rightarrow> s3_client \<Rightarrow> string \<Rightarrow> Line \<Rightarrow> bool" where
  "archived_line C cl k l \<longleftrightarrow>
     (\<exists>b ls n. cl_get cl k = Inr b \<and> DecodeObjectCounted C b = (ls, Inr n) \<and> l \<in> set ls)"

lemma refFor_source:
  "refFor l t = \<lparr>ref_source = SourceStream, ref_group = g, ref_id = i\<rparr> \<Longrightarrow>
     line_Source l = SourceStream \<and> t = g \<and> ref_id (refFor l u) = i"
  "refFor l t = \<lparr>ref_source = SourceEventLog, ref_group = g, ref_id = i\<rparr> \<Longrightarrow>
     line_Source l = SourceEventLog \<and> ref_id (refFor l u) = i"
  "refFor l t = \<lparr>ref_source = SourceSOQL, ref_group = g, ref_id = i\<rparr> \<Longrightarrow>
     line_Source l = SourceSOQL \<and> line_EventType l = g \<and> ref_id (refFor l u) = i"
  by (auto simp: refFor_def Let_def source_defs split: if_splits)

lemma topic_manifest:
  assumes "map f ks = map Inr Ms" "topic_of (keyed Ms) k = t" "t \<noteq> []"
  shows "\<exists>km \<in> set ks. \<exists>m. f km = Inr m \<and> man_ObjectKey m = k \<and> map_of (man_Lineage m) ''topic'' = Some t"
proof -
  obtain m where m: "map_of (keyed Ms) k = Some m" "map_of (man_Lineage m) ''topic'' = Some t"
    using assms(2,3) by (auto simp: topic_of_def split: option.splits)
  then have "m \<in> set Ms" "man_ObjectKey m = k" by (auto dest!: map_of_SomeD)
  then show ?thesis using all_read(2) [OF assms(1)] m(2) by blast
qed

text \<open>A run that ends with code 0 has counted every reference of the ledger.\<close>

lemma reconcile_counts:
  assumes "rep_OK (reconcile_ledger lg ta rep)"
  shows "(topic, sent) \<in> set (lg_Streams lg) \<Longrightarrow> i \<in> set sent \<Longrightarrow>
      recorded ta \<lparr>ref_source = SourceStream, ref_group = topic, ref_id = i\<rparr> \<noteq> 0"
    and "(elf, sent) \<in> set (lg_EventLogFiles lg) \<Longrightarrow> i \<in> set sent \<Longrightarrow>
      recorded ta \<lparr>ref_source = SourceEventLog, ref_group = [], ref_id = i\<rparr> \<noteq> 0"
    and "(obj, sent) \<in> set (lg_CustomRecords lg) \<Longrightarrow> i \<in> set sent \<Longrightarrow>
      recorded ta \<lparr>ref_source = SourceSOQL, ref_group = obj, ref_id = i\<rparr> \<noteq> 0"
proof -
  have gaps: "\<And>topic sent. (topic, sent) \<in> set (lg_Streams lg) \<Longrightarrow>
      gap_Missing (compare_ids sent (Mapping.lookup_default Mapping.empty (ta_streamIds ta) topic)) = 0"
    "gap_Missing (compare_ids (concat (map snd (lg_EventLogFiles lg))) (ta_elfIds ta)) = 0"
    "\<And>obj sent. (obj, sent) \<in> set (lg_CustomRecords lg) \<Longrightarrow>
      gap_Missing (compare_ids sent (Mapping.lookup_default Mapping.empty (ta_customIds ta) obj)) = 0"
    using assms by (auto simp: reconcile_ledger_def Let_def list_all_iff)
  note gaps = gaps [unfolded no_missing]
  show "(topic, sent) \<in> set (lg_Streams lg) \<Longrightarrow> i \<in> set sent \<Longrightarrow>
      recorded ta \<lparr>ref_source = SourceStream, ref_group = topic, ref_id = i\<rparr> \<noteq> 0"
    using gaps(1) by (auto simp: recorded_def id_count_def)
  show "(elf, sent) \<in> set (lg_EventLogFiles lg) \<Longrightarrow> i \<in> set sent \<Longrightarrow>
      recorded ta \<lparr>ref_source = SourceEventLog, ref_group = [], ref_id = i\<rparr> \<noteq> 0"
    using gaps(2) by (force simp: recorded_def source_defs)
  show "(obj, sent) \<in> set (lg_CustomRecords lg) \<Longrightarrow> i \<in> set sent \<Longrightarrow>
      recorded ta \<lparr>ref_source = SourceSOQL, ref_group = obj, ref_id = i\<rparr> \<noteq> 0"
    using gaps(3) by (auto simp: recorded_def id_count_def source_defs)
qed

lemma verify_ledger_inversion:
  assumes "exit_code (verify_main C cl vo awsErr order (Some (Inr lg)) t1 t2) = 0"
    and "\<And>ks. mset (order ks) = mset ks"
    and "list_pages (cl_pages cl (key_base (vo_prefix vo) @ ''raw/'')) = Inr dataKeys"
    and "list_pages (cl_pages cl (key_base (vo_prefix vo) @ ''manifests/'')) = Inr manifestKeys"
  obtains Ms ta rep where "map (getJSON C cl) manifestKeys = map Inr Ms"
    "rep_OK (reconcile_ledger lg ta rep)"
    "\<And>r. recorded ta r \<noteq> 0 \<Longrightarrow> tracked r \<Longrightarrow>
       \<exists>k \<in> set dataKeys. \<exists>l. archived_line C cl k l \<and> refFor l (topic_of (keyed Ms) k) = r"
proof -
  obtain rep where rep: "verify_main C cl vo awsErr order (Some (Inr lg)) t1 t2 = Reported rep" "rep_OK rep"
    using exit_0 [OF assms(1)] by blast
  obtain dataKeys' manifestKeys' rep0 ms ta where run:
    "list_pages (cl_pages cl (key_base (vo_prefix vo) @ ''raw/'')) = Inr dataKeys'"
    "list_pages (cl_pages cl (key_base (vo_prefix vo) @ ''manifests/'')) = Inr manifestKeys'"
    "read_manifests C cl manifestKeys' (empty_report (int (length dataKeys')) (int (length manifestKeys'))) = (rep0, ms)"
    "ta = fold (verify_key C cl True ms) (order dataKeys') (new_tally rep0)"
    and fin: "rep = reconcile_ledger lg ta (conclude (vo_strict vo) ms ta)"
    by (rule verify_main_Reported [OF rep(1)]) auto
  have keys: "dataKeys' = dataKeys" "manifestKeys' = manifestKeys" using run(1,2) assms(3,4) by auto
  have "rep_OK (conclude (vo_strict vo) ms ta)" using fin rep(2) reconcile_OK by blast
  note ok = this [unfolded conclude_OK run(4) verify_keys_parts new_tally_simps]
  then have "complaints rep0 = []" by (simp add: complaints_def)
  from process_manifests_sound [OF run(3) [unfolded read_manifests_def keys] this]
  obtain Ms where Ms: "map (getJSON C cl) manifestKeys = map Inr Ms" "ms = keyed Ms"
    by (auto simp: comp_def)
  have "\<exists>k \<in> set dataKeys. \<exists>l. archived_line C cl k l \<and> refFor l (topic_of ms k) = r"
    if "recorded ta r \<noteq> 0" "tracked r" for r
    using recorded_found [OF that(1) [unfolded run(4)] that(2)] lines_of_read mset_eq_setD [OF assms(2)] keys
    unfolding archived_line_def by metis
  then show thesis using that Ms fin rep(2) by blast
qed

lemma tracked_refs [simp]:
  "tracked \<lparr>ref_source = SourceStream, ref_group = g, ref_id = i\<rparr>"
  "tracked \<lparr>ref_source = SourceEventLog, ref_group = [], ref_id = i\<rparr>"
  "tracked \<lparr>ref_source = SourceSOQL, ref_group = g, ref_id = i\<rparr>"
  by (simp_all add: tracked_def)

text \<open>
  C14: with a ledger, exit code 0 means that nothing the source sent is missing: each identifier of
  the ledger is that of a line of an archived object, of the right source; for a stream event the
  object's manifest names the topic, for a query row the line names the object type.
\<close>

theorem verify_ledger_complete:
  assumes "exit_code (verify_main C cl vo awsErr order (Some (Inr lg)) t1 t2) = 0"
    and "\<And>ks. mset (order ks) = mset ks"
    and "list_pages (cl_pages cl (key_base (vo_prefix vo) @ ''raw/'')) = Inr dataKeys"
    and "list_pages (cl_pages cl (key_base (vo_prefix vo) @ ''manifests/'')) = Inr manifestKeys"
  shows "(\<forall>topic sent i. (topic, sent) \<in> set (lg_Streams lg) \<and> i \<in> set sent \<longrightarrow> (\<exists>k \<in> set dataKeys. \<exists>l.
        archived_line C cl k l \<and> line_Source l = SourceStream
        \<and> ref_id (refFor l topic) = i
        \<and> (topic \<noteq> [] \<longrightarrow> (\<exists>km \<in> set manifestKeys. \<exists>m. getJSON C cl km = Inr m
             \<and> man_ObjectKey m = k \<and> map_of (man_Lineage m) ''topic'' = Some topic))))
    \<and> (\<forall>elf sent i. (elf, sent) \<in> set (lg_EventLogFiles lg) \<and> i \<in> set sent \<longrightarrow> (\<exists>k \<in> set dataKeys. \<exists>l.
        archived_line C cl k l \<and> line_Source l = SourceEventLog \<and> ref_id (refFor l []) = i))
    \<and> (\<forall>obj sent i. (obj, sent) \<in> set (lg_CustomRecords lg) \<and> i \<in> set sent \<longrightarrow> (\<exists>k \<in> set dataKeys. \<exists>l.
        archived_line C cl k l \<and> line_Source l = SourceSOQL \<and> line_EventType l = obj
        \<and> ref_id (refFor l []) = i))"
proof -
  obtain Ms ta rep where Ms: "map (getJSON C cl) manifestKeys = map Inr Ms"
    and ok: "rep_OK (reconcile_ledger lg ta rep)"
    and found: "\<And>r. recorded ta r \<noteq> 0 \<Longrightarrow> tracked r \<Longrightarrow>
       \<exists>k \<in> set dataKeys. \<exists>l. archived_line C cl k l \<and> refFor l (topic_of (keyed Ms) k) = r"
    using verify_ledger_inversion [OF assms] by blast
  note counts = reconcile_counts [OF ok]
  have 1: "\<exists>k \<in> set dataKeys. \<exists>l. archived_line C cl k l \<and> line_Source l = SourceStream \<and> ref_id (refFor l t) = i
      \<and> (t \<noteq> [] \<longrightarrow> (\<exists>km \<in> set manifestKeys. \<exists>m. getJSON C cl km = Inr m
           \<and> man_ObjectKey m = k \<and> map_of (man_Lineage m) ''topic'' = Some t))"
    if mem: "(t, sent) \<in> set (lg_Streams lg)" "i \<in> set sent" for t sent i
  proof -
    obtain k l where kl: "k \<in> set dataKeys" "archived_line C cl k l"
      "refFor l (topic_of (keyed Ms) k) = \<lparr>ref_source = SourceStream, ref_group = t, ref_id = i\<rparr>"
      using found [OF counts(1) [OF mem] tracked_refs(1)] by blast
    note src = refFor_source(1) [OF kl(3)]
    then show ?thesis using kl(1,2) topic_manifest [OF Ms, of k t] by blast
  qed
  have 2: "\<exists>k \<in> set dataKeys. \<exists>l. archived_line C cl k l \<and> line_Source l = SourceEventLog \<and> ref_id (refFor l []) = i"
    if "(elf, sent) \<in> set (lg_EventLogFiles lg)" "i \<in> set sent" for elf sent i
    using found [OF counts(2) [OF that] tracked_refs(2)] refFor_source(2) by blast
  have 3: "\<exists>k \<in> set dataKeys. \<exists>l. archived_line C cl k l \<and> line_Source l = SourceSOQL \<and> line_EventType l = obj
      \<and> ref_id (refFor l []) = i"
    if "(obj, sent) \<in> set (lg_CustomRecords lg)" "i \<in> set sent" for obj sent i
    using found [OF counts(3) [OF that] tracked_refs(3)] refFor_source(3) by blast
  show ?thesis using 1 2 3 by (intro conjI allI impI) blast+
qed

section \<open>A concrete archive\<close>

text \<open>One object with one event, its manifest, and a ledger that lists the event.\<close>

definition wit_line :: Line where
  "wit_line = \<lparr>line_EventId = ''u'', line_EventType = ''E'', line_Timestamp = 7, line_Source = SourceStream,
     line_Env = [], line_OrgId = ''o'', line_Instance = ''i'', line_ReplayId = ''cg=='',
     line_Payload = [(''EventIdentifier'', AStr ''7'')]\<rparr>"

definition wit_described :: Manifest where
  "wit_described = \<lparr>man_ManifestVersion = 2, man_Collector = CollectorName, man_CollectorVersion = ''dev'',
     man_Source = SourceStream, man_OrgId = ''o'', man_Instance = ''i'', man_EventType = ''E'',
     man_ObjectKey = ''raw/x'', man_RecordCount = 1, man_UncompressedBytes = 2, man_CompressedBytes = 2,
     man_SHA256 = hex_encode (Sum256 ''7|''), man_FirstTimestamp = Some 7, man_LastTimestamp = Some 7,
     man_IngestedAt = 9, man_Lineage = [(''topic'', ''t'')]\<rparr>"

definition wit_one :: codec where
  "wit_one = \<lparr>jsonEncode = (\<lambda>l. Inr ''7|''), gzip = (\<lambda>b. b), gunzip = Inr,
     jsonDecode = (\<lambda>b. ([wit_line], None)), manEncode = (\<lambda>m. Inr ''m''), manDecode = (\<lambda>b. Inr wit_described)\<rparr>"

definition wit_client :: s3_client where
  "wit_client =
     \<lparr>cl_pages = (\<lambda>p. [Inr [], Inr [if p = ''raw/'' then ''raw/x'' else ''manifests/x'']]),
      cl_get = (\<lambda>k. Inr (if k = ''raw/x'' then ''7|'' else ''m'')), cl_text = (\<lambda>e. [])\<rparr>"

definition wit_vo :: verify_options where
  "wit_vo = \<lparr>vo_bucket = ''b'', vo_prefix = [], vo_strict = True, vo_timeout = None\<rparr>"

definition wit_ledger :: Ledger where
  "wit_ledger = \<lparr>lg_OrgId = ''o'', lg_Streams = [(''t'', [''7''])], lg_EventLogFiles = [], lg_CustomRecords = []\<rparr>"

lemma wit_stats:
  "scanObject wit_one ''7|'' = ([wit_line], Inr \<lparr>os_records = 1, os_compressed = 2, os_uncompressed = 2,
     os_sha256 = hex_encode (Sum256 ''7|''), os_first = Some 7, os_last = Some 7\<rparr>)"
  by (simp add: scanObject_def DecodeObjectCounted_def wit_one_def range_of_def TimestampRange_Add_def
      empty_range_def wit_line_def IsZero_def zero_time_def)

lemma wit_lists:
  "list_pages (cl_pages wit_client (key_base (vo_prefix wit_vo) @ ''raw/'')) = Inr [''raw/x'']"
  "list_pages (cl_pages wit_client (key_base (vo_prefix wit_vo) @ ''manifests/'')) = Inr [''manifests/x'']"
  by (simp_all add: wit_client_def wit_vo_def key_base_def Trim_def)

lemma wit_report:
  "read_manifests wit_one wit_client [''manifests/x''] rep = (rep, [(''raw/x'', wit_described)])"
  by (simp add: read_manifests_def getJSON_def process_manifest_def wit_client_def wit_one_def
      wit_described_def ManifestVersion_def)

lemma wit_effects:
  "unreadable_of wit_one wit_client [(''raw/x'', wit_described)] ''raw/x'' = []"
  "mismatch_of wit_one wit_client [(''raw/x'', wit_described)] ''raw/x'' = []"
  "without_of wit_one wit_client [(''raw/x'', wit_described)] ''raw/x'' = 0"
  "lines_of wit_one wit_client [(''raw/x'', wit_described)] ''raw/x'' = [wit_line]"
  "topic_of [(''raw/x'', wit_described)] ''raw/x'' = ''t''"
  by (simp_all add: effect_defs readObject_def wit_client_def wit_stats stats_compare_eq_Nil)
    (simp_all add: wit_described_def ManifestVersion_def)

lemma wit_verdict:
  "exit_code (verify_main wit_one wit_client wit_vo None rev (Some (Inr wit_ledger)) 0 0) = 0"
proof -
  let ?ms = "[(''raw/x'', wit_described)]"
  let ?ta = "verify_key wit_one wit_client True ?ms ''raw/x'' (new_tally (empty_report 1 1))"
  have "rep_OK (conclude True ?ms ?ta)"
    unfolding conclude_OK
    by (simp add: verify_key_parts wit_effects seen_of_def) (simp add: empty_report_def)
  moreover have "recorded ?ta \<lparr>ref_source = SourceStream, ref_group = ''t'', ref_id = ''7''\<rparr> \<noteq> 0"
    by (simp add: recorded_verify_key tracked_def refs_of_def wit_effects refFor_def)
      (simp add: wit_line_def str_field_def)
  then have "id_count (ta_streamIds ?ta) ''t'' ''7'' \<noteq> 0" by (simp add: recorded_def)
  ultimately have "rep_OK (reconcile_ledger wit_ledger ?ta (conclude True ?ms ?ta))"
    by (simp add: reconcile_ledger_def wit_ledger_def Let_def no_missing id_count_def)
  then show ?thesis
    using wit_lists
    by (simp add: verify_main_def wit_report checkDeadline_def ctx_done_def Let_def exit_code_def)
      (simp add: wit_vo_def)
qed

lemma verify_exit_0_sound_witness:
  "\<exists>b. cl_get wit_client (man_ObjectKey wit_described) = Inr b \<and> describes wit_one wit_described b"
proof -
  have m: "getJSON wit_one wit_client ''manifests/x'' = Inr wit_described"
    by (simp add: getJSON_def wit_one_def wit_client_def)
  have "\<forall>km \<in> set [''manifests/x'']. \<exists>m b. getJSON wit_one wit_client km = Inr m
      \<and> man_ObjectKey m \<in> set [''raw/x''] \<and> cl_get wit_client (man_ObjectKey m) = Inr b \<and> describes wit_one m b"
    using verify_exit_0_sound [OF wit_verdict mset_rev wit_lists] by blast
  with m show ?thesis by auto
qed

lemma verify_order_irrelevant_witness:
  "verify_main wit_one wit_client wit_vo None rev (Some (Inr wit_ledger)) 0 0
   = verify_main wit_one wit_client wit_vo None (\<lambda>ks. ks) (Some (Inr wit_ledger)) 0 0"
  by (rule verify_order_irrelevant) simp_all

lemma verify_ledger_complete_witness:
  "\<exists>l. archived_line wit_one wit_client ''raw/x'' l \<and> line_Source l = SourceStream
     \<and> ref_id (refFor l ''t'') = ''7''"
  using verify_ledger_complete [OF wit_verdict _ wit_lists]
  by (simp add: wit_ledger_def) blast

end
