(* ===== verification/Verify_Archive.thy ===== *)
theory Verify_Archive
  imports Verify_Report
begin

text \<open>
  The verifier and the writer agree: whatever sequence of writes an S3 sink has made, failures
  included, its bucket passes verification. The JSON and gzip libraries enter as the law
  \<open>codec_law\<close>, the S3 service as the law \<open>serves\<close>.
\<close>

section \<open>What the libraries promise\<close>

text \<open>The fields of a manifest the verifier looks at.\<close>

definition audited :: "Manifest \<Rightarrow> (int \<times> string \<times> int \<times> int) \<times> int \<times> string \<times> time option \<times> time option" where
  "audited m = ((man_ManifestVersion m, man_ObjectKey m, man_RecordCount m, man_UncompressedBytes m),
     man_CompressedBytes m, man_SHA256 m, man_FirstTimestamp m, man_LastTimestamp m)"

definition ascii :: "string \<Rightarrow> bool" where "ascii s \<longleftrightarrow> (\<forall>c \<in> set s. byte c < 128)"

text \<open>
  Decompression undoes compression; the lines of an object decode to as many lines with the same
  timestamps (numbers come back as literals, and invalid UTF-8 is replaced); a manifest decodes to
  the audited fields that were encoded.
\<close>

definition codec_law :: "codec \<Rightarrow> bool" where
  "codec_law C \<longleftrightarrow>
     (\<forall>b. gunzip C (gzip C b) = Inr b)
     \<and> (\<forall>ls bs. list_all2 (\<lambda>l b. jsonEncode C l = Inr b) ls bs \<longrightarrow>
          (\<exists>ls'. jsonDecode C (concat bs) = (ls', None) \<and> map line_Timestamp ls' = map line_Timestamp ls))
     \<and> (\<forall>m b. manEncode C m = Inr b \<and> ascii (man_ObjectKey m) \<longrightarrow>
          (\<exists>m'. manDecode C b = Inr m' \<and> audited m' = audited m))"

text \<open>The client reads what the bucket holds, and a listing returns the keys with its prefix once each.\<close>

definition serves :: "s3_client \<Rightarrow> (string \<Rightarrow> string option) \<Rightarrow> bool" where
  "serves cl objs \<longleftrightarrow>
     (\<forall>k b. objs k = Some b \<longrightarrow> cl_get cl k = Inr b)
     \<and> (\<forall>p. \<exists>ks. list_pages (cl_pages cl p) = Inr ks \<and> distinct ks
          \<and> set ks = {k. objs k \<noteq> None \<and> HasPrefix k p})"

section \<open>The shape of a bucket\<close>

definition data_key :: "string \<Rightarrow> string \<Rightarrow> string" where
  "data_key p rest = joinPrefix p (''raw/'' @ rest @ ''.json.gz'')"

definition manifest_key :: "string \<Rightarrow> string \<Rightarrow> string" where
  "manifest_key p rest = joinPrefix p (''manifests/'' @ rest @ ''.manifest.json'')"

definition object_name :: "ObjectMeta \<Rightarrow> string \<Rightarrow> string" where
  "object_name meta name = partition_path meta @ ''/'' @ sanitize name ''object''"

lemma ObjectPaths_names:
  "joinPrefix p (fst (ObjectPaths meta name)) = data_key p (object_name meta name)"
  "joinPrefix p (snd (ObjectPaths meta name)) = manifest_key p (object_name meta name)"
  by (simp_all add: ObjectPaths_def data_key_def manifest_key_def object_name_def Let_def)

lemma key_inject [simp]:
  "data_key p r = data_key p r' \<longleftrightarrow> r = r'" "manifest_key p r = manifest_key p r' \<longleftrightarrow> r = r'"
  "data_key p r \<noteq> manifest_key p r'" "manifest_key p r \<noteq> data_key p r'"
  by (simp_all add: data_key_def manifest_key_def)

lemma key_prefixes:
  "HasPrefix (data_key p r) (key_base p @ ''raw/'')" "\<not> HasPrefix (data_key p r) (key_base p @ ''manifests/'')"
  "HasPrefix (manifest_key p r) (key_base p @ ''manifests/'')" "\<not> HasPrefix (manifest_key p r) (key_base p @ ''raw/'')"
  by (auto simp: data_key_def manifest_key_def HasPrefix_def joinPrefix_def key_base_def Let_def)

text \<open>
  Every object of the bucket is a data object with a body the encoder made, or a manifest that the
  encoder made for the data object stored under the same name.
\<close>

definition manifest_of :: "codec \<Rightarrow> encoder \<Rightarrow> time \<Rightarrow> string \<Rightarrow> Manifest" where
  "manifest_of C e now k = (finish C e)\<lparr>man_IngestedAt := now, man_ObjectKey := k\<rparr>"

definition made_by :: "codec \<Rightarrow> encoder \<Rightarrow> string \<Rightarrow> bool" where
  "made_by C e b \<longleftrightarrow> b = object_body C (enc_lines e) \<and> (\<exists>ls. enc_inv C e ls)"

definition described :: "codec \<Rightarrow> string \<Rightarrow> (string \<Rightarrow> string option) \<Rightarrow> bool" where
  "described C p objs \<longleftrightarrow>
     (\<forall>k b. objs k = Some b \<longrightarrow>
        (\<exists>rest e. ascii rest \<and> k = data_key p rest \<and> made_by C e b)
        \<or> (\<exists>rest e now body. ascii rest \<and> k = manifest_key p rest \<and> objs (data_key p rest) = Some body
             \<and> made_by C e body \<and> manEncode C (manifest_of C e now (data_key p rest)) = Inr b))"

lemma ascii_simps [simp]:
  "ascii []" "ascii (c # s) \<longleftrightarrow> byte c < 128 \<and> ascii s" "ascii (s @ t) \<longleftrightarrow> ascii s \<and> ascii t"
  by (auto simp: ascii_def)

lemma ascii_key_chars: "\<forall>c \<in> set s. key_char c \<Longrightarrow> ascii s"
  by (auto simp: ascii_def dest: key_char_ascii)

lemma ascii_sanitize: "\<forall>c \<in> set f. key_char c \<Longrightarrow> ascii (sanitize s f)"
  using sanitize_chars [of f] by (intro ascii_key_chars) blast

lemma ascii_pad0: "ascii (pad0 w i)"
proof (rule ascii_key_chars, rule ballI)
  fix c assume "c \<in> set (pad0 w i)"
  then show "key_char c" using pad0_chars [of c w i] digit_key_char [of c] by auto
qed

lemma ascii_object_name: "ascii (object_name meta name)"
proof -
  have "ascii (sanitize s ''unknown'')" "ascii (sanitize s ''object'')" for s
    by (rule ascii_sanitize, simp add: key_char_def)+
  then show ?thesis
    by (simp add: object_name_def partition_path_def Let_def ascii_pad0)
qed

lemma fill_made:
  assumes "fill_ok C fill" "fill (newEncoder meta) = Inr e"
  shows "made_by C e (object_body C (enc_lines e))"
  using assms enc_inv_new [of C meta] unfolding fill_ok_def made_by_def by blast

lemma described_data:
  assumes "described C p objs" "objs (data_key p rest) = None" "ascii rest" "made_by C e b"
  shows "described C p (objs(data_key p rest \<mapsto> b))"
  unfolding described_def
proof (intro allI impI)
  fix k x assume x: "(objs(data_key p rest \<mapsto> b)) k = Some x"
  show "(\<exists>rest' e. ascii rest' \<and> k = data_key p rest' \<and> made_by C e x)
    \<or> (\<exists>rest' e now body. ascii rest' \<and> k = manifest_key p rest'
         \<and> (objs(data_key p rest \<mapsto> b)) (data_key p rest') = Some body
         \<and> made_by C e body \<and> manEncode C (manifest_of C e now (data_key p rest')) = Inr x)"
  proof (cases "k = data_key p rest")
    case True
    then show ?thesis using x assms(3,4) by auto
  next
    case False
    with x have "objs k = Some x" by simp
    then consider (data) rest' e' where "ascii rest'" "k = data_key p rest'" "made_by C e' x"
      | (manifest) rest' e' now body where "ascii rest'" "k = manifest_key p rest'"
          "objs (data_key p rest') = Some body" "made_by C e' body"
          "manEncode C (manifest_of C e' now (data_key p rest')) = Inr x"
      using assms(1) unfolding described_def by blast
    then show ?thesis
    proof cases
      case manifest
      then have "(objs(data_key p rest \<mapsto> b)) (data_key p rest') = Some body"
        using assms(2) by auto
      with manifest show ?thesis by blast
    qed blast
  qed
qed

lemma described_both:
  assumes "described C p objs" "ascii rest" "made_by C e b"
    and "manEncode C (manifest_of C e now (data_key p rest)) = Inr mb"
  shows "described C p (objs(data_key p rest \<mapsto> b, manifest_key p rest \<mapsto> mb))"
  unfolding described_def
proof (intro allI impI)
  let ?objs = "objs(data_key p rest \<mapsto> b, manifest_key p rest \<mapsto> mb)"
  fix k x assume x: "?objs k = Some x"
  show "(\<exists>rest' e. ascii rest' \<and> k = data_key p rest' \<and> made_by C e x)
    \<or> (\<exists>rest' e now body. ascii rest' \<and> k = manifest_key p rest' \<and> ?objs (data_key p rest') = Some body
         \<and> made_by C e body \<and> manEncode C (manifest_of C e now (data_key p rest')) = Inr x)"
  proof (cases "k = data_key p rest \<or> k = manifest_key p rest")
    case True
    then show ?thesis using x assms(2-4) by auto
  next
    case False
    with x have "objs k = Some x" by simp
    then consider (data) rest' e' where "ascii rest'" "k = data_key p rest'" "made_by C e' x"
      | (manifest) rest' e' now body where "ascii rest'" "k = manifest_key p rest'"
          "objs (data_key p rest') = Some body" "made_by C e' body"
          "manEncode C (manifest_of C e' now (data_key p rest')) = Inr x"
      using assms(1) unfolding described_def by blast
    then show ?thesis
    proof cases
      case manifest
      then have "?objs (data_key p rest') = Some body" using False by auto
      with manifest show ?thesis by blast
    qed blast
  qed
qed

text \<open>A write keeps the shape, unless it fails after it has overwritten an object of the same name.\<close>

lemma data_then_manifest_described:
  assumes "data_then_manifest C p b now meta fill objs r objs'" "described C p objs" "fill_ok C fill"
    and "(\<exists>m. r = Inr m) \<or> objs (joinPrefix p (fst (ObjectPaths meta (write_name meta now b)))) = None"
  shows "described C p objs'"
  using assms(1)
proof (cases rule: data_then_manifest.cases)
  case (data meta' e kd err)
  have "made_by C e (object_body C (enc_lines e))" using fill_made [OF assms(3)] data by blast
  with data show ?thesis
    using assms(2,4) ascii_object_name
    by (simp add: ObjectPaths_names described_data)
next
  case (unreported meta' e kd km m mb err)
  have "made_by C e (object_body C (enc_lines e))" using fill_made [OF assms(3)] unreported by blast
  with unreported show ?thesis
    using assms(2) ascii_object_name
    by (simp add: ObjectPaths_names described_both manifest_of_def)
next
  case (both meta' e kd km mb)
  have "made_by C e (object_body C (enc_lines e))" using fill_made [OF assms(3)] both by blast
  with both show ?thesis
    using assms(2) ascii_object_name
    by (simp add: ObjectPaths_names described_both manifest_of_def)
qed (use assms(2) in simp)

section \<open>A described bucket passes\<close>

lemma audited_describes: "audited m = audited m' \<Longrightarrow> describes C m b \<longleftrightarrow> describes C m' b"
  by (simp add: audited_def describes_def)

lemma made_describes:
  assumes "codec_law C" "made_by C e b"
  shows "describes C (manifest_of C e now k) b"
proof -
  from assms(2) obtain ls where b: "b = object_body C (enc_lines e)"
    and inv: "list_all2 (\<lambda>l b. jsonEncode C l = Inr b) ls (enc_lines e)"
      "enc_count e = int (length ls)" "enc_times e = range_of (map line_Timestamp ls)"
    unfolding made_by_def enc_inv_def by blast
  obtain ls' where ls': "jsonDecode C (concat (enc_lines e)) = (ls', None)"
    "map line_Timestamp ls' = map line_Timestamp ls"
    using assms(1) inv(1) unfolding codec_law_def by blast
  have "gunzip C b = Inr (concat (enc_lines e))"
    using assms(1) by (simp add: b object_body_def codec_law_def)
  then have "DecodeObjectCounted C b = (ls', Inr (int (length (concat (enc_lines e)))))"
    by (simp add: DecodeObjectCounted_def ls'(1))
  moreover have "length ls' = length ls"
    using arg_cong [OF ls'(2), of length] by simp
  ultimately show ?thesis
    by (simp add: describes_def manifest_of_def inv(2,3) ls'(2) b)
qed

lemma describes_reads: "describes C m b \<Longrightarrow> cl_get cl k = Inr b \<Longrightarrow>
    \<exists>ls s. readObject C cl k = (ls, Inr s) \<and> stats_compare s m = []"
  by (auto simp: describes_scan readObject_def)

lemma described_data_object:
  assumes "described C p objs" "objs k = Some b" "HasPrefix k (key_base p @ ''raw/'')"
  shows "\<exists>rest e. k = data_key p rest \<and> made_by C e b"
  using assms key_prefixes(4) unfolding described_def by blast

lemma described_manifest_object:
  assumes "described C p objs" "objs k = Some b" "HasPrefix k (key_base p @ ''manifests/'')"
  shows "\<exists>rest e now body. ascii rest \<and> k = manifest_key p rest \<and> objs (data_key p rest) = Some body
    \<and> made_by C e body \<and> manEncode C (manifest_of C e now (data_key p rest)) = Inr b"
  using assms key_prefixes(2) unfolding described_def by blast

lemma manifest_of_simps [simp]: "man_ObjectKey (manifest_of C e now k) = k"
  "man_ManifestVersion (manifest_of C e now k) = ManifestVersion"
  by (simp_all add: manifest_of_def)

text \<open>What the first phase reads from a manifest key: the data object of the same name, described.\<close>

lemma manifest_read:
  assumes "codec_law C" "described C p objs" "serves cl objs" "ascii (key_base p)"
    and "objs km = Some mb" "HasPrefix km (key_base p @ ''manifests/'')"
  obtains m rest body where "getJSON C cl km = Inr m" "km = manifest_key p rest"
    "man_ObjectKey m = data_key p rest" "man_ManifestVersion m = ManifestVersion"
    "objs (data_key p rest) = Some body" "describes C m body"
proof -
  obtain rest e now body where d: "ascii rest" "km = manifest_key p rest"
    "objs (data_key p rest) = Some body" "made_by C e body"
    "manEncode C (manifest_of C e now (data_key p rest)) = Inr mb"
    using described_manifest_object [OF assms(2,5,6)] by blast
  have "ascii (data_key p rest)"
    using assms(4) d(1) by (auto simp: data_key_def joinPrefix_def key_base_def Let_def)
  then obtain m' where m': "manDecode C mb = Inr m'"
    "audited m' = audited (manifest_of C e now (data_key p rest))"
    using assms(1) d(5) manifest_of_simps(1) unfolding codec_law_def by metis
  have "getJSON C cl km = Inr m'"
    using assms(3,5) m'(1) by (simp add: getJSON_def serves_def)
  moreover have "man_ObjectKey m' = data_key p rest" "man_ManifestVersion m' = ManifestVersion"
    using m'(2) by (simp_all add: audited_def)
  moreover have "describes C m' body"
    using audited_describes [OF m'(2)] made_describes [OF assms(1) d(4)] by blast
  ultimately show thesis using that d(2,3) by blast
qed

lemma data_key_nonempty [simp]: "data_key p rest \<noteq> []" "[] \<noteq> data_key p rest"
  by (simp_all add: data_key_def joinPrefix_def Let_def)

lemma map_zip_graph: "map (\<lambda>k. (k, f k)) ks = zip ks (map f ks)"
  by (induction ks) simp_all

lemma verify_described:
  assumes "codec_law C" "described C p objs" "serves cl objs" "ascii (key_base p)"
    and "vo_prefix vo = p" "vo_bucket vo \<noteq> []" "\<not> vo_strict vo" "vo_timeout vo = None"
    and order: "\<And>ks. mset (order ks) = mset ks"
  shows "exit_code (verify_main C cl vo None order None t1 t2) = 0"
proof -
  obtain dk where dk: "list_pages (cl_pages cl (key_base p @ ''raw/'')) = Inr dk"
    "set dk = {k. objs k \<noteq> None \<and> HasPrefix k (key_base p @ ''raw/'')}"
    using assms(3) unfolding serves_def by blast
  obtain mk where mk: "list_pages (cl_pages cl (key_base p @ ''manifests/'')) = Inr mk" "distinct mk"
    "set mk = {k. objs k \<noteq> None \<and> HasPrefix k (key_base p @ ''manifests/'')}"
    using assms(3) unfolding serves_def by blast
  define man where "man km = projr (getJSON C cl km)" for km
  have man: "\<exists>rest body. getJSON C cl km = Inr (man km) \<and> km = manifest_key p rest
      \<and> man_ObjectKey (man km) = data_key p rest \<and> man_ManifestVersion (man km) = ManifestVersion
      \<and> objs (data_key p rest) = Some body \<and> describes C (man km) body" if km: "km \<in> set mk" for km
  proof -
    obtain mb where mb: "objs km = Some mb" "HasPrefix km (key_base p @ ''manifests/'')"
      using mk(3) km by auto
    obtain m rest body where "getJSON C cl km = Inr m" "km = manifest_key p rest"
      "man_ObjectKey m = data_key p rest" "man_ManifestVersion m = ManifestVersion"
      "objs (data_key p rest) = Some body" "describes C m body"
      by (rule manifest_read [OF assms(1-4) mb])
    then show ?thesis by (auto simp: man_def)
  qed
  let ?Ms = "map man mk"
  let ?rep0 = "empty_report (int (length dk)) (int (length mk))"
  have "inj_on (\<lambda>km. man_ObjectKey (man km)) (set mk)"
    by (rule inj_onI) (use man in \<open>metis key_inject(1)\<close>)
  then have dist: "distinct (map man_ObjectKey ?Ms)"
    using mk(2) by (simp add: distinct_map comp_def)
  have fine: "fine [] m" if m: "m \<in> set ?Ms" for m
  proof -
    obtain km where "km \<in> set mk" "m = man km" using m by auto
    with man [OF this(1)] show ?thesis by (auto simp: fine_def)
  qed
  have got: "map (getJSON C cl) mk = map Inr ?Ms" using man by auto
  have phase1: "read_manifests C cl mk ?rep0 = (?rep0, keyed ?Ms)"
    unfolding read_manifests_def map_zip_graph got
    using process_manifests_complete [OF dist fine, of "cl_text cl" mk ?rep0] by simp
  have readable: "\<exists>ls s. readObject C cl k = (ls, Inr s)" if k: "k \<in> set dk" for k
  proof -
    obtain b where b: "objs k = Some b" "HasPrefix k (key_base p @ ''raw/'')" using k dk(2) by auto
    then obtain e where "made_by C e b" using described_data_object [OF assms(2)] by blast
    then show ?thesis
      using describes_reads [OF made_describes [OF assms(1)]] assms(3) b(1) unfolding serves_def by blast
  qed
  have matching: "stats_compare s m = []"
    if k: "map_of (keyed ?Ms) k = Some m" "readObject C cl k = (ls, Inr s)" for k m ls s
  proof -
    obtain km where km: "km \<in> set mk" "m = man km" "man_ObjectKey m = k"
      using map_of_SomeD [OF k(1)] by auto
    obtain body where "objs k = Some body" "describes C m body" using man [OF km(1)] km by auto
    then have "\<exists>ls s. readObject C cl k = (ls, Inr s) \<and> stats_compare s m = []"
      using describes_reads assms(3) unfolding serves_def by blast
    with k(2) show ?thesis by simp
  qed
  have unread: "unreadable_of C cl (keyed ?Ms) k = []" if "k \<in> set dk" for k
    using readable [OF that] by (auto simp: unreadable_of_def)
  have mism: "mismatch_of C cl (keyed ?Ms) k = []" if "k \<in> set dk" for k
    using readable [OF that] matching by (auto simp: mismatch_of_def split: option.splits)
  have seen: "man_ObjectKey m \<in> (\<Union>k \<in> set dk. seen_of (keyed ?Ms) k)" if m: "m \<in> set ?Ms" for m
  proof -
    obtain km where km: "km \<in> set mk" "m = man km" using m by auto
    then have "man_ObjectKey m \<in> set dk"
      using man [OF km(1)] dk(2) key_prefixes(1) by auto
    moreover have "map_of (keyed ?Ms) (man_ObjectKey m) \<noteq> None"
      using m by (auto simp: map_of_eq_None_iff image_image)
    ultimately show ?thesis by (auto simp: seen_of_def)
  qed
  let ?ta = "fold (verify_key C cl False (keyed ?Ms)) (order dk) (new_tally ?rep0)"
  have "rep_OK (conclude False (keyed ?Ms) ?ta)"
    unfolding conclude_OK verify_keys_parts mset_eq_setD [OF order]
    using unread mism seen
    by (auto simp: mset_eq_setD [OF order] empty_report_def)
  then show ?thesis
    using phase1 dk(1) mk(1) assms(5-8)
    by (simp add: verify_main_def Let_def checkDeadline_def ctx_done_def exit_code_def)
qed

section \<open>Whatever the S3 sink wrote\<close>

text \<open>
  The states an S3 sink can reach. A write under a generated name may end in any way; a write under a
  given name succeeds, or fails while there is no object of that name yet. (A failed overwrite can
  leave the new object beside the old manifest until the collector writes the object again.)
\<close>

inductive sink_run :: "codec \<Rightarrow> S3Sink \<Rightarrow> S3Sink \<Rightarrow> bool" for C s0 where
  start: "sink_run C s0 s0"
| generated: "\<lbrakk>sink_run C s0 s; fill_ok C fill; meta_Name meta = [];
    S3Sink_Write C c now meta fill s = (r, s')\<rbrakk> \<Longrightarrow> sink_run C s0 s'"
| named: "\<lbrakk>sink_run C s0 s; fill_ok C fill; reserved_name (meta_Name meta); meta_Name meta \<noteq> [];
    S3Sink_Write C c now meta fill s = (r, s');
    (\<exists>m. r = Inr m) \<or> s3_lookup s (fst (s3_keys s meta)) = None\<rbrakk> \<Longrightarrow> sink_run C s0 s'"

lemma sink_run_inv:
  assumes "sink_run C s0 s" "s3_inv s0" "s3_bucket s0 = []"
  shows "s3_inv s \<and> opt_Prefix (s3_opts s) = opt_Prefix (s3_opts s0)
    \<and> described C (opt_Prefix (s3_opts s0)) (s3_lookup s)"
  using assms(1)
proof induction
  case start
  then show ?case using assms(2,3) by (simp add: described_def s3_lookup_def)
next
  case (generated s fill meta c now r s')
  note W = S3Sink_Write_dtm [OF generated(4)]
  have fresh: "fresh_draws (s3_rand s) (s3_writes s) (s3_lookup s) (opt_Prefix (s3_opts s))"
    using generated(5) unfolding s3_inv_def by blast
  have "s3_lookup s (joinPrefix (opt_Prefix (s3_opts s))
      (fst (ObjectPaths meta (write_name meta now (s3_rand s (s3_writes s + 1)))))) = None"
    using fresh_draws_lookup(1) [OF fresh, of "s3_writes s + 1"] generated(3)
    by (simp add: write_name_def)
  then have "described C (opt_Prefix (s3_opts s)) (s3_lookup s')"
    using data_then_manifest_described [OF S3Sink_Write_two [OF generated(4)] _ generated(2)]
      generated(5) by simp
  moreover have "s3_inv s'"
    using s3.inv_write [OF _ _ generated(4)] generated(3,5) by (simp add: name_ok_def)
  ultimately show ?case using W generated(5) by simp
next
  case (named s fill meta c now r s')
  note W = S3Sink_Write_dtm [OF named(5)]
  have "described C (opt_Prefix (s3_opts s)) (s3_lookup s')"
    using data_then_manifest_described [OF S3Sink_Write_two [OF named(5)] _ named(2)]
      named(4,6,7) by (simp add: s3_keys_def write_name_def)
  moreover have "s3_inv s'"
    using s3.inv_write [OF _ _ named(5)] named(3,7) by (simp add: name_ok_def)
  ultimately show ?case using W named(7) by simp
qed


text \<open>A bucket with one event, written by the sink.\<close>

definition wit_ints :: codec where
  "wit_ints = \<lparr>jsonEncode = (\<lambda>l. Inr (Itoa (line_Timestamp l) @ ''|'')), gzip = (\<lambda>b. b), gunzip = Inr,
     jsonDecode = (\<lambda>b. (map (\<lambda>w. \<lparr>line_EventId = [], line_EventType = [],
          line_Timestamp = (if hd w = CHR ''-'' then - int (digits_val (tl w)) else int (digits_val w)),
          line_Source = [], line_Env = [], line_OrgId = [], line_Instance = [], line_ReplayId = [],
          line_Payload = []\<rparr>) (butlast (Split b (CHR ''|''))), None)),
     manEncode = (\<lambda>m. Inl (Err ''m'')), manDecode = (\<lambda>b. Inl (Err ''m''))\<rparr>"

definition wit_meta :: ObjectMeta where
  "wit_meta = \<lparr>meta_Source = SourceStream, meta_OrgId = ''o'', meta_Instance = ''i'', meta_Env = [],
     meta_EventType = ''E'', meta_PartitionTime = 1, meta_Name = [], meta_Lineage = [(''topic'', ''t'')]\<rparr>"

definition wit_record :: Record where
  "wit_record = \<lparr>rec_Type = ''E'', rec_Timestamp = 7, rec_Id = ''u'', rec_Payload = None, rec_ReplayId = ''r''\<rparr>"

definition wit_bucket :: S3Sink where
  "wit_bucket = \<lparr>s3_opts = \<lparr>opt_Bucket = ''b'', opt_Prefix = ''p'', opt_Region = [], opt_Endpoint = [],
       opt_ForcePathStyle = False, opt_KmsKeyId = [], opt_StorageClass = [], opt_MaxAttempts = 5,
       opt_UploadTimeout = 5\<rparr>,
     s3_bucket = [], s3_uploads = 0, s3_upload = (\<lambda>n c i. PutOk), s3_aborted = [], s3_writes = 0,
     s3_rand = (\<lambda>n. replicate n (CHR ''a'')), s3_create = (\<lambda>n. None), s3_finish = (\<lambda>n. None)\<rparr>"

text \<open>JSON of this one manifest is \<open>m\<close>; no other manifest is encoded.\<close>

definition wit_manifest :: Manifest where
  "wit_manifest = manifest_of wit_ints (projr (write_each wit_ints [wit_record] (newEncoder wit_meta))) 1
     (joinPrefix ''p'' (fst (ObjectPaths wit_meta (UniqueName 1 ''a''))))"

definition wit_json :: codec where
  "wit_json = wit_ints\<lparr>manEncode := (\<lambda>m. if m = wit_manifest then Inr ''m'' else Inl (Err ''m'')),
     manDecode := (\<lambda>b. Inr wit_manifest)\<rparr>"

definition bucket_client :: "S3Sink \<Rightarrow> s3_client" where
  "bucket_client s =
     \<lparr>cl_pages = (\<lambda>p. [Inr (filter (\<lambda>k. HasPrefix k p) (remdups (map fst (s3_bucket s))))]),
      cl_get = (\<lambda>k. case s3_lookup s k of None \<Rightarrow> Inl (Err ''NoSuchKey'') | Some b \<Rightarrow> Inr b),
      cl_text = (\<lambda>e. [])\<rparr>"

lemma bucket_client_serves: "serves (bucket_client s) (s3_lookup s)"
  by (auto simp: serves_def bucket_client_def s3_lookup_def map_of_eq_None_iff
      intro: image_eqI dest: map_of_SomeD)

lemma Itoa_no_bar: "CHR ''|'' \<notin> set (Itoa i)"
  using Itoa_chars [of "CHR ''|''" i] by (auto simp: is_digit_def)

lemma Split_Itoa_lines:
  "Split (concat (map (\<lambda>l. Itoa (line_Timestamp l) @ ''|'') ls)) (CHR ''|'')
     = map (\<lambda>l. Itoa (line_Timestamp l)) ls @ [[]]"
  by (induction ls) (simp_all add: Split_append [OF Itoa_no_bar])

lemma Itoa_read: "(if hd (Itoa i) = CHR ''-'' then - int (digits_val (tl (Itoa i))) else int (digits_val (Itoa i))) = i"
proof (cases "i < 0")
  case False
  obtain c r where "dec_digits (nat i) = c # r" "is_digit c" by (rule dec_digits_hd)
  then show ?thesis using False digits_val_dec_digits [of "nat i"] not_digit_sign(1)
    by (auto simp: Itoa_def)
qed (simp add: Itoa_def)

lemma wit_ints_lines:
  "list_all2 (\<lambda>l b. jsonEncode wit_ints l = Inr b) ls bs \<Longrightarrow> bs = map (\<lambda>l. Itoa (line_Timestamp l) @ ''|'') ls"
  by (induction rule: list_all2_induct) (simp_all add: wit_ints_def)

lemma wit_json_law: "codec_law wit_json"
  unfolding codec_law_def
proof (intro conjI allI impI)
  fix ls bs assume "list_all2 (\<lambda>l b. jsonEncode wit_json l = Inr b) ls bs"
  then have bs: "bs = map (\<lambda>l. Itoa (line_Timestamp l) @ ''|'') ls"
    by (intro wit_ints_lines) (simp add: wit_json_def)
  have "map line_Timestamp (fst (jsonDecode wit_ints (concat bs))) = map line_Timestamp ls"
    unfolding bs wit_ints_def by (simp add: Split_Itoa_lines Itoa_read comp_def)
  moreover have "snd (jsonDecode wit_ints (concat bs)) = None" by (simp add: wit_ints_def)
  ultimately show "\<exists>ls'. jsonDecode wit_json (concat bs) = (ls', None)
      \<and> map line_Timestamp ls' = map line_Timestamp ls"
    by (cases "jsonDecode wit_ints (concat bs)") (simp add: wit_json_def)
qed (auto simp: wit_json_def wit_ints_def split: if_splits)

lemma wit_bucket_inv: "s3_inv wit_bucket"
proof -
  have "inj (\<lambda>n. replicate n (CHR ''a''))" by (rule injI) (metis length_replicate)
  then show ?thesis
    by (simp add: s3_inv_def fresh_draws_def wit_bucket_def s3_lookup_def)
qed

definition wit_written :: "Manifest result \<times> S3Sink" where
  "wit_written = S3Sink_Write wit_json None 1 wit_meta (write_each wit_json [wit_record]) wit_bucket"

lemma wit_written_manifest: "fst wit_written = Inr wit_manifest"
proof -
  have "WriteRecord wit_json = WriteRecord wit_ints"
    by (simp add: fun_eq_iff WriteRecord_def wit_json_def)
  then have "write_each wit_json [wit_record] = write_each wit_ints [wit_record]"
    by (simp add: fun_eq_iff split: sum.split)
  moreover have "finish wit_json e = finish wit_ints e" for e
    by (simp add: finish_def object_body_def wit_json_def Let_def)
  ultimately have same: "finish wit_json e = finish wit_ints e"
    "write_each wit_json [wit_record] = write_each wit_ints [wit_record]" for e by simp_all
  obtain e0 where enc: "write_each wit_ints [wit_record] (newEncoder wit_meta) = Inr e0"
    by (simp add: WriteRecord_def wit_ints_def Let_def)
  have man: "manEncode wit_json wit_manifest = Inr ''m''" by (simp add: wit_json_def)
  have key: "(finish wit_ints e0)\<lparr>man_IngestedAt := 1,
      man_ObjectKey := joinPrefix ''p'' (fst (ObjectPaths wit_meta (UniqueName 1 ''a'')))\<rparr> = wit_manifest"
    by (simp add: wit_manifest_def manifest_of_def enc del: write_each.simps)
  have env: "s3_rand wit_bucket (Suc 0) = ''a''" "opt_Prefix (s3_opts wit_bucket) = ''p''"
    "s3_upload wit_bucket n c i = PutOk" "s3_writes wit_bucket = 0" "s3_create wit_bucket = (\<lambda>n. None)"
    "s3_finish wit_bucket = (\<lambda>n. None)" for n c i
    by (simp_all add: wit_bucket_def)
  have meta: "meta_Source wit_meta \<noteq> []" "\<not> IsZero (meta_PartitionTime wit_meta)" "meta_Name wit_meta = []"
    by (simp_all add: wit_meta_def SourceStream_def IsZero_def zero_time_def)
  show ?thesis
    unfolding wit_written_def S3Sink_Write_def encodeObject_def s3_store_def put_def same enc
    by (simp add: meta env enc key man Let_def del: write_each.simps)
qed


end
