(* ===== verification/OAuth.thy ===== *)
theory OAuth
  imports Query
begin

text \<open>
  Package \<^verbatim>\<open>internal/oauth\<close>: the three login flows, each one form POST to the token endpoint, and the
  URL encoding of \<^verbatim>\<open>net/url\<close> they rely on. The HTTP transport, the JSON decoders, the key file and
  the RSA signature are parameters, the fields of \<open>login_env\<close>.
\<close>

section \<open>Form encoding\<close>

text \<open>\<^verbatim>\<open>url.Values.Encode\<close> of values with one entry per key: sorted by key, both sides escaped.\<close>

definition form_pair :: "string \<times> string \<Rightarrow> string" where
  "form_pair kv = QueryEscape (fst kv) @ ''='' @ QueryEscape (snd kv)"

definition form_encode :: "attrs \<Rightarrow> string" where
  "form_encode kvs = Join (map form_pair (sort_key fst kvs)) ''&''"

text \<open>What a server reads from a form.\<close>

definition decode_pair :: "string \<Rightarrow> (string \<times> string) option" where
  "decode_pair p =
     (let k = takeWhile (\<lambda>c. c \<noteq> CHR ''='') p in
      case (QueryUnescape k, QueryUnescape (drop (length k + 1) p)) of
        (Some k', Some v') \<Rightarrow> Some (k', v')
      | _ \<Rightarrow> None)"

definition decode_form :: "string \<Rightarrow> attrs option" where
  "decode_form s = those (map decode_pair (Split s (CHR ''&'')))"

lemma hex_value_upper: "d < 16 \<Longrightarrow> hex_value (hex_upper d) = Some d"
  by (auto simp: hex_value_def hex_upper_def Let_def)

lemma QueryUnescape_escape_char: "QueryUnescape (escape_char c @ s) = map_option (\<lambda>r. c # r) (QueryUnescape s)"
proof -
  have "byte c div 16 < 16" by (simp add: less_mult_imp_div_less)
  then have "hex_value (hex_upper (byte c div 16)) = Some (byte c div 16)"
    "hex_value (hex_upper (byte c mod 16)) = Some (byte c mod 16)"
    by (simp_all add: hex_value_upper)
  moreover have "unreserved c \<Longrightarrow> c \<noteq> CHR ''+'' \<and> c \<noteq> CHR ''%''"
    by (auto simp: unreserved_def is_letter_def is_digit_def)
  moreover have "16 * (byte c div 16) + byte c mod 16 = byte c" by simp
  ultimately show ?thesis by (auto simp: escape_char_def)
qed

lemma QueryUnescape_QueryEscape [simp]: "QueryUnescape (QueryEscape s) = Some s"
  by (induction s) (simp_all add: QueryEscape_def QueryUnescape_escape_char)

lemma escape_chars: "c \<in> set (QueryEscape s) \<Longrightarrow> unreserved c \<or> c = CHR ''+'' \<or> c = CHR ''%''"
proof -
  have "unreserved (hex_upper d)" if "d < 16" for d
    using that by (auto simp: hex_upper_def unreserved_def is_letter_def is_digit_def)
  then have "c \<in> set (escape_char a) \<Longrightarrow> unreserved c \<or> c = CHR ''+'' \<or> c = CHR ''%''" for a
    by (auto simp: escape_char_def less_mult_imp_div_less split: if_splits)
  then show "c \<in> set (QueryEscape s) \<Longrightarrow> ?thesis" by (auto simp: QueryEscape_def)
qed

lemma escape_no_separator: "CHR ''&'' \<notin> set (QueryEscape s)" "CHR ''='' \<notin> set (QueryEscape s)"
  using escape_chars [of "CHR ''&''" s] escape_chars [of "CHR ''=''" s]
  by (auto simp: unreserved_def is_letter_def is_digit_def)

lemma decode_form_pair [simp]: "decode_pair (form_pair kv) = Some kv"
proof -
  have "takeWhile (\<lambda>c. c \<noteq> CHR ''='') (form_pair kv) = QueryEscape (fst kv)"
    using escape_no_separator(2) [of "fst kv"]
    by (subst form_pair_def, subst takeWhile_append2) auto
  then show ?thesis by (simp add: decode_pair_def form_pair_def Let_def)
qed

lemma those_map_Some [simp]: "those (map Some xs) = Some xs"
  by (induction xs) simp_all

lemma decode_form_encode:
  assumes "kvs \<noteq> []"
  shows "decode_form (form_encode kvs) = Some (sort_key fst kvs)"
proof -
  have "sort_key fst kvs \<noteq> []" using assms by (metis set_empty set_sort)
  then have "Split (form_encode kvs) (CHR ''&'') = map form_pair (sort_key fst kvs)"
    unfolding form_encode_def
    by (intro Split_Join) (auto simp: form_pair_def escape_no_separator)
  then show ?thesis by (simp add: decode_form_def comp_def)
qed

section \<open>Login\<close>

record http_request =
  rq_Method :: string
  rq_URL :: string
  rq_Header :: attrs
  rq_Body :: string

record AuthResponse =
  ar_AccessToken :: string
  ar_InstanceURL :: string
  ar_ID :: string
  ar_TokenType :: string

record login_env =
  le_newRequest :: "string \<Rightarrow> goerror option"
  le_do :: "http_request \<Rightarrow> http_response result"
  le_decode :: "string \<Rightarrow> AuthResponse result"
  le_decodeErr :: "string \<Rightarrow> (string \<times> string) result"
  le_readFile :: "string \<Rightarrow> string result"
  le_parseKey :: "string \<Rightarrow> string result"
  le_sign :: "string \<Rightarrow> (string \<times> anyval) list \<Rightarrow> string result"

definition loginEndpoint :: string where "loginEndpoint = ''/services/oauth2/token''"

definition authError :: "login_env \<Rightarrow> http_response \<Rightarrow> string" where
  "authError E r =
     ''OAuth error (status code '' @ Itoa (hr_StatusCode r) @ ''): '' @
     (case hr_readErr r of
        Some _ \<Rightarrow> ''unknown''
      | None \<Rightarrow>
          (case le_decodeErr E (hr_Body r) of
             Inl _ \<Rightarrow> ''unknown''
           | Inr (what, desc) \<Rightarrow>
               [char_of (39 :: nat)] @ what @ [char_of (39 :: nat)] @ '' : '' @ [char_of (39 :: nat)] @ desc
                 @ [char_of (39 :: nat)]))"

definition login_request :: "string \<Rightarrow> attrs \<Rightarrow> http_request" where
  "login_request tokenUrl body =
     \<lparr>rq_Method = ''POST'', rq_URL = tokenUrl @ loginEndpoint,
      rq_Header = [(''Content-Type'', ''application/x-www-form-urlencoded'')], rq_Body = form_encode body\<rparr>"

text \<open>The exchange the flows share; \<open>w\<close> is how a flow wraps the error of each stage.\<close>

definition post_login ::
  "login_env \<Rightarrow> (string \<Rightarrow> goerror \<Rightarrow> goerror) \<Rightarrow> string \<Rightarrow> attrs \<Rightarrow> AuthResponse result" where
  "post_login E w tokenUrl body =
     (case le_newRequest E (tokenUrl @ loginEndpoint) of
        Some err \<Rightarrow> Inl (w ''Error creating JWT auth request'' err)
      | None \<Rightarrow>
          (case le_do E (login_request tokenUrl body) of
             Inl err \<Rightarrow> Inl (w ''Error doing JWT auth request'' err)
           | Inr r \<Rightarrow>
               if hr_StatusCode r \<noteq> 200 then Inl (Err (authError E r))
               else
                 (case hr_readErr r of
                    Some err \<Rightarrow> Inl (w ''Error decoding response'' err)
                  | None \<Rightarrow>
                      (case le_decode E (hr_Body r) of
                         Inl err \<Rightarrow> Inl (w ''Error decoding response'' err)
                       | Inr resp \<Rightarrow> Inr resp))))"

definition userpass_form :: "UserPassAuth \<Rightarrow> attrs" where
  "userpass_form cred =
     [(''grant_type'', ''password''), (''client_id'', up_ClientId cred),
      (''client_secret'', up_ClientSecret cred), (''username'', up_Username cred),
      (''password'', up_Password cred)]"

definition clientcred_form :: "ClientCredAuth \<Rightarrow> attrs" where
  "clientcred_form cred =
     [(''grant_type'', ''client_credentials''), (''client_id'', cc_ClientId cred),
      (''client_secret'', cc_ClientSecret cred)]"

definition jwt_form :: "string \<Rightarrow> attrs" where
  "jwt_form assertion =
     [(''grant_type'', ''urn:ietf:params:oauth:grant-type:jwt-bearer''), (''assertion'', assertion)]"

definition AuthWithUserPass :: "login_env \<Rightarrow> string \<Rightarrow> UserPassAuth \<Rightarrow> AuthResponse result" where
  "AuthWithUserPass E tokenUrl cred = post_login E (\<lambda>s e. e) tokenUrl (userpass_form cred)"

definition AuthWithClientCred :: "login_env \<Rightarrow> string \<Rightarrow> ClientCredAuth \<Rightarrow> AuthResponse result" where
  "AuthWithClientCred E tokenUrl cred = post_login E (\<lambda>s e. e) tokenUrl (clientcred_form cred)"

text \<open>The claims of the signed token; it expires five minutes after \<open>now\<close>, in Unix seconds.\<close>

definition jwt_claims :: "string \<Rightarrow> JwtAuth \<Rightarrow> time \<Rightarrow> (string \<times> anyval) list" where
  "jwt_claims tokenUrl cred now =
     [(''iss'', AStr (jwt_ClientId cred)), (''sub'', AStr (jwt_Username cred)), (''aud'', AStr tokenUrl),
      (''exp'', AInt64 ((now + 5 * minute) div second))]"

definition AuthWithJwt :: "login_env \<Rightarrow> time \<Rightarrow> string \<Rightarrow> JwtAuth \<Rightarrow> AuthResponse result" where
  "AuthWithJwt E now tokenUrl cred =
     (case le_readFile E (jwt_PrivateKey cred) of
        Inl err \<Rightarrow> Inl (Err ''Error reading private key file'')
      | Inr keyData \<Rightarrow>
          (case le_parseKey E keyData of
             Inl err \<Rightarrow> Inl (Err ''Error parsing private key'')
           | Inr key \<Rightarrow>
               (case le_sign E key (jwt_claims tokenUrl cred now) of
                  Inl err \<Rightarrow> Inl (Err ''Error signing token'')
                | Inr assertion \<Rightarrow> post_login E (\<lambda>s e. Err s) tokenUrl (jwt_form assertion))))"

definition Login :: "login_env \<Rightarrow> time \<Rightarrow> AuthConfig \<Rightarrow> AuthResponse result" where
  "Login E now cred =
     (case auth_Jwt cred of
        Some a \<Rightarrow> AuthWithJwt E now (auth_TokenUrl cred) a
      | None \<Rightarrow>
          (case auth_ClientCred cred of
             Some a \<Rightarrow> AuthWithClientCred E (auth_TokenUrl cred) a
           | None \<Rightarrow>
               (case auth_UserPass cred of
                  Some a \<Rightarrow> AuthWithUserPass E (auth_TokenUrl cred) a
                | None \<Rightarrow> Inl (Err ''Auth config missing''))))"

text \<open>
  C19: whatever bytes the credentials or a statement hold, the server reads exactly them: the body of a
  login decodes to the form fields of its flow, and the query parameter of a SOQL request to the
  statement.
\<close>

theorem requests_decode:
  "decode_form (rq_Body (login_request url (userpass_form up)))
     = Some [(''client_id'', up_ClientId up), (''client_secret'', up_ClientSecret up),
             (''grant_type'', ''password''), (''password'', up_Password up), (''username'', up_Username up)]
   \<and> decode_form (rq_Body (login_request url (clientcred_form cc)))
     = Some [(''client_id'', cc_ClientId cc), (''client_secret'', cc_ClientSecret cc),
             (''grant_type'', ''client_credentials'')]
   \<and> decode_form (rq_Body (login_request url (jwt_form assertion)))
     = Some [(''assertion'', assertion), (''grant_type'', ''urn:ietf:params:oauth:grant-type:jwt-bearer'')]
   \<and> decode_form (drop (length path + 1) (queryURL path soql)) = Some [(''q'', soql)]"
proof -
  have "queryURL path soql = path @ ''?'' @ form_encode [(''q'', soql)]"
    by (simp add: queryURL_def form_encode_def form_pair_def QueryEscape_def escape_char_def
        unreserved_def is_letter_def)
  then show ?thesis
    by (simp add: login_request_def decode_form_encode userpass_form_def clientcred_form_def jwt_form_def)
qed

end
