(* ===== verification/Flatten.thy ===== *)
theory Flatten
  imports GoTime
begin

text \<open>
  \<^verbatim>\<open>grpcclient/flatten.go\<close>: the conversion of the values the Avro library decodes to into plain JSON
  values, directed by the writer schema. A schema is the JSON value of its text; a parsed type is an
  \<open>avroType\<close>, and the table of named types is a list of registrations, the later ones overriding
  the earlier (a record is registered before its fields, and filled in when they are parsed).

  An unqualified reference to a type of another namespace is searched by ranging over the table, a
  Go map: the order of that range is a parameter of the flattener.
\<close>

section \<open>Schemas\<close>

datatype avroType = AvroType
  (av_kind: string) (av_name: string) (av_logicalType: string)
  (av_fields: "(string \<times> avroType) list") (av_items: "avroType option")
  (av_values: "avroType option") (av_branches: "avroType list") (av_ref: string)

type_synonym registrations = "(string \<times> avroType) list"

definition avroPrimitives :: "string list" where
  "avroPrimitives = [''null'', ''boolean'', ''int'', ''long'', ''float'', ''double'', ''bytes'', ''string'']"

definition fullName :: "string \<Rightarrow> string \<Rightarrow> string" where
  "fullName name namespace =
     (if name = [] \<or> Contains name ''.'' \<or> namespace = [] then name else namespace @ ''.'' @ name)"

text \<open>What precedes the last dot, if there is one.\<close>

definition namespace_of :: "string \<Rightarrow> string \<Rightarrow> string" where
  "namespace_of full ns =
     (if CHR ''.'' \<in> set full then butlast (rev (dropWhile (\<lambda>c. c \<noteq> CHR ''.'') (rev full))) else ns)"

definition mget :: "payload \<Rightarrow> string \<Rightarrow> anyval" where
  "mget m k = (case map_of m k of Some v \<Rightarrow> v | None \<Rightarrow> ANil)"

definition mstr :: "payload \<Rightarrow> string \<Rightarrow> string" where
  "mstr m k = (case str_field m k of Some s \<Rightarrow> s | None \<Rightarrow> [])"

definition mlist :: "payload \<Rightarrow> string \<Rightarrow> anyval list" where
  "mlist m k = (case mget m k of AList vs \<Rightarrow> vs | _ \<Rightarrow> [])"

lemma size_mget: "size (mget m k) < size (AMap m)"
proof (cases "map_of m k")
  case (Some v)
  then have "(k, v) \<in> set m" by (rule map_of_SomeD)
  then have "size v \<le> size_list (size_prod (\<lambda>_. 0) size) m"
    by (induction m) auto
  with Some show ?thesis by (simp add: mget_def)
qed (simp add: mget_def)

lemma size_mlist: "size_list size (mlist m k) < size (AMap m)"
  using size_mget [of m k] by (cases "mget m k") (simp_all add: mlist_def)

lemma size_mget_le [simp]:
  "size (mget m k) \<le> size_list (size_prod (\<lambda>_. 0) size) m"
  "size (mget m k) \<le> Suc (size_list (size_prod (\<lambda>_. 0) size) m + n)"
  using size_mget [of m k] by simp_all

lemma size_mlist_le [simp]: "size_list size (mlist m k) \<le> size_list (size_prod (\<lambda>_. 0) size) m"
  using size_mlist [of m k] by simp

text \<open>The three mutually recursive parts of \<open>parse\<close>: a node, the branches of a union, the fields of a record.\<close>

function (sequential)
  parse :: "anyval \<Rightarrow> string \<Rightarrow> (avroType \<times> registrations) result" and
  parse_branches :: "anyval list \<Rightarrow> string \<Rightarrow> (avroType list \<times> registrations) result" and
  parse_fields :: "string \<Rightarrow> anyval list \<Rightarrow> string \<Rightarrow> ((string \<times> avroType) list \<times> registrations) result"
where
  "parse (AStr t) ns =
     (if t \<in> set avroPrimitives then Inr (AvroType t [] [] [] None None [] [], [])
      else Inr (AvroType [] [] [] [] None None [] (fullName t ns), []))"
| "parse (AList ts) ns =
     (case parse_branches ts ns of
        Inl err \<Rightarrow> Inl err
      | Inr (bs, regs) \<Rightarrow> Inr (AvroType ''union'' [] [] [] None None bs [], regs))"
| "parse (AMap t) ns0 =
     (let kind = mstr t ''type''; logical = mstr t ''logicalType'';
          ns = (if mstr t ''namespace'' = [] then ns0 else mstr t ''namespace'');
          full = fullName (mstr t ''name'') ns
      in if kind = ''record'' \<or> kind = ''error'' then
           (case parse_fields full (mlist t ''fields'') (namespace_of full ns) of
              Inl err \<Rightarrow> Inl err
            | Inr (fs, regs) \<Rightarrow>
                let rt = AvroType ''record'' full [] fs None None [] [] in Inr (rt, (full, rt) # regs))
         else if kind = ''enum'' \<or> kind = ''fixed'' then
           (let nt = AvroType kind full logical [] None None [] [] in Inr (nt, [(full, nt)]))
         else if kind = ''array'' then
           (case parse (mget t ''items'') ns of
              Inl err \<Rightarrow> Inl err
            | Inr (it, regs) \<Rightarrow> Inr (AvroType ''array'' [] [] [] (Some it) None [] [], regs))
         else if kind = ''map'' then
           (case parse (mget t ''values'') ns of
              Inl err \<Rightarrow> Inl err
            | Inr (vt, regs) \<Rightarrow> Inr (AvroType ''map'' [] [] [] None (Some vt) [] [], regs))
         else if kind \<in> set avroPrimitives then Inr (AvroType kind [] logical [] None None [] [], [])
         else Inl (Err ''unsupported avro type''))"
| "parse v ns = Inl (Err ''invalid avro schema node'')"
| "parse_branches [] ns = Inr ([], [])"
| "parse_branches (b # bs) ns =
     (case parse b ns of
        Inl err \<Rightarrow> Inl err
      | Inr (bt, regs) \<Rightarrow>
          (case parse_branches bs ns of
             Inl err \<Rightarrow> Inl err
           | Inr (bts, regs') \<Rightarrow> Inr (bt # bts, regs @ regs')))"
| "parse_fields full [] ns = Inr ([], [])"
| "parse_fields full (AMap fm # fs) ns =
     (case parse (mget fm ''type'') ns of
        Inl err \<Rightarrow> Inl err
      | Inr (ft, regs) \<Rightarrow>
          (case parse_fields full fs ns of
             Inl err \<Rightarrow> Inl err
           | Inr (fts, regs') \<Rightarrow> Inr ((mstr fm ''name'', ft) # fts, regs @ regs')))"
| "parse_fields full (f # fs) ns = Inl (Err (''invalid field in record '' @ full))"
  by pat_completeness auto
termination
  by (relation "measure (\<lambda>x. case x of Inl (v, ns) \<Rightarrow> size v
      | Inr (Inl (vs, ns)) \<Rightarrow> size_list size vs | Inr (Inr (full, vs, ns)) \<Rightarrow> size_list size vs)")
    (simp_all add: less_Suc_eq_le)

section \<open>The flattener\<close>

record Flattener =
  fl_root :: avroType
  fl_named :: registrations
  fl_order :: "registrations \<Rightarrow> registrations"

text \<open>\<open>raw\<close> is the schema's JSON, or the error of decoding it; \<open>order\<close> is how a range visits the table.\<close>

definition NewFlattener ::
  "(registrations \<Rightarrow> registrations) \<Rightarrow> anyval result \<Rightarrow> Flattener result" where
  "NewFlattener order raw =
     (case raw of
        Inl err \<Rightarrow> Inl (Wrap ''parsing avro schema'' err)
      | Inr v \<Rightarrow>
          (case parse v [] of
             Inl err \<Rightarrow> Inl err
           | Inr (root, regs) \<Rightarrow>
               Inr \<lparr>fl_root = root, fl_named = AList.clearjunk (rev regs), fl_order = order\<rparr>))"

definition resolve :: "Flattener \<Rightarrow> avroType \<Rightarrow> avroType" where
  "resolve f t =
     (if av_ref t = [] then t
      else case map_of (fl_named f) (av_ref t) of
        Some n \<Rightarrow> n
      | None \<Rightarrow>
          (case find (\<lambda>(name, n). HasSuffix name (CHR ''.'' # av_ref t)) (fl_order f (fl_named f)) of
             Some (name, n) \<Rightarrow> n
           | None \<Rightarrow> t))"

definition branchName :: "avroType \<Rightarrow> string" where
  "branchName t =
     (if av_kind t \<in> {''record'', ''enum'', ''fixed''} then av_name t
      else if av_logicalType t \<noteq> [] then av_kind t @ ''.'' @ av_logicalType t
      else av_kind t)"

text \<open>\<^verbatim>\<open>big.Rat.FloatString(prec)\<close>: rounded to the nearest, halves away from zero; the divisor is positive.\<close>

definition FloatString :: "nat \<Rightarrow> int \<Rightarrow> int \<Rightarrow> string" where
  "FloatString prec n d =
     (let m = (2 * \<bar>n\<bar> * 10 ^ prec + d) div (2 * d)
      in (if n < 0 then ''-'' else []) @ Itoa (m div 10 ^ prec) @ ''.'' @ pad0 prec (m mod 10 ^ prec))"

text \<open>Primitives, enums, fixed and logical types.\<close>

definition flatten_scalar :: "avroType \<Rightarrow> anyval \<Rightarrow> anyval" where
  "flatten_scalar t v =
     (case v of
        ATime x \<Rightarrow>
          if av_logicalType t = ''date''
          then AStr ((if Year x < 0 then ''-'' else []) @ pad0 4 \<bar>Year x\<bar> @ ''-'' @ pad0 2 (Month x) @ ''-'' @ pad0 2 (Day x))
          else AInt64 (unix_milli x)
      | ADuration d \<Rightarrow> AInt64 (sgn d * (\<bar>d\<bar> div 1000000))
      | ARat n d \<Rightarrow> AStr (FloatString 18 n d)
      | _ \<Rightarrow> v)"

lemma size_pair: "(k, v) \<in> set m \<Longrightarrow> size v < size_list (size_prod (\<lambda>_. 0) size) m"
  by (induction m) auto

text \<open>
  \<open>Flattener.value\<close>, with its loops over the fields of a record, the items of an array and the entries
  of a map. A nil item or value type cannot come out of \<open>parse\<close>; following it would panic.
\<close>

function (sequential)
  flatten_value :: "Flattener \<Rightarrow> avroType \<Rightarrow> anyval \<Rightarrow> anyval result" and
  flatten_fields :: "Flattener \<Rightarrow> string \<Rightarrow> (string \<times> avroType) list \<Rightarrow> payload \<Rightarrow> payload \<Rightarrow> anyval result" and
  flatten_items :: "Flattener \<Rightarrow> avroType \<Rightarrow> anyval list \<Rightarrow> anyval list result" and
  flatten_entries :: "Flattener \<Rightarrow> avroType \<Rightarrow> payload \<Rightarrow> payload result"
where
  "flatten_value f t0 v =
     (let t = resolve f t0 in
      if v = ANil then Inr ANil
      else if av_kind t = ''union'' then
        (case v of
           AMap [(key, inner)] \<Rightarrow>
             (case find (\<lambda>b. branchName (resolve f b) = key) (av_branches t) of
                None \<Rightarrow> Inl (Err (''union branch not in schema: '' @ key))
              | Some b \<Rightarrow> flatten_value f b inner)
         | _ \<Rightarrow> Inl (Err ''expected a union value''))
      else if av_kind t = ''record'' then
        (case v of
           AMap m \<Rightarrow> flatten_fields f (av_name t) (av_fields t) m []
         | _ \<Rightarrow> Inl (Err (''expected record '' @ av_name t)))
      else if av_kind t = ''array'' then
        (case (v, av_items t) of
           (AList vs, Some it) \<Rightarrow>
             (case flatten_items f it vs of Inl err \<Rightarrow> Inl err | Inr xs \<Rightarrow> Inr (AList xs))
         | _ \<Rightarrow> Inl (Err ''expected array''))
      else if av_kind t = ''map'' then
        (case (v, av_values t) of
           (AMap m, Some vt) \<Rightarrow>
             (case flatten_entries f vt m of Inl err \<Rightarrow> Inl err | Inr xs \<Rightarrow> Inr (AMap xs))
         | _ \<Rightarrow> Inl (Err ''expected map''))
      else Inr (flatten_scalar t v))"
| "flatten_fields f tname [] m out = Inr (AMap out)"
| "flatten_fields f tname ((name, ft) # fs) m out =
     (case map_of m name of
        None \<Rightarrow> flatten_fields f tname fs m out
      | Some fv \<Rightarrow>
          (case flatten_value f ft fv of
             Inl err \<Rightarrow> Inl (Wrap (tname @ ''.'' @ name) err)
           | Inr conv \<Rightarrow> flatten_fields f tname fs m (AList.update name conv out)))"
| "flatten_items f it [] = Inr []"
| "flatten_items f it (v # vs) =
     (case flatten_value f it v of
        Inl err \<Rightarrow> Inl err
      | Inr x \<Rightarrow> (case flatten_items f it vs of Inl err \<Rightarrow> Inl err | Inr xs \<Rightarrow> Inr (x # xs)))"
| "flatten_entries f vt [] = Inr []"
| "flatten_entries f vt ((k, v) # m) =
     (case flatten_value f vt v of
        Inl err \<Rightarrow> Inl err
      | Inr x \<Rightarrow> (case flatten_entries f vt m of Inl err \<Rightarrow> Inl err | Inr xs \<Rightarrow> Inr ((k, x) # xs)))"
  by pat_completeness auto
termination
  by (relation "measures [\<lambda>x. case x of
        Inl (Inl (f, t, v)) \<Rightarrow> size v
      | Inl (Inr (f, tn, fs, m, out)) \<Rightarrow> size_list (size_prod (\<lambda>_. 0) size) m
      | Inr (Inl (f, it, vs)) \<Rightarrow> size_list size vs
      | Inr (Inr (f, vt, m)) \<Rightarrow> size_list (size_prod (\<lambda>_. 0) size) m,
      \<lambda>x. case x of Inl (Inr (f, tn, fs, m, out)) \<Rightarrow> length fs | _ \<Rightarrow> 0]")
    (auto dest!: map_of_SomeD size_pair)

declare flatten_value.simps [simp del]

definition flatten_record :: "Flattener \<Rightarrow> payload \<Rightarrow> payload result" where
  "flatten_record f m =
     (case flatten_value f (fl_root f) (AMap m) of
        Inl err \<Rightarrow> Inl err
      | Inr (AMap out) \<Rightarrow> Inr out
      | Inr _ \<Rightarrow> Inl (Err ''schema root is not a record''))"

section \<open>What the Avro library produces\<close>

text \<open>
  \<open>native f t x v\<close>: the library represents the plain value \<open>x\<close> of the type \<open>t\<close> by the native value \<open>v\<close>.
  A union value other than null is a map with one entry, whose key is the name of its branch; the
  branches of a union have distinct names, the fields of a record too.
\<close>

inductive native :: "Flattener \<Rightarrow> avroType \<Rightarrow> anyval \<Rightarrow> anyval \<Rightarrow> bool" for f where
  null_value: "native f t ANil ANil"
| union_value: "\<lbrakk>resolve f t = u; av_kind u = ''union''; b \<in> set (av_branches u);
    distinct (map (\<lambda>b. branchName (resolve f b)) (av_branches u)); native f b x v; x \<noteq> ANil\<rbrakk> \<Longrightarrow>
    native f t x (AMap [(branchName (resolve f b), v)])"
| record_value: "\<lbrakk>resolve f t = r; av_kind r = ''record''; distinct (map fst (av_fields r));
    list_all2 (\<lambda>fld x. \<exists>v. map_of m (fst fld) = Some v \<and> native f (snd fld) x v) (av_fields r) xs\<rbrakk> \<Longrightarrow>
    native f t (AMap (zip (map fst (av_fields r)) xs)) (AMap m)"
| array_value: "\<lbrakk>av_kind (resolve f t) = ''array''; av_items (resolve f t) = Some it;
    list_all2 (native f it) xs vs\<rbrakk> \<Longrightarrow> native f t (AList xs) (AList vs)"
| map_value: "\<lbrakk>av_kind (resolve f t) = ''map''; av_values (resolve f t) = Some vt;
    list_all2 (native f vt) xs (map snd m)\<rbrakk> \<Longrightarrow> native f t (AMap (zip (map fst m) xs)) (AMap m)"
| scalar_value: "\<lbrakk>av_kind (resolve f t) \<notin> {''union'', ''record'', ''array'', ''map''};
    \<And>l. v \<noteq> AList l; \<And>m. v \<noteq> AMap m; v \<noteq> ANil\<rbrakk> \<Longrightarrow> native f t (flatten_scalar (resolve f t) v) v"

lemma find_distinct:
  assumes "b \<in> set bs" "distinct (map g bs)"
  shows "find (\<lambda>c. g c = g b) bs = Some b"
  using assms by (induction bs) (auto simp: image_iff)

lemma update_fresh: "k \<notin> fst ` set al \<Longrightarrow> AList.update k v al = al @ [(k, v)]"
  by (induction al) auto

lemma flatten_fields_native:
  assumes "list_all2 (\<lambda>fld x. \<exists>v. map_of m (fst fld) = Some v \<and> flatten_value f (snd fld) v = Inr x) fs xs"
    and "distinct (map fst fs)" "\<forall>n \<in> fst ` set fs. n \<notin> fst ` set out"
  shows "flatten_fields f tname fs m out = Inr (AMap (out @ zip (map fst fs) xs))"
  using assms
proof (induction arbitrary: out rule: list_all2_induct)
  case (Cons fld fs x xs)
  obtain n ft where fld: "fld = (n, ft)" by fastforce
  have "flatten_fields f tname fs m (out @ [(n, x)]) = Inr (AMap ((out @ [(n, x)]) @ zip (map fst fs) xs))"
    by (rule Cons.IH) (use Cons.prems fld in auto)
  then show ?case using Cons.hyps Cons.prems fld by (auto simp: update_fresh)
qed simp

lemma flatten_items_native:
  "list_all2 (\<lambda>x v. flatten_value f it v = Inr x) xs vs \<Longrightarrow> flatten_items f it vs = Inr xs"
  by (induction rule: list_all2_induct) simp_all

lemma flatten_entries_native:
  "list_all2 (\<lambda>x v. flatten_value f vt v = Inr x) xs (map snd m) \<Longrightarrow>
     flatten_entries f vt m = Inr (zip (map fst m) xs)"
  by (induction m arbitrary: xs) (auto simp: list_all2_Cons2)

text \<open>Values that JSON can print as the records archive them: no times, durations or rationals.\<close>

fun jsonable :: "anyval \<Rightarrow> bool" where
  "jsonable (ATime t) = False"
| "jsonable (ADuration d) = False"
| "jsonable (ARat n d) = False"
| "jsonable (AList vs) = (\<forall>v \<in> set vs. jsonable v)"
| "jsonable (AMap m) = (\<forall>kv \<in> set m. jsonable (snd kv))"
| "jsonable v = True"

lemma jsonable_zip: "list_all2 (\<lambda>y x. jsonable x) ys xs \<Longrightarrow> jsonable (AMap (zip ks xs))"
  by (auto simp: list_all2_conv_all_nth in_set_zip)

lemma jsonable_scalar:
  "(\<And>l. v \<noteq> AList l) \<Longrightarrow> (\<And>m. v \<noteq> AMap m) \<Longrightarrow> jsonable (flatten_scalar t v)"
  by (cases v) (auto simp: flatten_scalar_def)


text \<open>A record with an optional string and a map whose only key looks like a union branch.\<close>

definition wit_schema :: anyval where
  "wit_schema = AMap [(''type'', AStr ''record''), (''name'', AStr ''E''), (''namespace'', AStr ''n''),
     (''fields'', AList
       [AMap [(''name'', AStr ''u''), (''type'', AList [AStr ''null'', AStr ''string''])],
        AMap [(''name'', AStr ''m''), (''type'', AMap [(''type'', AStr ''map''), (''values'', AStr ''long'')])]])]"

definition wit_types :: "avroType \<times> avroType" where
  "wit_types =
     (AvroType ''union'' [] [] [] None None
        [AvroType ''null'' [] [] [] None None [] [], AvroType ''string'' [] [] [] None None [] []] [],
      AvroType ''map'' [] [] [] None (Some (AvroType ''long'' [] [] [] None None [] [])) [] [])"

definition wit_flattener :: Flattener where
  "wit_flattener =
     (let root = AvroType ''record'' ''n.E'' [] [(''u'', fst wit_types), (''m'', snd wit_types)] None None [] []
      in \<lparr>fl_root = root, fl_named = [(''n.E'', root)], fl_order = (\<lambda>r. r)\<rparr>)"

lemma wit_schema_parsed: "NewFlattener (\<lambda>r. r) (Inr wit_schema) = Inr wit_flattener"
  by (simp add: NewFlattener_def wit_schema_def mstr_def mlist_def mget_def str_field_def fullName_def
      namespace_of_def avroPrimitives_def wit_flattener_def wit_types_def Let_def HasPrefix_def)

lemma wit_native:
  "native wit_flattener (fl_root wit_flattener)
     (AMap [(''u'', AStr ''x''), (''m'', AMap [(''string'', AInt64 5)])])
     (AMap [(''u'', AMap [(''string'', AStr ''x'')]), (''m'', AMap [(''string'', AInt64 5)])])"
proof -
  let ?f = wit_flattener
  have res: "av_ref t = [] \<Longrightarrow> resolve ?f t = t" for t by (simp add: resolve_def)
  have str: "native ?f (AvroType ''string'' [] [] [] None None [] []) (AStr ''x'') (AStr ''x'')"
    using native.scalar_value [of ?f "AvroType ''string'' [] [] [] None None [] []" "AStr ''x''"]
    by (simp add: res flatten_scalar_def)
  have "native ?f (fst wit_types) (AStr ''x'') (AMap [(''string'', AStr ''x'')])"
    using native.union_value [OF _ _ _ _ str, of "fst wit_types" "fst wit_types"]
    by (simp add: res wit_types_def branchName_def)
  moreover have long: "native ?f (AvroType ''long'' [] [] [] None None [] []) (AInt64 5) (AInt64 5)"
    using native.scalar_value [of ?f "AvroType ''long'' [] [] [] None None [] []" "AInt64 5"]
    by (simp add: res flatten_scalar_def)
  then have "native ?f (snd wit_types) (AMap [(''string'', AInt64 5)]) (AMap [(''string'', AInt64 5)])"
    using native.map_value [of ?f "snd wit_types" "AvroType ''long'' [] [] [] None None [] []"
        "[AInt64 5]" "[(''string'', AInt64 5)]"]
    by (simp add: res wit_types_def)
  moreover have "av_ref (fl_root ?f) = []" "av_kind (fl_root ?f) = ''record''"
    "av_fields (fl_root ?f) = [(''u'', fst wit_types), (''m'', snd wit_types)]"
    by (simp_all add: wit_flattener_def Let_def)
  ultimately show ?thesis
    using native.record_value [of ?f "fl_root ?f" "fl_root ?f"
        "[(''u'', AMap [(''string'', AStr ''x'')]), (''m'', AMap [(''string'', AInt64 5)])]"
        "[AStr ''x'', AMap [(''string'', AInt64 5)]]"]
    by (simp add: res)
qed


section \<open>Ambiguous references\<close>

lemma find_unique:
  assumes "set xs = set ys" "\<And>x y. x \<in> set xs \<Longrightarrow> y \<in> set xs \<Longrightarrow> P x \<Longrightarrow> P y \<Longrightarrow> x = y"
  shows "find P xs = find P ys"
proof (cases "find P xs")
  case None
  then show ?thesis using assms(1) by (metis find_None_iff)
next
  case (Some x)
  then have x: "x \<in> set xs" "P x" by (auto simp: find_Some_iff)
  have "find P ys \<noteq> None" using x assms(1) by (simp add: find_None_iff) blast
  then obtain y where y: "find P ys = Some y" by blast
  then have "y \<in> set ys" "P y" by (auto simp: find_Some_iff)
  then have "x = y" using assms x by blast
  then show ?thesis using y Some by simp
qed

text \<open>An unqualified name is the last component of at most one named type.\<close>

definition unambiguous :: "Flattener \<Rightarrow> bool" where
  "unambiguous f \<longleftrightarrow>
     (\<forall>r. \<forall>(n, t) \<in> set (fl_named f). \<forall>(n', t') \<in> set (fl_named f).
        HasSuffix n (CHR ''.'' # r) \<longrightarrow> HasSuffix n' (CHR ''.'' # r) \<longrightarrow> (n, t) = (n', t'))"

lemma resolve_order:
  assumes "unambiguous f" "set (fl_order f (fl_named f)) = set (fl_named f)"
    and "set (order (fl_named f)) = set (fl_named f)"
  shows "resolve (f\<lparr>fl_order := order\<rparr>) t = resolve f t"
proof -
  have "find (\<lambda>(name, n). HasSuffix name (CHR ''.'' # av_ref t)) (order (fl_named f))
      = find (\<lambda>(name, n). HasSuffix name (CHR ''.'' # av_ref t)) (fl_order f (fl_named f))"
    using assms unfolding unambiguous_def by (intro find_unique) (simp, blast)
  then show ?thesis by (cases "map_of (fl_named f) (av_ref t)") (simp_all add: resolve_def)
qed

lemma flatten_cong:
  assumes "\<And>t. resolve g t = resolve f t"
  shows "flatten_value g t v = flatten_value f t v"
    and "flatten_fields g tname fs m out = flatten_fields f tname fs m out"
    and "flatten_items g it vs = flatten_items f it vs"
    and "flatten_entries g vt es = flatten_entries f vt es"
  using assms
proof (induction f t v and f tname fs m out and f it vs and f vt es
    rule: flatten_value_flatten_fields_flatten_items_flatten_entries.induct)
  case (1 f t0 v)
  then show ?case
    by (subst (1 2) flatten_value.simps)
      (auto simp: Let_def split: anyval.splits list.splits option.splits prod.splits)
qed (auto split: option.splits sum.splits)

text \<open>
  When no two named types share an unqualified name, the result does not depend on the order in
  which Go ranges over the table of named types.
\<close>

lemma flatten_deterministic:
  assumes "unambiguous f" "set (fl_order f (fl_named f)) = set (fl_named f)"
    and "set (order (fl_named f)) = set (fl_named f)"
  shows "flatten_record (f\<lparr>fl_order := order\<rparr>) m = flatten_record f m"
proof -
  have "resolve (f\<lparr>fl_order := order\<rparr>) t = resolve f t" for t
    by (rule resolve_order [where order = order, OF assms])
  from flatten_cong(1) [OF this] show ?thesis by (simp add: flatten_record_def)
qed

end
