(* ===== verification/PubSub_Client.thy ===== *)
theory PubSub_Client
  imports OAuth Flatten Subscriber
begin

text \<open>
  \<^verbatim>\<open>grpcclient/grpcclient.go\<close>: the Pub/Sub client with its session and its cache of schemas. The gRPC
  service, the Avro codec and JSON are parameters (\<open>grpc_env\<close>): the n-th \<^verbatim>\<open>GetSchema\<close> call for an ID,
  the codec built from a schema text (its decoder and its canonical form), and the JSON of a text.
\<close>

section \<open>The client\<close>

record UserInfoResponse =
  ui_UserID :: string
  ui_OrganizationID :: string

record avro_codec =
  ac_NativeFromBinary :: "string \<Rightarrow> anyval result"
  ac_CanonicalSchema :: string

record schemaEntry =
  se_codec :: avro_codec
  se_flattener :: Flattener

record grpc_env =
  ge_login :: login_env
  ge_decodeUserInfo :: "string \<Rightarrow> UserInfoResponse result"
  ge_GetSchema :: "nat \<Rightarrow> string \<Rightarrow> string result"
  ge_NewCodec :: "string \<Rightarrow> avro_codec result"
  ge_json :: "string \<Rightarrow> anyval result"
  ge_order :: "registrations \<Rightarrow> registrations"

record PubSubClient =
  pc_auth :: AuthConfig
  pc_accessToken :: string
  pc_instanceURL :: string
  pc_userID :: string
  pc_orgID :: string
  pc_schemaCache :: "(string \<times> schemaEntry) list"
  pc_calls :: nat

record GRPCOptions =
  go_Endpoint :: string
  go_Insecure :: bool
  go_Auth :: AuthConfig

definition GRPCEndpoint :: string where "GRPCEndpoint = ''api.pubsub.salesforce.com:7443''"
definition userInfoEndpoint :: string where "userInfoEndpoint = ''/services/oauth2/userinfo''"

text \<open>\<open>connErr\<close> is what \<^verbatim>\<open>grpc.NewClient\<close> returns for the endpoint and the credentials.\<close>

definition NewGRPCClient :: "GRPCOptions \<Rightarrow> (string \<Rightarrow> bool \<Rightarrow> goerror option) \<Rightarrow> PubSubClient result" where
  "NewGRPCClient opts connErr =
     (let endpoint = (if go_Endpoint opts = [] then GRPCEndpoint else go_Endpoint opts)
      in case connErr endpoint (go_Insecure opts) of
           Some err \<Rightarrow> Inl err
         | None \<Rightarrow> Inr \<lparr>pc_auth = go_Auth opts, pc_accessToken = [], pc_instanceURL = [], pc_userID = [],
                       pc_orgID = [], pc_schemaCache = [], pc_calls = 0\<rparr>)"

definition UserInfo :: "grpc_env \<Rightarrow> string \<Rightarrow> string \<Rightarrow> UserInfoResponse result" where
  "UserInfo E tokenEndpoint accessToken =
     (case le_newRequest (ge_login E) (tokenEndpoint @ userInfoEndpoint) of
        Some err \<Rightarrow> Inl err
      | None \<Rightarrow>
          (case le_do (ge_login E) \<lparr>rq_Method = ''GET'', rq_URL = tokenEndpoint @ userInfoEndpoint,
                  rq_Header = [(''Authorization'', ''Bearer '' @ accessToken)], rq_Body = []\<rparr> of
             Inl err \<Rightarrow> Inl err
           | Inr r \<Rightarrow>
               if hr_StatusCode r \<noteq> 200
               then Inl (Err (''non-200 status code returned on OAuth user info call: '' @ Itoa (hr_StatusCode r)))
               else (case hr_readErr r of Some err \<Rightarrow> Inl err | None \<Rightarrow> ge_decodeUserInfo E (hr_Body r))))"

definition PubSub_Authenticate :: "grpc_env \<Rightarrow> time \<Rightarrow> PubSubClient \<Rightarrow> goerror option \<times> PubSubClient" where
  "PubSub_Authenticate E now c =
     (case Login (ge_login E) now (pc_auth c) of
        Inl err \<Rightarrow> (Some (Wrap ''login failed'' err), c)
      | Inr resp \<Rightarrow>
          (case UserInfo E (auth_TokenUrl (pc_auth c)) (ar_AccessToken resp) of
             Inl err \<Rightarrow> (Some (Wrap ''fetching user info'' err), c)
           | Inr info \<Rightarrow>
               if ui_OrganizationID info = []
               then (Some (Err ''user info response has no organization_id''), c)
               else (None, c\<lparr>pc_accessToken := ar_AccessToken resp, pc_instanceURL := ar_InstanceURL resp,
                             pc_userID := ui_UserID info, pc_orgID := ui_OrganizationID info\<rparr>)))"

definition AuthContext :: "PubSubClient \<Rightarrow> attrs" where
  "AuthContext c = [(''accesstoken'', pc_accessToken c), (''instanceurl'', pc_instanceURL c),
                    (''tenantid'', pc_orgID c)]"

section \<open>Decoding\<close>

definition parseTypeName :: "grpc_env \<Rightarrow> avro_codec \<Rightarrow> string" where
  "parseTypeName E codec =
     (case ge_json E (ac_CanonicalSchema codec) of Inr (AMap dat) \<Rightarrow> mstr dat ''name'' | _ \<Rightarrow> [])"

definition shortTypeName :: "string \<Rightarrow> string" where
  "shortTypeName full =
     (let name = last (Split full (CHR ''.'')) in if name \<noteq> [] then name else ''UnknownEvent'')"

definition fetchSchema :: "grpc_env \<Rightarrow> string \<Rightarrow> PubSubClient \<Rightarrow> schemaEntry result \<times> PubSubClient" where
  "fetchSchema E sid c =
     (case map_of (pc_schemaCache c) sid of
        Some entry \<Rightarrow> (Inr entry, c)
      | None \<Rightarrow>
          let c1 = c\<lparr>pc_calls := pc_calls c + 1\<rparr> in
          (case ge_GetSchema E (pc_calls c) sid of
             Inl err \<Rightarrow> (Inl err, c1)
           | Inr schema \<Rightarrow>
               (case ge_NewCodec E schema of
                  Inl err \<Rightarrow> (Inl err, c1)
                | Inr codec \<Rightarrow>
                    (case NewFlattener (ge_order E) (ge_json E schema) of
                       Inl err \<Rightarrow> (Inl err, c1)
                     | Inr flattener \<Rightarrow>
                         let entry = \<lparr>se_codec = codec, se_flattener = flattener\<rparr>
                         in (Inr entry, c1\<lparr>pc_schemaCache := AList.update sid entry (pc_schemaCache c)\<rparr>)))))"

definition decode_with :: "grpc_env \<Rightarrow> schemaEntry \<Rightarrow> string \<Rightarrow> (payload \<times> string) result" where
  "decode_with E entry bytes =
     (case ac_NativeFromBinary (se_codec entry) bytes of
        Inl err \<Rightarrow> Inl (Wrap ''decoding avro payload'' err)
      | Inr (AMap body) \<Rightarrow>
          (case flatten_record (se_flattener entry) body of
             Inl err \<Rightarrow> Inl (Wrap ''flattening avro record'' err)
           | Inr flds \<Rightarrow> Inr (flds, shortTypeName (parseTypeName E (se_codec entry))))
      | Inr _ \<Rightarrow> Inl (Err ''decoded payload is not a record''))"

definition DecodeEvent ::
  "grpc_env \<Rightarrow> ConsumerEvent \<Rightarrow> PubSubClient \<Rightarrow> (payload \<times> string) result \<times> PubSubClient" where
  "DecodeEvent E ev c =
     (case fetchSchema E (ev_SchemaId ev) c of
        (Inl err, c1) \<Rightarrow> (Inl (SchemaFetchError (ev_SchemaId ev) err), c1)
      | (Inr entry, c1) \<Rightarrow> (decode_with E entry (ev_Payload ev), c1))"

section \<open>The two kinds of failure\<close>

text \<open>Errors of the flattener never look like a failure to fetch a schema.\<close>

lemma no_schema_Wrap [simp]: "isSchemaError (Wrap s e) \<longleftrightarrow> isSchemaError e"
  by (simp add: isSchemaError_def chain_simps)

lemma no_schema_Err [simp]: "\<not> isSchemaError (Err s)"
  by (simp add: isSchemaError_def chain_simps)

lemma isSchemaError_Schema [simp]: "isSchemaError (SchemaFetchError s e)"
  by (simp add: isSchemaError_def chain_simps)

lemma flatten_errors:
  "flatten_value f t v = Inl err \<Longrightarrow> \<not> isSchemaError err"
  "flatten_fields f tname fs m out = Inl err \<Longrightarrow> \<not> isSchemaError err"
  "flatten_items f it vs = Inl err \<Longrightarrow> \<not> isSchemaError err"
  "flatten_entries f vt es = Inl err \<Longrightarrow> \<not> isSchemaError err"
proof (induction f t v and f tname fs m out and f it vs and f vt es arbitrary: err and err and err and err
    rule: flatten_value_flatten_fields_flatten_items_flatten_entries.induct)
  case (1 f t0 v)
  note failed = 1(5) [unfolded flatten_value.simps [of f t0 v]]
  from 1(1-4) failed show ?case
    by (auto simp: Let_def split: if_splits anyval.splits list.splits option.splits sum.splits prod.splits)
qed (auto split: option.splits sum.splits)

lemma flatten_record_errors: "flatten_record f m = Inl err \<Longrightarrow> \<not> isSchemaError err"
  by (auto simp: flatten_record_def split: sum.splits anyval.splits dest: flatten_errors(1))

lemma decode_with_errors:
  assumes "decode_with E entry b = Inl err"
    and "\<And>e. ac_NativeFromBinary (se_codec entry) b = Inl e \<Longrightarrow> \<not> isSchemaError e"
  shows "\<not> isSchemaError err"
  using assms by (auto simp: decode_with_def split: sum.splits anyval.splits dest: flatten_record_errors)

lemma fetchSchema_cases:
  assumes "fetchSchema E sid c = (r, c')"
  obtains (cached) entry where "map_of (pc_schemaCache c) sid = Some entry" "r = Inr entry" "c' = c"
  | (failed) err where "map_of (pc_schemaCache c) sid = None" "r = Inl err"
      "c' = c\<lparr>pc_calls := pc_calls c + 1\<rparr>"
  | (fetched) entry where "map_of (pc_schemaCache c) sid = None" "r = Inr entry"
      "c' = c\<lparr>pc_calls := pc_calls c + 1, pc_schemaCache := AList.update sid entry (pc_schemaCache c)\<rparr>"
  using assms unfolding fetchSchema_def Let_def
  by (auto split: option.splits sum.splits)

text \<open>
  An event that fails to decode is reported as a schema that could not be fetched (so that the
  collector reconnects) exactly when the client still has no schema for it; with a schema, the failure
  is one of the event (and stops the collector).
\<close>

theorem decode_failure_kind:
  assumes "DecodeEvent E ev c = (Inl err, c')"
    and "\<And>schema codec b e. ge_NewCodec E schema = Inr codec \<Longrightarrow> ac_NativeFromBinary codec b = Inl e
           \<Longrightarrow> \<not> isSchemaError e"
    and "\<And>sid entry b e. map_of (pc_schemaCache c) sid = Some entry
           \<Longrightarrow> ac_NativeFromBinary (se_codec entry) b = Inl e \<Longrightarrow> \<not> isSchemaError e"
  shows "isSchemaError err \<longleftrightarrow> map_of (pc_schemaCache c') (ev_SchemaId ev) = None"
proof -
  obtain r c1 where f: "fetchSchema E (ev_SchemaId ev) c = (r, c1)" by fastforce
  then show ?thesis
  proof (cases rule: fetchSchema_cases)
    case (cached entry)
    then have "decode_with E entry (ev_Payload ev) = Inl err" "c' = c"
      using assms(1) f by (simp_all add: DecodeEvent_def)
    then show ?thesis using cached decode_with_errors assms(3) by auto
  next
    case (failed err')
    then show ?thesis using assms(1) f by (auto simp: DecodeEvent_def)
  next
    case (fetched entry)
    then have d: "decode_with E entry (ev_Payload ev) = Inl err" "c' = c1"
      using assms(1) f by (simp_all add: DecodeEvent_def)
    obtain schema where "ge_NewCodec E schema = Inr (se_codec entry)"
      using f fetched(1,2) by (auto simp: fetchSchema_def Let_def split: sum.splits)
    then show ?thesis using d fetched decode_with_errors assms(2)
      by (auto simp: update_conv)
  qed
qed

text \<open>Decoding a list of events, until one fails.\<close>

fun decode_all :: "grpc_env \<Rightarrow> ConsumerEvent list \<Rightarrow> PubSubClient \<Rightarrow> (payload \<times> string) list result \<times> PubSubClient" where
  "decode_all E [] c = (Inr [], c)"
| "decode_all E (ev # evs) c =
     (case DecodeEvent E ev c of
        (Inl err, c1) \<Rightarrow> (Inl err, c1)
      | (Inr x, c1) \<Rightarrow>
          (case decode_all E evs c1 of (Inl err, c2) \<Rightarrow> (Inl err, c2) | (Inr xs, c2) \<Rightarrow> (Inr (x # xs), c2)))"

lemma DecodeEvent_ok:
  assumes "DecodeEvent E ev c = (Inr x, c')"
  shows "pc_calls c' = pc_calls c + card ({ev_SchemaId ev} - fst ` set (pc_schemaCache c))
    \<and> fst ` set (pc_schemaCache c') = insert (ev_SchemaId ev) (fst ` set (pc_schemaCache c))"
proof -
  obtain r c1 where f: "fetchSchema E (ev_SchemaId ev) c = (r, c1)" by fastforce
  then have "c' = c1" using assms by (cases r) (simp_all add: DecodeEvent_def)
  from f show ?thesis
  proof (cases rule: fetchSchema_cases)
    case (cached entry)
    then have "ev_SchemaId ev \<in> fst ` set (pc_schemaCache c)" by (force dest: map_of_SomeD)
    then show ?thesis using cached \<open>c' = c1\<close> by auto
  next
    case (failed err')
    then show ?thesis using assms f by (simp add: DecodeEvent_def)
  next
    case (fetched entry)
    then have "ev_SchemaId ev \<notin> fst ` set (pc_schemaCache c)" by (simp add: map_of_eq_None_iff)
    then show ?thesis using fetched \<open>c' = c1\<close> by (simp add: dom_update insert_Diff_if)
  qed
qed

text \<open>
  C17: each schema is fetched once. While events decode, the number of calls to the service is the number
  of schema IDs that were not known before.
\<close>

theorem schemas_fetched_once:
  assumes "decode_all E evs c = (Inr xs, c')"
  shows "pc_calls c' = pc_calls c + card (ev_SchemaId ` set evs - fst ` set (pc_schemaCache c))"
proof -
  have "pc_calls c' = pc_calls c + card (ev_SchemaId ` set evs - fst ` set (pc_schemaCache c))
    \<and> fst ` set (pc_schemaCache c') = ev_SchemaId ` set evs \<union> fst ` set (pc_schemaCache c)"
    using assms
  proof (induction evs arbitrary: c xs)
    case Nil
    then show ?case by simp
  next
    case (Cons ev evs)
    obtain x c1 where d: "DecodeEvent E ev c = (Inr x, c1)"
      using Cons.prems by (auto split: prod.splits sum.splits)
    then obtain ys where "decode_all E evs c1 = (Inr ys, c')"
      using Cons.prems by (auto split: prod.splits sum.splits)
    note rest = Cons.IH [OF this] and first = DecodeEvent_ok [OF d]
    let ?K = "fst ` set (pc_schemaCache c)" and ?S = "ev_SchemaId ` set evs"
    have "ev_SchemaId ` set (ev # evs) - ?K = ({ev_SchemaId ev} - ?K) \<union> (?S - insert (ev_SchemaId ev) ?K)"
      "({ev_SchemaId ev} - ?K) \<inter> (?S - insert (ev_SchemaId ev) ?K) = {}" by auto
    then have "card (ev_SchemaId ` set (ev # evs) - ?K)
        = card ({ev_SchemaId ev} - ?K) + card (?S - insert (ev_SchemaId ev) ?K)"
      by (simp add: card_Un_disjoint)
    with rest first show ?case by auto
  qed
  then show ?thesis ..
qed

section \<open>A schema the client cannot use\<close>

lemma parse_errors:
  "parse v ns = Inl err \<Longrightarrow> \<exists>s. err = Err s"
  "parse_branches vs ns = Inl err \<Longrightarrow> \<exists>s. err = Err s"
  "parse_fields full vs ns = Inl err \<Longrightarrow> \<exists>s. err = Err s"
  by (induction v ns and vs ns and full vs ns arbitrary: err and err and err
      rule: parse_parse_branches_parse_fields.induct)
    (auto simp: Let_def split: if_splits sum.splits)


section \<open>Concrete clients\<close>

text \<open>A service whose schema texts are their IDs; the JSON of \<open>bad\<close> has a type the flattener does not know.\<close>

definition wit_login :: login_env where
  "wit_login = \<lparr>le_newRequest = (\<lambda>u. None), le_do = (\<lambda>r. Inl EOF), le_decode = (\<lambda>b. Inl EOF),
     le_decodeErr = (\<lambda>b. Inl EOF), le_readFile = (\<lambda>p. Inl EOF), le_parseKey = (\<lambda>k. Inl EOF),
     le_sign = (\<lambda>k cs. Inl EOF)\<rparr>"

definition wit_avro :: avro_codec where
  "wit_avro = \<lparr>ac_NativeFromBinary = (\<lambda>b. if b = [] then Inl EOF else
       Inr (AMap [(''u'', AMap [(''string'', AStr ''x'')]), (''m'', AMap [(''string'', AInt64 5)])])),
     ac_CanonicalSchema = ''E''\<rparr>"

definition wit_grpc :: grpc_env where
  "wit_grpc = \<lparr>ge_login = wit_login, ge_decodeUserInfo = (\<lambda>b. Inl EOF), ge_GetSchema = (\<lambda>n i. Inr i),
     ge_NewCodec = (\<lambda>s. Inr wit_avro),
     ge_json = (\<lambda>s. Inr (if s = ''bad'' then AMap [(''type'', AStr ''decimal'')] else wit_schema)),
     ge_order = (\<lambda>r. r)\<rparr>"

definition wit_pc :: PubSubClient where
  "wit_pc = \<lparr>pc_auth = \<lparr>auth_TokenUrl = [], auth_UserPass = None, auth_Jwt = None, auth_ClientCred = None\<rparr>,
     pc_accessToken = [], pc_instanceURL = [], pc_userID = [], pc_orgID = [], pc_schemaCache = [], pc_calls = 0\<rparr>"

definition wit_ev :: "string \<Rightarrow> string \<Rightarrow> ConsumerEvent" where
  "wit_ev sid bytes = \<lparr>ev_ReplayId = ''r'', ev_SchemaId = sid, ev_Payload = bytes\<rparr>"

lemma wit_flattener_ok: "NewFlattener (ge_order wit_grpc) (ge_json wit_grpc ''S'') = Inr wit_flattener"
  using wit_schema_parsed by (simp add: wit_grpc_def)

lemma wit_fetch: "fetchSchema wit_grpc ''S'' wit_pc
   = (Inr \<lparr>se_codec = wit_avro, se_flattener = wit_flattener\<rparr>,
      wit_pc\<lparr>pc_calls := 1, pc_schemaCache := [(''S'', \<lparr>se_codec = wit_avro, se_flattener = wit_flattener\<rparr>)]\<rparr>)"
  using wit_flattener_ok by (simp add: fetchSchema_def wit_pc_def wit_grpc_def Let_def)

lemma wit_decode: "decode_with wit_grpc \<lparr>se_codec = wit_avro, se_flattener = wit_flattener\<rparr> ''x''
   = Inr ([(''u'', AStr ''x''), (''m'', AMap [(''string'', AInt64 5)])], ''E'')"
proof -
  have "flatten_value wit_flattener (fl_root wit_flattener)
     (AMap [(''u'', AMap [(''string'', AStr ''x'')]), (''m'', AMap [(''string'', AInt64 5)])])
   = Inr (AMap [(''u'', AStr ''x''), (''m'', AMap [(''string'', AInt64 5)])])"
    by (simp add: flatten_value.simps resolve_def branchName_def flatten_scalar_def wit_flattener_def
        wit_types_def Let_def)
  then show ?thesis
    by (simp add: decode_with_def wit_avro_def flatten_record_def parseTypeName_def shortTypeName_def
        wit_grpc_def wit_schema_def mstr_def str_field_def)
qed

lemma wit_decode_fails: "DecodeEvent wit_grpc (wit_ev ''S'' []) wit_pc
   = (Inl (Wrap ''decoding avro payload'' EOF), snd (fetchSchema wit_grpc ''S'' wit_pc))"
  by (simp add: DecodeEvent_def wit_ev_def wit_fetch decode_with_def wit_avro_def)

lemma decode_failure_kind_witness:
  "map_of (pc_schemaCache (snd (DecodeEvent wit_grpc (wit_ev ''S'' []) wit_pc))) ''S'' \<noteq> None
   \<and> \<not> isSchemaError (Wrap ''decoding avro payload'' EOF)"
proof -
  have cached: "map_of (pc_schemaCache (snd (fetchSchema wit_grpc ''S'' wit_pc))) ''S'' \<noteq> None"
    by (simp add: wit_fetch)
  have "\<not> isSchemaError EOF" by (simp add: EOF_def)
  then have "isSchemaError (Wrap ''decoding avro payload'' EOF)
      \<longleftrightarrow> map_of (pc_schemaCache (snd (fetchSchema wit_grpc ''S'' wit_pc))) (ev_SchemaId (wit_ev ''S'' [])) = None"
    by (intro decode_failure_kind [OF wit_decode_fails])
      (auto simp: wit_grpc_def wit_avro_def wit_pc_def split: if_splits)
  then show ?thesis using cached by (simp add: wit_decode_fails) (simp add: wit_ev_def)
qed

lemma wit_decode_twice:
  "decode_all wit_grpc [wit_ev ''S'' ''x'', wit_ev ''S'' ''x''] wit_pc
     = (Inr [([(''u'', AStr ''x''), (''m'', AMap [(''string'', AInt64 5)])], ''E''),
             ([(''u'', AStr ''x''), (''m'', AMap [(''string'', AInt64 5)])], ''E'')],
        snd (fetchSchema wit_grpc ''S'' wit_pc))"
proof -
  have again: "fetchSchema wit_grpc ''S'' (snd (fetchSchema wit_grpc ''S'' wit_pc))
      = (Inr \<lparr>se_codec = wit_avro, se_flattener = wit_flattener\<rparr>, snd (fetchSchema wit_grpc ''S'' wit_pc))"
    unfolding wit_fetch by (simp add: fetchSchema_def)
  then show ?thesis
    by (simp add: DecodeEvent_def wit_ev_def wit_fetch wit_decode)
qed

lemma schemas_fetched_once_witness:
  "pc_calls (snd (decode_all wit_grpc [wit_ev ''S'' ''x'', wit_ev ''S'' ''x''] wit_pc)) = 1"
  using schemas_fetched_once [OF wit_decode_twice] wit_decode_twice
  by (simp add: wit_pc_def wit_ev_def)

definition wit_stream_env :: "(nat, nat) env" where
  "wit_stream_env =
     \<lparr>env_codec = \<lparr>jsonEncode = (\<lambda>l. Inl EOF), gzip = (\<lambda>b. b), gunzip = Inr, jsonDecode = (\<lambda>b. ([], None)),
        manEncode = (\<lambda>m. Inl EOF), manDecode = (\<lambda>b. Inl EOF)\<rparr>,
      env_Write = (\<lambda>c now meta fill s. (Inl EOF, s)), env_Acquire = (\<lambda>c now l. None),
      env_Load = (\<lambda>c now l. (Inr None, l)), env_Commit = (\<lambda>c now rid l. (None, l)),
      env_Release = (\<lambda>c now l. (None, l)), env_Authenticate = (\<lambda>n. Inl EOF),
      env_Subscribe = (\<lambda>n r. Inl EOF),
      env_DecodeEvent = (\<lambda>now e. fst (DecodeEvent wit_grpc e wit_pc)), env_latency = (\<lambda>n. 1),
      env_rand = (\<lambda>n. 0)\<rparr>"


end
