(* ===== verification/Redis_Client.thy ===== *)
theory Redis_Client
  imports OAuth Cache Sink_S3 Sink_Local
begin

text \<open>
  Building the program's dependencies from its configuration: the Redis client of
  \<^verbatim>\<open>internal/cache/redis/client.go\<close> with its TLS settings and IAM tokens, the choice of the cache in
  \<^verbatim>\<open>internal/cache/cache.go\<close> and of the sink in \<^verbatim>\<open>internal/archive/build.go\<close>.

  The file system, the certificate parser and the AWS SDK are parameters, the fields of \<open>redis_env\<close>:
  \<open>re_AppendCerts\<close> is whether a PEM file holds a certificate, \<open>re_awsRegion\<close> the region of the default
  AWS configuration or its error, \<open>re_Retrieve\<close> the credentials, \<open>re_newRequest\<close> and \<open>re_presign\<close> the
  request and its signature at an instant. A go-redis client is the options it is built from.
\<close>

section \<open>Settings\<close>

text \<open>Conversion to a 64-bit integer, and seconds as a \<^verbatim>\<open>time.Duration\<close>.\<close>

definition wrap64 :: "int \<Rightarrow> int" where "wrap64 x = (x + 2 ^ 63) mod 2 ^ 64 - 2 ^ 63"

definition Seconds :: "int \<Rightarrow> duration" where "Seconds n = wrap64 (wrap64 n * second)"

lemma wrap64_id: "- (2 ^ 63) \<le> x \<Longrightarrow> x < 2 ^ 63 \<Longrightarrow> wrap64 x = x"
  by (simp add: wrap64_def)

lemma Seconds_small: "0 \<le> n \<Longrightarrow> n \<le> 9223372036 \<Longrightarrow> Seconds n = n * second"
  by (simp add: Seconds_def wrap64_def second_def)

record TLSConfig =
  rtls_Enabled :: bool
  rtls_InsecureSkipVerify :: bool
  rtls_CAFile :: string
  rtls_ServerName :: string

record IAMAuthConfig =
  ria_Enabled :: bool
  ria_CacheName :: string
  ria_UserId :: string
  ria_Region :: string
  ria_Serverless :: bool

record RedisClientConfig =
  rcc_Host :: string
  rcc_Port :: int
  rcc_DbNumber :: int
  rcc_Username :: string
  rcc_Password :: string
  rcc_ExpireDays :: int
  rcc_Mode :: string
  rcc_TLS :: TLSConfig
  rcc_IAMAuth :: IAMAuthConfig
  rcc_DialTimeout :: duration
  rcc_ReadTimeout :: duration
  rcc_WriteTimeout :: duration
  rcc_MaxRetries :: int

definition RedisSettings :: "RedisConfig \<Rightarrow> RedisClientConfig" where
  "RedisSettings conf =
     \<lparr>rcc_Host = redis_Host conf, rcc_Port = wrap64 (int (redis_Port conf)),
      rcc_DbNumber = wrap64 (int (redis_DbNumber conf)), rcc_Username = redis_Username conf,
      rcc_Password = redis_Password conf, rcc_ExpireDays = wrap64 (int (redis_ExpireDays conf)),
      rcc_Mode = redis_Mode conf,
      rcc_TLS = \<lparr>rtls_Enabled = tls_Enabled (redis_TLS conf),
        rtls_InsecureSkipVerify = tls_InsecureSkipVerify (redis_TLS conf),
        rtls_CAFile = tls_CAFile (redis_TLS conf), rtls_ServerName = tls_ServerName (redis_TLS conf)\<rparr>,
      rcc_IAMAuth = \<lparr>ria_Enabled = iam_Enabled (redis_IAMAuth conf),
        ria_CacheName = iam_CacheName (redis_IAMAuth conf), ria_UserId = iam_UserId (redis_IAMAuth conf),
        ria_Region = iam_Region (redis_IAMAuth conf), ria_Serverless = iam_Serverless (redis_IAMAuth conf)\<rparr>,
      rcc_DialTimeout = Seconds (int (redis_DialTimeoutSeconds conf)),
      rcc_ReadTimeout = Seconds (int (redis_ReadTimeoutSeconds conf)),
      rcc_WriteTimeout = Seconds (int (redis_WriteTimeoutSeconds conf)),
      rcc_MaxRetries = redis_MaxRetries conf\<rparr>"

definition WithDefaults :: "RedisClientConfig \<Rightarrow> RedisClientConfig" where
  "WithDefaults c0 =
     (let c1 = (if rcc_Port c0 = 0 then c0\<lparr>rcc_Port := 6379\<rparr> else c0);
          c2 = (if rcc_DialTimeout c1 = 0 then c1\<lparr>rcc_DialTimeout := 5 * second\<rparr> else c1);
          c3 = (if rcc_ReadTimeout c2 = 0 then c2\<lparr>rcc_ReadTimeout := 3 * second\<rparr> else c2);
          c4 = (if rcc_WriteTimeout c3 = 0 then c3\<lparr>rcc_WriteTimeout := 3 * second\<rparr> else c3)
      in if rcc_MaxRetries c4 = 0 then c4\<lparr>rcc_MaxRetries := 3\<rparr> else c4)"

definition opTimeout :: "RedisClientConfig \<Rightarrow> duration" where
  "opTimeout conf = rcc_ReadTimeout conf + rcc_WriteTimeout conf + 2 * second"

section \<open>The client\<close>

record tls_client =
  tc_MinVersion :: string
  tc_InsecureSkipVerify :: bool
  tc_ServerName :: string
  tc_RootCAs :: "string option"

record 'cr redis_env =
  re_readFile :: "string \<Rightarrow> string result"
  re_AppendCerts :: "string \<Rightarrow> bool"
  re_awsRegion :: "string result"
  re_Retrieve :: "nat \<Rightarrow> 'cr result"
  re_newRequest :: "string \<Rightarrow> goerror option"
  re_presign :: "string \<Rightarrow> string \<Rightarrow> 'cr \<Rightarrow> time \<Rightarrow> string result"

definition buildTLSConfig :: "'cr redis_env \<Rightarrow> TLSConfig \<Rightarrow> string \<Rightarrow> tls_client option result" where
  "buildTLSConfig E conf host =
     (if \<not> rtls_Enabled conf then Inr None
      else
        let t0 = \<lparr>tc_MinVersion = ''TLS 1.2'', tc_InsecureSkipVerify = rtls_InsecureSkipVerify conf,
                  tc_ServerName = rtls_ServerName conf, tc_RootCAs = None\<rparr>;
            t1 = (if tc_ServerName t0 = [] then t0\<lparr>tc_ServerName := host\<rparr> else t0)
        in if rtls_CAFile conf \<noteq> [] then
             (case re_readFile E (rtls_CAFile conf) of
                Inl err \<Rightarrow> Inl (Wrap ''reading redis CA file'' err)
              | Inr pem \<Rightarrow>
                  if \<not> re_AppendCerts E pem
                  then Inl (Err (''redis CA file '' @ rtls_CAFile conf @ '' contains no certificates''))
                  else Inr (Some (t1\<lparr>tc_RootCAs := Some pem\<rparr>)))
           else Inr (Some t1))"

record iamTokenProvider =
  ip_conf :: IAMAuthConfig
  ip_token :: string
  ip_at :: time
  ip_calls :: nat

text \<open>\<^verbatim>\<open>LoadDefaultConfig\<close> is given the configured region, if any, and then its own region is not used.\<close>

definition newIAMTokenProvider :: "'cr redis_env \<Rightarrow> IAMAuthConfig \<Rightarrow> iamTokenProvider result" where
  "newIAMTokenProvider E conf =
     (if ria_CacheName conf = [] \<or> ria_UserId conf = []
      then Inl (Err ''redis IAM auth requires cacheName and userId'')
      else
        (case re_awsRegion E of
           Inl err \<Rightarrow> Inl (Wrap ''loading AWS config for redis IAM auth'' err)
         | Inr region \<Rightarrow>
             let conf' = (if ria_Region conf = [] then conf\<lparr>ria_Region := region\<rparr> else conf)
             in if ria_Region conf' = [] then Inl (Err ''redis IAM auth requires a region'')
                else Inr \<lparr>ip_conf = conf', ip_token = [], ip_at = zero_time, ip_calls = 0\<rparr>))"

record UniversalOptions =
  uo_Addrs :: "string list"
  uo_DB :: int
  uo_Username :: string
  uo_Password :: string
  uo_TLSConfig :: "tls_client option"
  uo_DialTimeout :: duration
  uo_ReadTimeout :: duration
  uo_WriteTimeout :: duration
  uo_MaxRetries :: int
  uo_IsClusterMode :: bool
  uo_Credentials :: "iamTokenProvider option"

definition base_options :: "RedisClientConfig \<Rightarrow> tls_client option \<Rightarrow> UniversalOptions" where
  "base_options conf tlsConf =
     \<lparr>uo_Addrs = [rcc_Host conf @ '':'' @ Itoa (rcc_Port conf)], uo_DB = rcc_DbNumber conf,
      uo_Username = rcc_Username conf, uo_Password = rcc_Password conf, uo_TLSConfig = tlsConf,
      uo_DialTimeout = rcc_DialTimeout conf, uo_ReadTimeout = rcc_ReadTimeout conf,
      uo_WriteTimeout = rcc_WriteTimeout conf, uo_MaxRetries = rcc_MaxRetries conf,
      uo_IsClusterMode = False, uo_Credentials = None\<rparr>"

definition set_mode :: "RedisClientConfig \<Rightarrow> UniversalOptions \<Rightarrow> UniversalOptions result" where
  "set_mode conf opts =
     (let mode = ToLower (rcc_Mode conf) in
      if mode = [] \<or> mode = ''standalone'' then Inr opts
      else if mode = ''cluster'' then
        (if rcc_DbNumber conf \<noteq> 0 then Inl (Err ''redis cluster mode only supports dbNumber 0'')
         else Inr (opts\<lparr>uo_IsClusterMode := True\<rparr>))
      else Inl (Err (''unknown redis mode '' @ rcc_Mode conf)))"

definition set_iam ::
  "'cr redis_env \<Rightarrow> RedisClientConfig \<Rightarrow> tls_client option \<Rightarrow> UniversalOptions \<Rightarrow> UniversalOptions result" where
  "set_iam E conf tlsConf opts =
     (if ria_Enabled (rcc_IAMAuth conf) then
        (if tlsConf = None then Inl (Err ''redis IAM auth requires TLS to be enabled'')
         else (case newIAMTokenProvider E (rcc_IAMAuth conf) of
                 Inl err \<Rightarrow> Inl err
               | Inr provider \<Rightarrow>
                   Inr (opts\<lparr>uo_Username := [], uo_Password := [], uo_Credentials := Some provider\<rparr>)))
      else Inr opts)"

definition NewClient :: "'cr redis_env \<Rightarrow> RedisClientConfig \<Rightarrow> UniversalOptions result" where
  "NewClient E conf0 =
     (if rcc_Host conf0 = [] then Inl (Err ''redis host must be defined'')
      else
        let conf = WithDefaults conf0 in
        case buildTLSConfig E (rcc_TLS conf) (rcc_Host conf) of
          Inl err \<Rightarrow> Inl err
        | Inr tlsConf \<Rightarrow>
            (case set_mode conf (base_options conf tlsConf) of
               Inl err \<Rightarrow> Inl err
             | Inr opts \<Rightarrow> set_iam E conf tlsConf opts))"

section \<open>IAM tokens\<close>

definition iamTokenTTL :: duration where "iamTokenTTL = 15 * minute"
definition iamTokenRefresh :: duration where "iamTokenRefresh = 10 * minute"

definition TrimPrefix :: "string \<Rightarrow> string \<Rightarrow> string" where
  "TrimPrefix s p = (if HasPrefix s p then drop (length p) s else s)"

definition iam_query :: "IAMAuthConfig \<Rightarrow> attrs" where
  "iam_query conf =
     [(''Action'', ''connect''), (''User'', ria_UserId conf)]
     @ (if ria_Serverless conf then [(''ResourceType'', ''ServerlessCache'')] else [])
     @ [(''X-Amz-Expires'', Itoa (iamTokenTTL div second))]"

definition GenerateIAMAuthToken :: "'cr redis_env \<Rightarrow> IAMAuthConfig \<Rightarrow> 'cr \<Rightarrow> time \<Rightarrow> string result" where
  "GenerateIAMAuthToken E conf creds now =
     (let url = ''http://'' @ ria_CacheName conf @ ''/?'' @ form_encode (iam_query conf) in
      case re_newRequest E url of
        Some err \<Rightarrow> Inl err
      | None \<Rightarrow>
          (case re_presign E url (ria_Region conf) creds now of
             Inl err \<Rightarrow> Inl (Wrap ''presigning redis IAM auth token'' err)
           | Inr url' \<Rightarrow> Inr (TrimPrefix url' ''http://'')))"

text \<open>
  One call of \<^verbatim>\<open>credentials\<close>: it starts at \<open>now\<close>, signs at \<open>signing\<close> and stores the token at \<open>stored\<close>.
\<close>

record call_times =
  ct_now :: time
  ct_signing :: time
  ct_stored :: time

definition credentials ::
  "'cr redis_env \<Rightarrow> call_times \<Rightarrow> iamTokenProvider \<Rightarrow> (string \<times> string) result \<times> iamTokenProvider" where
  "credentials E t p =
     (if ip_token p \<noteq> [] \<and> ct_now t - ip_at p < iamTokenRefresh
      then (Inr (ria_UserId (ip_conf p), ip_token p), p)
      else
        let p1 = p\<lparr>ip_calls := ip_calls p + 1\<rparr> in
        case re_Retrieve E (ip_calls p) of
          Inl err \<Rightarrow> (Inl (Wrap ''retrieving AWS credentials for redis IAM auth'' err), p1)
        | Inr creds \<Rightarrow>
            (case GenerateIAMAuthToken E (ip_conf p) creds (ct_signing t) of
               Inl err \<Rightarrow> (Inl err, p1)
             | Inr token \<Rightarrow>
                 (Inr (ria_UserId (ip_conf p), token), p1\<lparr>ip_token := token, ip_at := ct_stored t\<rparr>)))"

section \<open>Choosing the cache and the sink\<close>

definition BuildRedisClient :: "'cr redis_env \<Rightarrow> CacheConfig option \<Rightarrow> UniversalOptions option result" where
  "BuildRedisClient E conf =
     (case Option.bind conf cache_Redis of
        None \<Rightarrow> Inr None
      | Some r \<Rightarrow> (case NewClient E (RedisSettings r) of Inl err \<Rightarrow> Inl err | Inr c \<Rightarrow> Inr (Some c)))"

datatype built_cache =
    InProcess MemoryCache
  | OnRedis RedisClientConfig UniversalOptions
  | Prefixed string RedisClientConfig UniversalOptions

definition NewRedisCache :: "'cr redis_env \<Rightarrow> RedisClientConfig \<Rightarrow> (RedisClientConfig \<times> UniversalOptions) result" where
  "NewRedisCache E conf =
     (case NewClient E conf of Inl err \<Rightarrow> Inl err | Inr client \<Rightarrow> Inr (WithDefaults conf, client))"

definition BuildCache :: "'cr redis_env \<Rightarrow> CacheConfig option \<Rightarrow> built_cache result" where
  "BuildCache E conf =
     (case Option.bind conf cache_Redis of
        None \<Rightarrow> Inr (InProcess NewMemoryCache)
      | Some r \<Rightarrow>
          (case NewRedisCache E (RedisSettings r) of
             Inl err \<Rightarrow> Inl err
           | Inr (rconf, client) \<Rightarrow>
               if redis_KeyPrefix r \<noteq> [] then Inr (Prefixed (redis_KeyPrefix r) rconf client)
               else Inr (OnRedis rconf client)))"

datatype built_sink = BuiltS3 S3Sink | BuiltLocal string LocalSink

text \<open>\<open>s3\<close> and \<open>fs\<close> are the service and the file system the sink talks to.\<close>

definition FromConfig ::
  "goerror option \<Rightarrow> S3Sink \<Rightarrow> (string \<Rightarrow> goerror option) \<Rightarrow> LocalSink \<Rightarrow> ArchiveConfig \<Rightarrow> built_sink result" where
  "FromConfig awsErr s3 mkdir fs conf =
     (case arch_S3 conf of
        Some c \<Rightarrow>
          (case NewS3Sink \<lparr>opt_Bucket = cs3_Bucket c, opt_Prefix = cs3_Prefix c, opt_Region = cs3_Region c,
                  opt_Endpoint = cs3_Endpoint c, opt_ForcePathStyle = cs3_ForcePathStyle c,
                  opt_KmsKeyId = cs3_KmsKeyId c, opt_StorageClass = cs3_StorageClass c,
                  opt_MaxAttempts = cs3_MaxAttempts c,
                  opt_UploadTimeout = Seconds (cs3_UploadTimeoutSeconds c)\<rparr> awsErr s3 of
             Inl err \<Rightarrow> Inl err | Inr s \<Rightarrow> Inr (BuiltS3 s))
      | None \<Rightarrow>
          (case arch_Local conf of
             Some l \<Rightarrow>
               (case NewLocalSink [] (mkdir (cl_Dir l)) fs of
                  Inl err \<Rightarrow> Inl err | Inr s \<Rightarrow> Inr (BuiltLocal (cl_Dir l) s))
           | None \<Rightarrow> Inl (Err ''no archive destination configured'')))"

section \<open>What is built\<close>

lemma WithDefaults_fields [simp]:
  "rcc_Host (WithDefaults c) = rcc_Host c" "rcc_DbNumber (WithDefaults c) = rcc_DbNumber c"
  "rcc_Username (WithDefaults c) = rcc_Username c" "rcc_Password (WithDefaults c) = rcc_Password c"
  "rcc_Mode (WithDefaults c) = rcc_Mode c" "rcc_TLS (WithDefaults c) = rcc_TLS c"
  "rcc_IAMAuth (WithDefaults c) = rcc_IAMAuth c" "rcc_ExpireDays (WithDefaults c) = rcc_ExpireDays c"
  by (simp_all add: WithDefaults_def Let_def)

lemma WithDefaults_set [simp]:
  "rcc_Port (WithDefaults c) = (if rcc_Port c = 0 then 6379 else rcc_Port c)"
  "rcc_DialTimeout (WithDefaults c) = (if rcc_DialTimeout c = 0 then 5 * second else rcc_DialTimeout c)"
  "rcc_ReadTimeout (WithDefaults c) = (if rcc_ReadTimeout c = 0 then 3 * second else rcc_ReadTimeout c)"
  "rcc_WriteTimeout (WithDefaults c) = (if rcc_WriteTimeout c = 0 then 3 * second else rcc_WriteTimeout c)"
  "rcc_MaxRetries (WithDefaults c) = (if rcc_MaxRetries c = 0 then 3 else rcc_MaxRetries c)"
  by (simp_all add: WithDefaults_def Let_def)

lemma buildTLSConfig_Inr:
  assumes "buildTLSConfig E conf host = Inr tls"
  shows "case tls of None \<Rightarrow> \<not> rtls_Enabled conf
    | Some t \<Rightarrow> rtls_Enabled conf \<and> tc_MinVersion t = ''TLS 1.2''
        \<and> tc_InsecureSkipVerify t = rtls_InsecureSkipVerify conf
        \<and> tc_ServerName t = (if rtls_ServerName conf = [] then host else rtls_ServerName conf)
        \<and> (rtls_CAFile conf \<noteq> [] \<longrightarrow> (\<exists>pem. tc_RootCAs t = Some pem \<and> re_AppendCerts E pem))"
  using assms by (auto simp: buildTLSConfig_def Let_def split: if_splits sum.splits)

lemma buildTLSConfig_total:
  "(rtls_CAFile conf \<noteq> [] \<Longrightarrow> \<exists>pem. re_readFile E (rtls_CAFile conf) = Inr pem \<and> re_AppendCerts E pem) \<Longrightarrow>
     \<exists>tls. buildTLSConfig E conf host = Inr tls \<and> (tls = None \<longleftrightarrow> \<not> rtls_Enabled conf)"
  by (auto simp: buildTLSConfig_def Let_def)

lemma newIAMTokenProvider_Inr:
  "newIAMTokenProvider E conf = Inr p \<Longrightarrow> ip_token p = [] \<and> ria_Region (ip_conf p) \<noteq> []
     \<and> ria_UserId (ip_conf p) = ria_UserId conf \<and> ria_CacheName (ip_conf p) = ria_CacheName conf
     \<and> ria_UserId conf \<noteq> [] \<and> ria_CacheName conf \<noteq> []"
  by (auto simp: newIAMTokenProvider_def Let_def split: if_splits sum.splits)

text \<open>
  C31: the Redis client is built safely. The connection is encrypted exactly when the configuration
  says so, the server's name is then checked unless checking was switched off; with IAM
  authentication the connection is encrypted, no static password is left in the options, and tokens
  have a region; a cluster client uses database 0; no timeout is left at zero.
\<close>

theorem redis_client_safe:
  assumes "NewClient E conf = Inr o1"
  shows "(uo_TLSConfig o1 \<noteq> None \<longleftrightarrow> rtls_Enabled (rcc_TLS conf))
    \<and> (case uo_TLSConfig o1 of None \<Rightarrow> True
       | Some t \<Rightarrow> tc_ServerName t \<noteq> [] \<and> tc_InsecureSkipVerify t = rtls_InsecureSkipVerify (rcc_TLS conf))
    \<and> (case uo_Credentials o1 of None \<Rightarrow> \<not> ria_Enabled (rcc_IAMAuth conf)
       | Some p \<Rightarrow> uo_TLSConfig o1 \<noteq> None \<and> uo_Username o1 = [] \<and> uo_Password o1 = []
           \<and> ria_Region (ip_conf p) \<noteq> [])
    \<and> (uo_IsClusterMode o1 \<longrightarrow> uo_DB o1 = 0)
    \<and> uo_DialTimeout o1 \<noteq> 0 \<and> uo_ReadTimeout o1 \<noteq> 0 \<and> uo_WriteTimeout o1 \<noteq> 0"
proof -
  let ?c = "WithDefaults conf"
  have host: "rcc_Host conf \<noteq> []" using assms by (auto simp: NewClient_def)
  obtain tls opts where T: "buildTLSConfig E (rcc_TLS conf) (rcc_Host conf) = Inr tls"
    and M: "set_mode ?c (base_options ?c tls) = Inr opts" and I: "set_iam E ?c tls opts = Inr o1"
    using assms host by (auto simp: NewClient_def Let_def split: sum.splits)
  note tls = buildTLSConfig_Inr [OF T]
  have opts: "uo_TLSConfig opts = tls" "uo_IsClusterMode opts \<longrightarrow> uo_DB opts = 0" "uo_Credentials opts = None"
    "uo_DialTimeout opts \<noteq> 0" "uo_ReadTimeout opts \<noteq> 0" "uo_WriteTimeout opts \<noteq> 0"
    using M by (auto simp: set_mode_def base_options_def Let_def second_def split: if_splits)
  then have o1: "uo_TLSConfig o1 = tls" "uo_IsClusterMode o1 \<longrightarrow> uo_DB o1 = 0"
    "uo_DialTimeout o1 \<noteq> 0" "uo_ReadTimeout o1 \<noteq> 0" "uo_WriteTimeout o1 \<noteq> 0"
    "case uo_Credentials o1 of None \<Rightarrow> \<not> ria_Enabled (rcc_IAMAuth conf)
     | Some p \<Rightarrow> tls \<noteq> None \<and> uo_Username o1 = [] \<and> uo_Password o1 = [] \<and> ria_Region (ip_conf p) \<noteq> []"
    using I by (auto simp: set_iam_def dest!: newIAMTokenProvider_Inr split: sum.splits if_splits)
  show ?thesis using tls o1 host by (auto split: option.splits if_splits)
qed


section \<open>The life of a token\<close>

text \<open>A sequence of calls, with their results.\<close>

fun run_calls ::
  "'cr redis_env \<Rightarrow> call_times list \<Rightarrow> iamTokenProvider \<Rightarrow> (call_times \<times> (string \<times> string) result) list" where
  "run_calls E [] p = []"
| "run_calls E (t # ts) p = (case credentials E t p of (r, p') \<Rightarrow> (t, r) # run_calls E ts p')"

text \<open>Signing takes at most \<open>D\<close>.\<close>

definition timely :: "duration \<Rightarrow> call_times \<Rightarrow> bool" where
  "timely D t \<longleftrightarrow> ct_now t \<le> ct_signing t \<and> ct_signing t \<le> ct_stored t \<and> ct_stored t \<le> ct_signing t + D"

definition token_ok :: "'cr redis_env \<Rightarrow> duration \<Rightarrow> IAMAuthConfig \<Rightarrow> iamTokenProvider \<Rightarrow> bool" where
  "token_ok E D conf p \<longleftrightarrow> ip_conf p = conf
     \<and> (ip_token p \<noteq> [] \<longrightarrow> (\<exists>cr s. GenerateIAMAuthToken E conf cr s = Inr (ip_token p) \<and> ip_at p \<le> s + D))"

lemma credentials_ok:
  assumes "token_ok E D conf p" "timely D t" "0 \<le> D" "credentials E t p = (r, p')"
  shows "token_ok E D conf p' \<and> (\<forall>user tok. r = Inr (user, tok) \<longrightarrow> user = ria_UserId conf
    \<and> (\<exists>cr s. GenerateIAMAuthToken E conf cr s = Inr tok \<and> ct_now t < s + iamTokenRefresh + D))"
proof (cases "ip_token p \<noteq> [] \<and> ct_now t - ip_at p < iamTokenRefresh")
  case True
  then obtain cr s where "GenerateIAMAuthToken E conf cr s = Inr (ip_token p)" "ip_at p \<le> s + D"
    using assms(1) by (auto simp: token_ok_def)
  moreover have "r = Inr (ria_UserId conf, ip_token p)" "p' = p"
    using True assms(1,4) by (auto simp: credentials_def token_ok_def)
  moreover have "ct_now t < s + iamTokenRefresh + D" using True calculation(2) by linarith
  ultimately show ?thesis using assms(1) by auto
next
  case False
  show ?thesis
  proof (cases r)
    case (Inl err)
    then have "ip_conf p' = ip_conf p" "ip_token p' = ip_token p" "ip_at p' = ip_at p"
      using False assms(4) by (auto simp: credentials_def Let_def split: sum.splits if_splits)
    with Inl assms(1) show ?thesis by (simp add: token_ok_def)
  next
    case (Inr ut)
    obtain cr where cr: "GenerateIAMAuthToken E conf cr (ct_signing t) = Inr (snd ut)" "fst ut = ria_UserId conf"
      "ip_token p' = snd ut" "ip_at p' = ct_stored t" "ip_conf p' = conf"
      using False assms(1,4) Inr by (auto simp: credentials_def Let_def token_ok_def split: sum.splits if_splits)
    have "ct_now t < ct_signing t + iamTokenRefresh + D" "ct_stored t \<le> ct_signing t + D"
      using assms(2,3) by (simp_all add: timely_def iamTokenRefresh_def minute_def second_def)
    moreover have "token_ok E D conf p'" using cr calculation(2) unfolding token_ok_def by auto
    moreover have "r = Inr (ria_UserId conf, snd ut)" using Inr cr(2) by (simp add: prod_eq_iff)
    ultimately show ?thesis using cr(1) by blast
  qed
qed

text \<open>
  C33: Redis is never given a stale token. Whatever the sequence of calls, each returned token was
  signed less than ten minutes and one signing time before the call, so with five minutes for signing
  it is within its fifteen minutes of validity, although it is cached.
\<close>

theorem iam_token_fresh:
  assumes "newIAMTokenProvider E conf = Inr p" and "\<forall>t \<in> set ts. timely (5 * minute) t"
    and "(t, Inr (user, tok)) \<in> set (run_calls E ts p)"
  shows "user = ria_UserId conf
    \<and> (\<exists>cr s. GenerateIAMAuthToken E (ip_conf p) cr s = Inr tok \<and> ct_now t < s + iamTokenTTL)"
proof -
  have "token_ok E (5 * minute) (ip_conf p) p"
    using newIAMTokenProvider_Inr [OF assms(1)] by (simp add: token_ok_def)
  moreover have "token_ok E (5 * minute) (ip_conf p) q \<Longrightarrow> (t, Inr (user, tok)) \<in> set (run_calls E ts q) \<Longrightarrow>
      user = ria_UserId (ip_conf p) \<and> (\<exists>cr s. GenerateIAMAuthToken E (ip_conf p) cr s = Inr tok
        \<and> ct_now t < s + iamTokenRefresh + 5 * minute)" for q
    using assms(2)
  proof (induction ts arbitrary: q)
    case (Cons x ts)
    obtain r q' where C: "credentials E x q = (r, q')" by fastforce
    have "0 \<le> 5 * minute" "timely (5 * minute) x" using Cons.prems(3) by (simp_all add: minute_def second_def)
    from credentials_ok [OF Cons.prems(1) this(2,1) C] show ?case
      using Cons.IH [of q'] Cons.prems(2,3) C by auto
  qed simp
  ultimately show ?thesis
    using assms(3) newIAMTokenProvider_Inr [OF assms(1)]
    by (auto simp: iamTokenTTL_def iamTokenRefresh_def add.commute)
qed

section \<open>A concrete client\<close>

definition wit_redis_env :: "unit redis_env" where
  "wit_redis_env = \<lparr>re_readFile = (\<lambda>f. Inr ''pem''), re_AppendCerts = (\<lambda>s. True), re_awsRegion = Inr ''r'',
     re_Retrieve = (\<lambda>n. Inr ()), re_newRequest = (\<lambda>u. None), re_presign = (\<lambda>u rg cr t. Inr ''http://tok'')\<rparr>"

definition wit_iam :: IAMAuthConfig where
  "wit_iam = \<lparr>ria_Enabled = True, ria_CacheName = ''c'', ria_UserId = ''u'', ria_Region = [], ria_Serverless = True\<rparr>"

definition wit_client_conf :: RedisClientConfig where
  "wit_client_conf = \<lparr>rcc_Host = ''h'', rcc_Port = 0, rcc_DbNumber = 0, rcc_Username = ''x'', rcc_Password = ''secret'',
     rcc_ExpireDays = 0, rcc_Mode = ''cluster'',
     rcc_TLS = \<lparr>rtls_Enabled = True, rtls_InsecureSkipVerify = False, rtls_CAFile = ''f'', rtls_ServerName = []\<rparr>,
     rcc_IAMAuth = wit_iam, rcc_DialTimeout = 0, rcc_ReadTimeout = 0, rcc_WriteTimeout = 0, rcc_MaxRetries = 0\<rparr>"

lemma redis_client_safe_witness:
  "\<exists>client. NewClient wit_redis_env wit_client_conf = Inr client \<and> uo_Password client = [] \<and> uo_DB client = 0"
proof -
  have "\<exists>client. NewClient wit_redis_env wit_client_conf = Inr client \<and> uo_Credentials client \<noteq> None
      \<and> uo_IsClusterMode client"
    by (simp add: NewClient_def set_mode_def set_iam_def base_options_def buildTLSConfig_def newIAMTokenProvider_def
        wit_client_conf_def wit_redis_env_def wit_iam_def ToLower_def lower_char_def Let_def)
  then obtain client where C: "NewClient wit_redis_env wit_client_conf = Inr client" "uo_Credentials client \<noteq> None"
    "uo_IsClusterMode client" by blast
  from redis_client_safe [OF C(1)] C show ?thesis by (auto split: option.splits)
qed


lemma iam_token_fresh_witness:
  "\<exists>p cr s. newIAMTokenProvider wit_redis_env wit_iam = Inr p
    \<and> map snd (run_calls wit_redis_env [\<lparr>ct_now = 0, ct_signing = 1, ct_stored = 2\<rparr>, \<lparr>ct_now = 9, ct_signing = 9, ct_stored = 9\<rparr>] p)
      = [Inr (''u'', ''tok''), Inr (''u'', ''tok'')]
    \<and> GenerateIAMAuthToken wit_redis_env (ip_conf p) cr s = Inr ''tok'' \<and> 9 < s + iamTokenTTL"
proof -
  let ?a = "\<lparr>ct_now = 0, ct_signing = 1, ct_stored = 2\<rparr>" and ?b = "\<lparr>ct_now = 9, ct_signing = 9, ct_stored = 9\<rparr>"
  obtain p where p: "newIAMTokenProvider wit_redis_env wit_iam = Inr p"
    "p = \<lparr>ip_conf = wit_iam\<lparr>ria_Region := ''r''\<rparr>, ip_token = [], ip_at = zero_time, ip_calls = 0\<rparr>"
    by (simp add: newIAMTokenProvider_def wit_iam_def wit_redis_env_def)
  have run: "run_calls wit_redis_env [?a, ?b] p = [(?a, Inr (''u'', ''tok'')), (?b, Inr (''u'', ''tok''))]"
    by (simp add: p(2) credentials_def GenerateIAMAuthToken_def wit_redis_env_def wit_iam_def TrimPrefix_def HasPrefix_def
        iamTokenRefresh_def minute_def second_def)
  have "\<forall>t \<in> set [?a, ?b]. timely (5 * minute) t" by (simp add: timely_def minute_def second_def)
  moreover have "(?b, Inr (''u'', ''tok'')) \<in> set (run_calls wit_redis_env [?a, ?b] p)" unfolding run by simp
  ultimately obtain s where "GenerateIAMAuthToken wit_redis_env (ip_conf p) () s = Inr ''tok''" "9 < s + iamTokenTTL"
    using iam_token_fresh [OF p(1)] by (metis (full_types) call_times.select_convs(1) old.unit.exhaust)
  moreover have "map snd (run_calls wit_redis_env [?a, ?b] p) = [Inr (''u'', ''tok''), Inr (''u'', ''tok'')]"
    unfolding run by simp
  ultimately show ?thesis using p(1) by (intro exI [of _ p] exI [of _ "()"] exI [of _ s]) simp
qed

end
