(* ===== verification/Stream_Fanout.thy ===== *)
theory Stream_Fanout
  imports Subscriber_Faults Redis_Client PubSub_Client
begin

text \<open>
  \<^verbatim>\<open>stream/service.go\<close>: the stream collector runs one subscriber for each topic. The goroutines are
  steps of one transition system over the state they share: the context, the first error, the number
  of active topics and the readiness flag. A subscriber's end is what \<^verbatim>\<open>Run\<close> of \<open>Subscriber\<close> returns.
\<close>

section \<open>Options\<close>

definition OptionsFromConfig :: "Config \<Rightarrow> EventStreamConfig \<Rightarrow> string \<Rightarrow> SubscriberOptions" where
  "OptionsFromConfig conf es topic =
     \<lparr>so_Topic = topic, so_Instance = es_Name es, so_OrgId = conf_OrgId conf, so_Env = conf_Env conf,
      so_Appetite = es_Appetite es, so_MaxEvents = batch_MaxEvents (es_Batch es),
      so_MaxAge = Seconds (batch_MaxAgeSeconds (es_Batch es)), so_InitialReplay = es_InitialReplay es,
      so_LeaseTTL = Seconds (es_LeaseTTLSeconds es), so_WriteAttempts = 0,
      so_ShutdownFlushTimeout = Seconds (es_ShutdownFlushTimeoutSeconds es),
      so_MaxBackoff = 0, so_RetryDelay = 0\<rparr>"

definition DefaultClientFactory ::
  "EventStreamConfig \<Rightarrow> (string \<Rightarrow> bool \<Rightarrow> goerror option) \<Rightarrow> PubSubClient result" where
  "DefaultClientFactory es connErr =
     NewGRPCClient \<lparr>go_Endpoint = es_PubSubEndpoint es, go_Insecure = es_PubSubInsecure es, go_Auth = es_Auth es\<rparr>
       connErr"

text \<open>
  What the subscriber of a topic may return: a result of \<^verbatim>\<open>Run\<close> under some context that is done only
  if the service's context is cancelled.
\<close>

definition topic_outcome ::
  "(string \<Rightarrow> ('s, 'l) env) \<Rightarrow> Config \<Rightarrow> EventStreamConfig \<Rightarrow> string \<Rightarrow> bool \<Rightarrow> goerror option \<Rightarrow> bool" where
  "topic_outcome E conf es topic cancelled r \<longleftrightarrow>
     (\<exists>c n sink lease now st'.
        Run (E topic) (SubscriberOptions_defaults (OptionsFromConfig conf es topic)) c n
            (NewSubscriber sink lease now) = Ret r st'
        \<and> (ctx_done c (su_now st') \<longrightarrow> cancelled))"

section \<open>The service\<close>

datatype topic_state = Idle | Running | Active | Returned "goerror option"

text \<open>
  \<open>sv_metric i\<close> is the call of \<^verbatim>\<open>metrics.SetReady\<close> that topic \<open>i\<close> still has to make: counting and
  reporting are two steps. \<open>sv_parent\<close> is whether the caller's context is done.
\<close>

record service =
  sv_started :: nat
  sv_topics :: "nat \<Rightarrow> topic_state"
  sv_parent :: bool
  sv_cancelled :: bool
  sv_firstErr :: "goerror option"
  sv_createErr :: "goerror option"
  sv_active :: int
  sv_metric :: "nat \<Rightarrow> bool option"
  sv_ready :: bool
  sv_result :: "goerror option option"

definition start_service :: service where
  "start_service = \<lparr>sv_started = 0, sv_topics = (\<lambda>i. Idle), sv_parent = False, sv_cancelled = False,
     sv_firstErr = None, sv_createErr = None, sv_active = 0, sv_metric = (\<lambda>i. None), sv_ready = False,
     sv_result = None\<rparr>"

definition set_topic :: "nat \<Rightarrow> topic_state \<Rightarrow> service \<Rightarrow> service" where
  "set_topic i x s = s\<lparr>sv_topics := (sv_topics s)(i := x)\<rparr>"

text \<open>\<^verbatim>\<open>sub.OnActive\<close>: the counter, and the value to report.\<close>

definition on_active :: "nat \<Rightarrow> nat \<Rightarrow> bool \<Rightarrow> service \<Rightarrow> service" where
  "on_active topics i on s =
     (let n = sv_active s + (if on then 1 else - 1)
      in s\<lparr>sv_active := n, sv_metric := (sv_metric s)(i \<mapsto> on \<and> n = int topics)\<rparr>)"

text \<open>The end of a topic's goroutine: the first error is kept and cancels the context.\<close>

definition topic_done :: "string \<Rightarrow> nat \<Rightarrow> goerror option \<Rightarrow> service \<Rightarrow> service" where
  "topic_done topic i r s =
     (let s1 = set_topic i (Returned r) s in
      case r of
        None \<Rightarrow> s1
      | Some err \<Rightarrow>
          if sv_firstErr s = None
          then s1\<lparr>sv_firstErr := Some (Wrap (''topic '' @ topic) err), sv_cancelled := True\<rparr>
          else s1)"

text \<open>All the goroutines that were started have ended, and no more will be.\<close>

definition all_done :: "string list \<Rightarrow> service \<Rightarrow> bool" where
  "all_done topics s \<longleftrightarrow> (sv_started s = length topics \<or> sv_createErr s \<noteq> None)
     \<and> list_all (\<lambda>i. case sv_topics s i of Returned _ \<Rightarrow> True | _ \<Rightarrow> False) [0..<sv_started s]"

inductive svc_step ::
  "string list \<Rightarrow> (string \<Rightarrow> goerror option) \<Rightarrow> (string \<Rightarrow> bool \<Rightarrow> goerror option \<Rightarrow> bool) \<Rightarrow> service \<Rightarrow> service \<Rightarrow> bool"
  for topics newClient outcome where
  start: "\<lbrakk>sv_started s = k; k < length topics; sv_createErr s = None; newClient (topics ! k) = None\<rbrakk> \<Longrightarrow>
    svc_step topics newClient outcome s ((set_topic k Running s)\<lparr>sv_started := k + 1\<rparr>)"
| create_fails: "\<lbrakk>sv_started s = k; k < length topics; sv_createErr s = None; newClient (topics ! k) = Some err\<rbrakk> \<Longrightarrow>
    svc_step topics newClient outcome s
      (s\<lparr>sv_createErr := Some (Wrap (''creating Pub/Sub client for '' @ topics ! k) err), sv_cancelled := True\<rparr>)"
| activate: "\<lbrakk>sv_topics s i = Running; sv_metric s i = None\<rbrakk> \<Longrightarrow>
    svc_step topics newClient outcome s (on_active (length topics) i True (set_topic i Active s))"
| deactivate: "\<lbrakk>sv_topics s i = Active; sv_metric s i = None\<rbrakk> \<Longrightarrow>
    svc_step topics newClient outcome s (on_active (length topics) i False (set_topic i Running s))"
| report: "sv_metric s i = Some b \<Longrightarrow>
    svc_step topics newClient outcome s (s\<lparr>sv_ready := b, sv_metric := (sv_metric s)(i := None)\<rparr>)"
| returns: "\<lbrakk>sv_topics s i = Running; sv_metric s i = None; outcome (topics ! i) (sv_cancelled s) r\<rbrakk> \<Longrightarrow>
    svc_step topics newClient outcome s (topic_done (topics ! i) i r s)"
| parent: "svc_step topics newClient outcome s (s\<lparr>sv_parent := True, sv_cancelled := True\<rparr>)"
| finish: "\<lbrakk>all_done topics s; sv_result s = None\<rbrakk> \<Longrightarrow>
    svc_step topics newClient outcome s
      (case sv_createErr s of
         Some err \<Rightarrow> s\<lparr>sv_result := Some (Some err)\<rparr>
       | None \<Rightarrow> s\<lparr>sv_ready := False, sv_result := Some (sv_firstErr s)\<rparr>)"

text \<open>The states of \<^verbatim>\<open>RunService\<close>.\<close>

inductive RunService ::
  "string list \<Rightarrow> (string \<Rightarrow> goerror option) \<Rightarrow> (string \<Rightarrow> bool \<Rightarrow> goerror option \<Rightarrow> bool) \<Rightarrow> service \<Rightarrow> bool"
  for topics newClient outcome where
  init: "RunService topics newClient outcome start_service"
| step: "RunService topics newClient outcome s \<Longrightarrow> svc_step topics newClient outcome s s'
    \<Longrightarrow> RunService topics newClient outcome s'"

section \<open>Invariant\<close>

definition active_topics :: "service \<Rightarrow> nat set" where
  "active_topics s = {i. i < sv_started s \<and> sv_topics s i = Active}"

definition svc_inv :: "string list \<Rightarrow> service \<Rightarrow> bool" where
  "svc_inv topics s \<longleftrightarrow>
     sv_started s \<le> length topics \<and> (\<forall>i. sv_topics s i = Idle \<longleftrightarrow> sv_started s \<le> i)
     \<and> sv_active s = int (card (active_topics s))
     \<and> (\<forall>i err. sv_topics s i = Returned (Some err) \<longrightarrow> sv_firstErr s \<noteq> None \<and> IsFatal err)
     \<and> (\<forall>e. sv_firstErr s = Some e \<longrightarrow> sv_cancelled s
          \<and> (\<exists>i err. e = Wrap (''topic '' @ topics ! i) err \<and> sv_topics s i = Returned (Some err)))
     \<and> (\<forall>i. sv_topics s i = Returned None \<longrightarrow> sv_cancelled s)
     \<and> (sv_cancelled s \<longrightarrow> sv_parent s \<or> sv_firstErr s \<noteq> None \<or> sv_createErr s \<noteq> None)
     \<and> (\<forall>e. sv_createErr s = Some e \<longrightarrow> sv_cancelled s
          \<and> (\<exists>k err. k = sv_started s \<and> k < length topics \<and> e = Wrap (''creating Pub/Sub client for '' @ topics ! k) err))
     \<and> (\<forall>r. sv_result s = Some r \<longrightarrow> all_done topics s
          \<and> r = (case sv_createErr s of Some e \<Rightarrow> Some e | None \<Rightarrow> sv_firstErr s))"

lemma topic_outcome_ends:
  "topic_outcome E conf es topic cancelled r \<Longrightarrow> r = None \<and> cancelled \<or> (\<exists>err. r = Some err \<and> IsFatal err)"
  unfolding topic_outcome_def
proof (elim exE conjE)
  fix c n sink lease now st'
  assume R: "Run (E topic) (SubscriberOptions_defaults (OptionsFromConfig conf es topic)) c n
      (NewSubscriber sink lease now) = Ret r st'" and "ctx_done c (su_now st') \<longrightarrow> cancelled"
  then show ?thesis
    using Run_ends_well [of c "E topic" "SubscriberOptions_defaults (OptionsFromConfig conf es topic)" n
        "NewSubscriber sink lease now"]
    by (auto simp: ends_well_def IsFatal_opt_def split: option.splits)
qed

lemma svc_inv_start: "svc_inv topics start_service"
  by (simp add: svc_inv_def start_service_def active_topics_def)

text \<open>The facts of the invariant that a step which touches one topic's state uses.\<close>

lemma active_topics_set:
  assumes "i < sv_started s"
  shows "active_topics (set_topic i x s) =
    (if x = Active then insert i (active_topics s) else active_topics s - {i})"
  using assms by (auto simp: active_topics_def set_topic_def)

lemma finite_active [simp]: "finite (active_topics s)"
  by (simp add: active_topics_def)

lemma card_active_set:
  assumes "i < sv_started s"
  shows "int (card (active_topics (set_topic i x s))) = int (card (active_topics s))
    + (if x = Active then 1 else 0) - (if sv_topics s i = Active then 1 else 0)"
proof -
  have "i \<in> active_topics s \<longleftrightarrow> sv_topics s i = Active" using assms by (simp add: active_topics_def)
  moreover have "0 < card (active_topics s)" if "i \<in> active_topics s"
    using that by (auto simp: card_gt_0_iff)
  ultimately show ?thesis
    by (auto simp: active_topics_set [OF assms] card_insert_if card_Diff_singleton)
qed

text \<open>Nothing has been returned yet while a topic is still running.\<close>

lemma all_done_not:
  assumes "all_done topics s" "i < sv_started s"
  shows "\<exists>r. sv_topics s i = Returned r"
proof -
  have "case sv_topics s i of Returned _ \<Rightarrow> True | _ \<Rightarrow> False"
    using assms by (simp add: all_done_def list_all_iff)
  then show ?thesis by (cases "sv_topics s i") simp_all
qed

lemma running_no_result:
  assumes "svc_inv topics s" "sv_topics s i = Running \<or> sv_topics s i = Active"
  shows "i < sv_started s" "sv_result s = None"
proof -
  show i: "i < sv_started s" using assms unfolding svc_inv_def by (metis not_le topic_state.distinct(1,3))
  show "sv_result s = None"
  proof (rule ccontr)
    assume "sv_result s \<noteq> None"
    then have "all_done topics s" using assms(1) unfolding svc_inv_def by blast
    from all_done_not [OF this i] assms(2) show False by auto
  qed
qed

lemma svc_inv_parts:
  assumes "svc_inv topics s"
  shows "sv_started s \<le> length topics" "sv_topics s i = Idle \<longleftrightarrow> sv_started s \<le> i"
    "sv_active s = int (card (active_topics s))"
    "sv_topics s i = Returned (Some err) \<Longrightarrow> sv_firstErr s \<noteq> None \<and> IsFatal err"
    "sv_firstErr s = Some e \<Longrightarrow> sv_cancelled s
       \<and> (\<exists>i err. e = Wrap (''topic '' @ topics ! i) err \<and> sv_topics s i = Returned (Some err))"
    "sv_topics s i = Returned None \<Longrightarrow> sv_cancelled s"
    "sv_cancelled s \<Longrightarrow> sv_parent s \<or> sv_firstErr s \<noteq> None \<or> sv_createErr s \<noteq> None"
    "sv_createErr s = Some e \<Longrightarrow> sv_cancelled s
       \<and> (\<exists>k err. k = sv_started s \<and> k < length topics \<and> e = Wrap (''creating Pub/Sub client for '' @ topics ! k) err)"
    "sv_result s = Some res \<Longrightarrow> all_done topics s
       \<and> res = (case sv_createErr s of Some e \<Rightarrow> Some e | None \<Rightarrow> sv_firstErr s)"
  using assms unfolding svc_inv_def by blast+

lemma svc_invI:
  assumes "sv_started s \<le> length topics" "\<And>i. sv_topics s i = Idle \<longleftrightarrow> sv_started s \<le> i"
    "sv_active s = int (card (active_topics s))"
    "\<And>i err. sv_topics s i = Returned (Some err) \<Longrightarrow> sv_firstErr s \<noteq> None \<and> IsFatal err"
    "\<And>e. sv_firstErr s = Some e \<Longrightarrow> sv_cancelled s
       \<and> (\<exists>i err. e = Wrap (''topic '' @ topics ! i) err \<and> sv_topics s i = Returned (Some err))"
    "\<And>i. sv_topics s i = Returned None \<Longrightarrow> sv_cancelled s"
    "sv_cancelled s \<Longrightarrow> sv_parent s \<or> sv_firstErr s \<noteq> None \<or> sv_createErr s \<noteq> None"
    "\<And>e. sv_createErr s = Some e \<Longrightarrow> sv_cancelled s
       \<and> (\<exists>k err. k = sv_started s \<and> k < length topics \<and> e = Wrap (''creating Pub/Sub client for '' @ topics ! k) err)"
    "\<And>res. sv_result s = Some res \<Longrightarrow> all_done topics s
       \<and> res = (case sv_createErr s of Some e \<Rightarrow> Some e | None \<Rightarrow> sv_firstErr s)"
  shows "svc_inv topics s"
  using assms unfolding svc_inv_def by blast

text \<open>Changing one topic's state from a running one to a running one touches nothing else.\<close>

lemma svc_inv_same_errors:
  assumes "svc_inv topics s" "sv_result s = None" "sv_started s' \<le> length topics"
    "\<And>i. sv_topics s' i = Idle \<longleftrightarrow> sv_started s' \<le> i"
    "sv_active s' = int (card (active_topics s'))"
    "\<And>i r. sv_topics s' i = Returned r \<longleftrightarrow> sv_topics s i = Returned r"
    "sv_firstErr s' = sv_firstErr s" "sv_cancelled s' = sv_cancelled s" "sv_parent s' = sv_parent s"
    "sv_createErr s' = sv_createErr s" "sv_createErr s = None \<or> sv_started s' = sv_started s"
    "sv_result s' = None"
  shows "svc_inv topics s'"
proof (rule svc_invI)
  note inv = svc_inv_parts [OF assms(1)] and same = assms(6-12)
  show "sv_topics s' i = Returned (Some err) \<Longrightarrow> sv_firstErr s' \<noteq> None \<and> IsFatal err" for i err
    unfolding same(1,2) by (rule inv(4))
  show "sv_firstErr s' = Some e \<Longrightarrow> sv_cancelled s'
      \<and> (\<exists>i err. e = Wrap (''topic '' @ topics ! i) err \<and> sv_topics s' i = Returned (Some err))" for e
    unfolding same(1-3) by (rule inv(5))
  show "sv_topics s' i = Returned None \<Longrightarrow> sv_cancelled s'" for i
    unfolding same(1,3) by (rule inv(6))
  show "sv_createErr s' = Some e \<Longrightarrow> sv_cancelled s'
      \<and> (\<exists>k err. k = sv_started s' \<and> k < length topics \<and> e = Wrap (''creating Pub/Sub client for '' @ topics ! k) err)" for e
  proof -
    assume e: "sv_createErr s' = Some e"
    then have "sv_started s' = sv_started s" using same(5,6) by simp
    then show ?thesis using inv(8) [of e] e by (simp add: same(3,5))
  qed
  show "sv_cancelled s' \<Longrightarrow> sv_parent s' \<or> sv_firstErr s' \<noteq> None \<or> sv_createErr s' \<noteq> None"
    using inv(7) unfolding same(2-5) .
  show "sv_topics s' i = Idle \<longleftrightarrow> sv_started s' \<le> i" for i by (rule assms(4))
  show "sv_result s' = Some res \<Longrightarrow> all_done topics s'
      \<and> res = (case sv_createErr s' of Some e \<Rightarrow> Some e | None \<Rightarrow> sv_firstErr s')" for res
    unfolding same(7) by simp
qed (rule assms(3,5))+

text \<open>A topic starts, becomes active or inactive.\<close>

lemma svc_inv_switch:
  assumes "svc_inv topics s" "sv_topics s i = x" "x = Running \<and> y = Active \<or> x = Active \<and> y = Running"
  shows "svc_inv topics (on_active n i (y = Active) (set_topic i y s))"
proof -
  have i: "i < sv_started s" "sv_result s = None" using running_no_result [OF assms(1), of i] assms(2,3) by auto
  note inv = svc_inv_parts [OF assms(1)]
  let ?s = "on_active n i (y = Active) (set_topic i y s)"
  have "sv_active ?s = int (card (active_topics ?s))"
    using card_active_set [OF i(1), of y] inv(3) assms(2,3)
    by (auto simp: on_active_def Let_def active_topics_def set_topic_def)
  moreover have "sv_topics ?s = (sv_topics s)(i := y)" by (simp add: on_active_def Let_def set_topic_def)
  ultimately show ?thesis
    using i inv(1) inv(2) assms(2,3)
    by (intro svc_inv_same_errors [OF assms(1) i(2)]) (auto simp: on_active_def Let_def set_topic_def)
qed

lemma svc_inv_start_topic:
  assumes "svc_inv topics s" "sv_started s = k" "k < length topics" "sv_createErr s = None"
  shows "svc_inv topics ((set_topic k Running s)\<lparr>sv_started := k + 1\<rparr>)"
proof -
  note inv = svc_inv_parts [OF assms(1)]
  have none: "sv_result s = None"
    using inv(9) assms(2-4) by (cases "sv_result s") (auto simp: all_done_def)
  have idle: "sv_topics s k \<noteq> Returned r" "sv_topics s k \<noteq> Active" for r
    using inv(2) [of k] assms(2) by auto
  then have "active_topics ((set_topic k Running s)\<lparr>sv_started := k + 1\<rparr>) = active_topics s"
    using assms(2) by (auto simp: active_topics_def set_topic_def less_Suc_eq)
  then show ?thesis
    using none assms idle inv(2,3)
    by (intro svc_inv_same_errors [OF assms(1) none]) (auto simp: set_topic_def Suc_le_eq order.strict_iff_order)
qed

lemma svc_inv_returns:
  assumes "svc_inv topics s" "sv_topics s i = Running"
    and "r = None \<and> sv_cancelled s \<or> (\<exists>err. r = Some err \<and> IsFatal err)"
  shows "svc_inv topics (topic_done (topics ! i) i r s)"
proof (rule svc_invI)
  let ?s = "topic_done (topics ! i) i r s"
  note inv = svc_inv_parts [OF assms(1)]
  have i: "i < sv_started s" "sv_result s = None" using running_no_result [OF assms(1)] assms(2) by blast+
  have t: "sv_topics ?s = (sv_topics s)(i := Returned r)" "sv_started ?s = sv_started s" "sv_parent ?s = sv_parent s"
    "sv_createErr ?s = sv_createErr s" "sv_result ?s = sv_result s" "sv_active ?s = sv_active s"
    by (auto simp: topic_done_def set_topic_def Let_def split: option.splits)
  have f: "sv_firstErr ?s = (if sv_firstErr s = None then map_option (Wrap (''topic '' @ topics ! i)) r else sv_firstErr s)"
    "sv_cancelled ?s \<longleftrightarrow> sv_cancelled s \<or> r \<noteq> None \<and> sv_firstErr s = None"
    by (auto simp: topic_done_def set_topic_def Let_def split: option.splits)
  have "active_topics ?s = active_topics s" using assms(2) by (auto simp: active_topics_def t)
  then show "sv_active ?s = int (card (active_topics ?s))" using inv(3) by (simp add: t)
  show "sv_topics ?s j = Returned (Some err) \<Longrightarrow> sv_firstErr ?s \<noteq> None \<and> IsFatal err" for j err
    using inv(4) [of j err] assms(3) by (auto simp: t f split: if_splits)
  show "sv_firstErr ?s = Some e \<Longrightarrow> sv_cancelled ?s
      \<and> (\<exists>i err. e = Wrap (''topic '' @ topics ! i) err \<and> sv_topics ?s i = Returned (Some err))" for e
  proof (cases "sv_firstErr s")
    case None
    assume "sv_firstErr ?s = Some e"
    then show ?thesis using None by (auto simp: t f)
  next
    case (Some e')
    assume "sv_firstErr ?s = Some e"
    then obtain j err where "e = Wrap (''topic '' @ topics ! j) err" "sv_topics s j = Returned (Some err)" "sv_cancelled s"
      using Some inv(5) by (auto simp: f)
    moreover from this have "j \<noteq> i" using assms(2) by auto
    ultimately show ?thesis by (auto simp: t f)
  qed
  show "sv_topics ?s j = Returned None \<Longrightarrow> sv_cancelled ?s" for j
    using inv(6) [of j] assms(3) by (auto simp: t f split: if_splits)
  show "sv_started ?s \<le> length topics" using inv(1) by (simp add: t)
  show "sv_topics ?s j = Idle \<longleftrightarrow> sv_started ?s \<le> j" for j using inv(2) [of j] i by (auto simp: t)
  show "sv_cancelled ?s \<Longrightarrow> sv_parent ?s \<or> sv_firstErr ?s \<noteq> None \<or> sv_createErr ?s \<noteq> None"
    using inv(7) by (auto simp: t f)
  show "sv_createErr ?s = Some e \<Longrightarrow> sv_cancelled ?s
      \<and> (\<exists>k err. k = sv_started ?s \<and> k < length topics \<and> e = Wrap (''creating Pub/Sub client for '' @ topics ! k) err)" for e
    using inv(8) [of e] by (simp add: t f)
  show "sv_result ?s = Some res \<Longrightarrow> all_done topics ?s
      \<and> res = (case sv_createErr ?s of Some e \<Rightarrow> Some e | None \<Rightarrow> sv_firstErr ?s)" for res
    using i(2) by (simp add: t)
qed

lemma svc_inv_finish:
  assumes "svc_inv topics s" "all_done topics s"
  shows "svc_inv topics (case sv_createErr s of
      Some err \<Rightarrow> s\<lparr>sv_result := Some (Some err)\<rparr>
    | None \<Rightarrow> s\<lparr>sv_ready := False, sv_result := Some (sv_firstErr s)\<rparr>)" (is "svc_inv topics ?s")
proof (rule svc_invI)
  note inv = svc_inv_parts [OF assms(1)]
  have same: "sv_createErr ?s = sv_createErr s" "sv_firstErr ?s = sv_firstErr s" "sv_started ?s = sv_started s"
    "sv_topics ?s = sv_topics s" "sv_cancelled ?s = sv_cancelled s" "sv_parent ?s = sv_parent s"
    "sv_active ?s = sv_active s"
    "sv_result ?s = Some (case sv_createErr s of Some e \<Rightarrow> Some e | None \<Rightarrow> sv_firstErr s)"
    by (simp_all split: option.splits)
  have sets: "active_topics ?s = active_topics s" "all_done topics ?s = all_done topics s"
    by (simp_all add: active_topics_def all_done_def same)
  show "sv_started ?s \<le> length topics" unfolding same by (rule inv(1))
  show "sv_topics ?s i = Idle \<longleftrightarrow> sv_started ?s \<le> i" for i unfolding same by (rule inv(2))
  show "sv_active ?s = int (card (active_topics ?s))" unfolding same sets by (rule inv(3))
  show "sv_topics ?s i = Returned (Some err) \<Longrightarrow> sv_firstErr ?s \<noteq> None \<and> IsFatal err" for i err
    unfolding same by (rule inv(4))
  show "sv_firstErr ?s = Some e \<Longrightarrow> sv_cancelled ?s
      \<and> (\<exists>i err. e = Wrap (''topic '' @ topics ! i) err \<and> sv_topics ?s i = Returned (Some err))" for e
    unfolding same by (rule inv(5))
  show "sv_topics ?s i = Returned None \<Longrightarrow> sv_cancelled ?s" for i unfolding same by (rule inv(6))
  show "sv_cancelled ?s \<Longrightarrow> sv_parent ?s \<or> sv_firstErr ?s \<noteq> None \<or> sv_createErr ?s \<noteq> None"
    unfolding same by (rule inv(7))
  show "sv_createErr ?s = Some e \<Longrightarrow> sv_cancelled ?s
      \<and> (\<exists>k err. k = sv_started ?s \<and> k < length topics \<and> e = Wrap (''creating Pub/Sub client for '' @ topics ! k) err)" for e
    unfolding same by (rule inv(8))
  show "sv_result ?s = Some res \<Longrightarrow> all_done topics ?s
      \<and> res = (case sv_createErr ?s of Some e \<Rightarrow> Some e | None \<Rightarrow> sv_firstErr ?s)" for res
    unfolding same sets using assms(2) by simp
qed

lemma svc_inv_step:
  assumes "svc_step topics newClient outcome s s'" "svc_inv topics s"
    and "\<And>t cancelled r. outcome t cancelled r \<Longrightarrow> r = None \<and> cancelled \<or> (\<exists>err. r = Some err \<and> IsFatal err)"
  shows "svc_inv topics s'"
  using assms(1)
proof cases
  case (start k)
  then show ?thesis using svc_inv_start_topic [OF assms(2)] by simp
next
  case (create_fails k err)
  then have "sv_result s = None" using assms(2) by (auto simp: svc_inv_def all_done_def)
  then show ?thesis using create_fails assms(2) by (auto simp: svc_inv_def active_topics_def)
next
  case (activate i)
  then show ?thesis using svc_inv_switch [OF assms(2) _, of i Running Active] by simp
next
  case (deactivate i)
  then show ?thesis using svc_inv_switch [OF assms(2) _, of i Active Running] by simp
next
  case (report i b)
  have "active_topics s' = active_topics s" "all_done topics s' = all_done topics s"
    by (simp_all add: report active_topics_def all_done_def)
  then show ?thesis using svc_inv_parts [OF assms(2)] by (intro svc_invI) (simp_all add: report cong: option.case_cong)
next
  case (returns i r)
  show ?thesis unfolding returns(1) by (rule svc_inv_returns [OF assms(2) returns(2) assms(3) [OF returns(4)]])
next
  case parent
  have "active_topics s' = active_topics s" "all_done topics s' = all_done topics s"
    by (simp_all add: parent active_topics_def all_done_def)
  then show ?thesis using svc_inv_parts [OF assms(2)] by (intro svc_invI) (simp_all add: parent cong: option.case_cong)
next
  case finish
  show ?thesis unfolding finish(1) by (rule svc_inv_finish [OF assms(2) finish(2)])
qed

lemma svc_inv_run:
  assumes "RunService topics newClient (topic_outcome E conf es) s"
  shows "svc_inv topics s"
  using assms
proof (induction rule: RunService.induct)
  case (step s s')
  then show ?case using svc_inv_step topic_outcome_ends by blast
qed (rule svc_inv_start)

lemma svc_result_nil:
  assumes "svc_inv topics s" "sv_result s = Some None" "topics \<noteq> []"
  shows "sv_parent s \<and> sv_started s = length topics \<and> (\<forall>i < length topics. sv_topics s i = Returned None)"
proof -
  note inv = svc_inv_parts [OF assms(1)]
  have r: "all_done topics s" "None = (case sv_createErr s of Some e \<Rightarrow> Some e | None \<Rightarrow> sv_firstErr s)"
    using inv(9) [OF assms(2)] by blast+
  then have none: "sv_createErr s = None" "sv_firstErr s = None" by (auto split: option.splits)
  then have started: "sv_started s = length topics" using r(1) by (simp add: all_done_def)
  have ends: "sv_topics s i = Returned None" if i: "i < length topics" for i
  proof -
    obtain x where x: "sv_topics s i = Returned x" using all_done_not [OF r(1), of i] started i by auto
    then show ?thesis using inv(4) none(2) by (cases x) auto
  qed
  then have "sv_cancelled s" using assms(3) inv(6) [of 0] by simp
  then have "sv_parent s" using inv(7) none by blast
  then show ?thesis using started ends by blast
qed

lemma svc_result_error:
  assumes "svc_inv topics s" "sv_result s = Some (Some e)"
  shows "(\<exists>k err. k < length topics \<and> e = Wrap (''creating Pub/Sub client for '' @ topics ! k) err)
    \<or> (\<exists>i err. sv_topics s i = Returned (Some err) \<and> e = Wrap (''topic '' @ topics ! i) err \<and> IsFatal err)"
proof -
  note inv = svc_inv_parts [OF assms(1)]
  have r: "Some e = (case sv_createErr s of Some e \<Rightarrow> Some e | None \<Rightarrow> sv_firstErr s)"
    using inv(9) [OF assms(2)] by blast
  show ?thesis
  proof (cases "sv_createErr s")
    case None
    then show ?thesis using inv(4) inv(5) [of e] r by auto
  next
    case (Some e')
    then show ?thesis using inv(8) [of e'] r by auto
  qed
qed

text \<open>
  C34: what \<^verbatim>\<open>RunService\<close> returns. It returns only when every subscriber it started has ended. It returns
  nil only if the caller's context is done and every topic was started and ended without an error;
  any other result names a client that could not be created or a topic and its fatal error. As soon as
  one topic ends with an error, the context of all of them is cancelled.
\<close>

theorem service_result:
  assumes "RunService topics newClient (topic_outcome E conf es) s" and "topics \<noteq> []"
  shows "((\<exists>i err. sv_topics s i = Returned (Some err)) \<longrightarrow> sv_cancelled s)
    \<and> (case sv_result s of
         None \<Rightarrow> True
       | Some r \<Rightarrow> (\<forall>i < sv_started s. \<exists>x. sv_topics s i = Returned x)
           \<and> (case r of
                None \<Rightarrow> sv_parent s \<and> sv_started s = length topics \<and> (\<forall>i < length topics. sv_topics s i = Returned None)
              | Some e \<Rightarrow> (\<exists>k err. k < length topics \<and> e = Wrap (''creating Pub/Sub client for '' @ topics ! k) err)
                  \<or> (\<exists>i err. sv_topics s i = Returned (Some err) \<and> e = Wrap (''topic '' @ topics ! i) err \<and> IsFatal err)))"
proof -
  note inv = svc_inv_run [OF assms(1)]
  have failed: "sv_cancelled s" if "sv_topics s i = Returned (Some err)" for i err
    using svc_inv_parts(4) [OF inv that] svc_inv_parts(5) [OF inv] by blast
  show ?thesis
  proof (cases "sv_result s")
    case None
    then show ?thesis using failed by auto
  next
    case (Some r)
    note returned = all_done_not [OF conjunct1 [OF svc_inv_parts(9) [OF inv Some]]]
    show ?thesis
    proof (cases r)
      case None
      note nil = svc_result_nil [OF inv Some [unfolded None] assms(2)]
      then show ?thesis using Some None failed by auto
    next
      case e: (Some e)
      note error = svc_result_error [OF inv Some [unfolded e]]
      then show ?thesis using Some e failed returned by auto
    qed
  qed
qed

text \<open>A configuration with an invalid \<^verbatim>\<open>initialReplay\<close> ends the service with that topic's error.\<close>

lemma service_result_witness:
  "\<forall>conf es. \<exists>s e. RunService [''a''] (\<lambda>t. None)
       (topic_outcome (\<lambda>t. wit_refusing) conf (es\<lparr>es_InitialReplay := ''LATER''\<rparr>)) s
     \<and> sv_result s = Some (Some e) \<and> sv_cancelled s \<and> IsFatal_opt (Some e)"
proof (intro allI)
  fix conf es
  let ?out = "topic_outcome (\<lambda>t. wit_refusing) conf (es\<lparr>es_InitialReplay := ''LATER''\<rparr>)"
  let ?step = "svc_step [''a''] (\<lambda>t. None) ?out"
  let ?err = "fatal (Err ''invalid initialReplay'')"
  let ?s1 = "(set_topic 0 Running start_service)\<lparr>sv_started := 1\<rparr>"
  let ?s2 = "topic_done ''a'' 0 (Some ?err) ?s1"
  let ?s3 = "?s2\<lparr>sv_ready := False, sv_result := Some (sv_firstErr ?s2)\<rparr>"
  note defs = set_topic_def start_service_def topic_done_def Let_def
  have 1: "?step start_service ?s1"
    using svc_step.start [of start_service 0 "[''a'']" "\<lambda>t. None" ?out] by (simp add: defs)
  let ?opts = "SubscriberOptions_defaults (OptionsFromConfig conf (es\<lparr>es_InitialReplay := ''LATER''\<rparr>) ''a'')"
  have "ToUpper (TrimSpace ''LATER'') = ''LATER''" by code_simp
  then have replay: "so_InitialReplay ?opts = ''LATER''"
    by (simp add: SubscriberOptions_defaults_def OptionsFromConfig_def Let_def)
  have "Run wit_refusing ?opts None 0 (NewSubscriber 0 wit_view 0) = Ret (Some ?err) (NewSubscriber 0 wit_view 0)"
    unfolding Run_def replay by (simp add: ReplayEarliest_def ReplayLatest_def)
  then have "?out ''a'' False (Some ?err)"
    unfolding topic_outcome_def ctx_done_def by (intro exI conjI) auto
  then have 2: "?step ?s1 ?s2"
    using svc_step.returns [of ?s1 0 ?out "[''a'']" "Some ?err" "\<lambda>t. None"] by (simp add: defs)
  have 3: "?step ?s2 ?s3"
    using svc_step.finish [of "[''a'']" ?s2 "\<lambda>t. None" ?out] by (simp add: defs all_done_def)
  have run: "RunService [''a''] (\<lambda>t. None) ?out ?s3"
    by (rule RunService.step [OF RunService.step [OF RunService.step [OF RunService.init 1] 2] 3])
  have r: "sv_result ?s3 = Some (Some (Wrap (''topic '' @ ''a'') ?err))" "sv_topics ?s3 0 = Returned (Some ?err)"
    by (simp_all add: defs)
  have c: "sv_cancelled ?s3" using service_result [OF run] r(2) by blast
  have fatal: "IsFatal_opt (Some (Wrap (''topic '' @ ''a'') ?err))"
    by (simp add: IsFatal_opt_def IsFatal_def fatal_def chain_simps)
  show "\<exists>s e. RunService [''a''] (\<lambda>t. None) ?out s \<and> sv_result s = Some (Some e) \<and> sv_cancelled s
      \<and> IsFatal_opt (Some e)"
    by (intro exI conjI) (rule run r(1) c fatal)+
qed

section \<open>Readiness\<close>

text \<open>
  Counting the active topics and reporting readiness are two steps of a goroutine: with two topics, one
  that becomes inactive in between leaves the collector ready although one of them is not active.
\<close>

lemma readiness_can_be_stale:
  "\<exists>s. RunService [''a'', ''b''] (\<lambda>t. None) outcome s \<and> sv_ready s \<and> sv_active s = 1
     \<and> sv_metric s = (\<lambda>i. None) \<and> sv_topics s 1 = Running"
proof -
  let ?step = "svc_step [''a'', ''b''] (\<lambda>t. None) outcome"
  let ?s1 = "(set_topic 0 Running start_service)\<lparr>sv_started := 1\<rparr>"
  let ?s2 = "(set_topic 1 Running ?s1)\<lparr>sv_started := 2\<rparr>"
  let ?s3 = "on_active 2 1 True (set_topic 1 Active ?s2)"
  let ?s4 = "?s3\<lparr>sv_ready := False, sv_metric := (sv_metric ?s3)(1 := None)\<rparr>"
  let ?s5 = "on_active 2 0 True (set_topic 0 Active ?s4)"
  let ?s6 = "on_active 2 1 False (set_topic 1 Running ?s5)"
  let ?s7 = "?s6\<lparr>sv_ready := False, sv_metric := (sv_metric ?s6)(1 := None)\<rparr>"
  let ?s8 = "?s7\<lparr>sv_ready := True, sv_metric := (sv_metric ?s7)(0 := None)\<rparr>"
  note defs = set_topic_def on_active_def start_service_def Let_def
  have 1: "?step start_service ?s1"
    using svc_step.start [of start_service 0 "[''a'', ''b'']" "\<lambda>t. None" outcome] by (simp add: defs)
  have 2: "?step ?s1 ?s2"
    using svc_step.start [of ?s1 1 "[''a'', ''b'']" "\<lambda>t. None" outcome] by (simp add: defs numeral_2_eq_2)
  have 3: "?step ?s2 ?s3"
    using svc_step.activate [of ?s2 1 "[''a'', ''b'']" "\<lambda>t. None" outcome] by (simp add: defs numeral_2_eq_2)
  have 4: "?step ?s3 ?s4" by (rule svc_step.report) (simp add: defs)
  have 5: "?step ?s4 ?s5"
    using svc_step.activate [of ?s4 0 "[''a'', ''b'']" "\<lambda>t. None" outcome] by (simp add: defs numeral_2_eq_2)
  have 6: "?step ?s5 ?s6"
    using svc_step.deactivate [of ?s5 1 "[''a'', ''b'']" "\<lambda>t. None" outcome] by (simp add: defs numeral_2_eq_2)
  have 7: "?step ?s6 ?s7" by (rule svc_step.report) (simp add: defs)
  have 8: "?step ?s7 ?s8" by (rule svc_step.report) (simp add: defs)
  note RunService.step [OF RunService.step [OF RunService.step [OF RunService.step [OF RunService.init 1] 2] 3] 4]
  note RunService.step [OF RunService.step [OF RunService.step [OF RunService.step [OF this 5] 6] 7] 8]
  then show ?thesis by (intro exI [of _ ?s8]) (simp add: defs fun_eq_iff)
qed

end
