(* ===== verification/Commands.thy ===== *)
theory Commands
  imports Stream_Fanout EventLog_Service Csv_Quoted
begin

text \<open>
  The collectors' programs, \<^verbatim>\<open>cmd/sf-archive-stream\<close> and \<^verbatim>\<open>cmd/sf-archive-eventlog\<close>: the order of their
  start-up checks, their exit codes, the operator's reset of replay checkpoints and the polling loop.
  Flag parsing, signals, log lines and the file readers of the configuration library are parameters.
\<close>

section \<open>Resetting checkpoints\<close>

fun resolve_loop :: "string list \<Rightarrow> string list \<Rightarrow> string list \<times> string list \<Rightarrow> string list \<times> string list" where
  "resolve_loop configured [] acc = acc"
| "resolve_loop configured (t # ts) (topics, unknown) =
     (let t' = TrimSpace t in
      if t' = [] then resolve_loop configured ts (topics, unknown)
      else if t' \<notin> set configured then resolve_loop configured ts (topics, unknown @ [t'])
      else resolve_loop configured ts (topics @ [t'], unknown))"

definition resolveResetTopics :: "string list \<Rightarrow> string \<Rightarrow> string list result" where
  "resolveResetTopics configured arg =
     (if TrimSpace arg = ''all'' then Inr configured
      else case resolve_loop configured (Split arg (CHR '','')) ([], []) of
        (topics, unknown) \<Rightarrow>
          if unknown \<noteq> [] then Inl (Err ''unknown topic(s)'')
          else if topics = [] then Inl (Err ''no topics given to -reset-checkpoints'')
          else Inr topics)"

text \<open>
  Other processes act on the server while the command runs. \<open>rs_polls i\<close> are the attempts of the i-th
  \<^verbatim>\<open>Acquire\<close>: how much later than possible each is made, the outcome of the call, and what happens on the
  server before it. \<open>rs_before n\<close> is what happens before the n-th of the other calls, which is made at
  \<open>rs_time n\<close>.
\<close>

type_synonym polls = "(duration \<times> net \<times> (redis \<Rightarrow> redis)) list"

record reset_env =
  rs_polls :: "nat \<Rightarrow> polls"
  rs_before :: "nat \<Rightarrow> redis \<Rightarrow> redis"
  rs_time :: "nat \<Rightarrow> time"

text \<open>A store sleeps \<open>retry\<close> between two attempts.\<close>

definition retry_delay :: "RedisStore \<Rightarrow> duration \<Rightarrow> duration" where
  "retry_delay store ttl = (if rs_RetryInterval store = 0 then ttl div 3 else rs_RetryInterval store)"

fun poll_states :: "duration \<Rightarrow> time \<Rightarrow> polls \<Rightarrow> redis \<Rightarrow> (time \<times> net \<times> redis) list" where
  "poll_states retry now [] r = []"
| "poll_states retry now ((d, n, f) # polls) r =
     (let t = now + max 0 d in (t, n, f r) # poll_states retry (t + retry) polls (f r))"

definition others_act :: "reset_env \<Rightarrow> redis_view \<Rightarrow> redis_view" where
  "others_act E v = v\<lparr>rv_redis := rs_before E (rv_calls v) (rv_redis v)\<rparr>"

definition reset_time :: "reset_env \<Rightarrow> redis_view \<Rightarrow> time" where
  "reset_time E v = rs_time E (rv_calls v)"

definition reset_ttl :: "EventStreamConfig \<Rightarrow> duration" where
  "reset_ttl es = (let ttl = Seconds (es_LeaseTTLSeconds es) in if ttl = 0 then 30 * second else ttl)"

definition acquire_ctx :: "ctx \<Rightarrow> time \<Rightarrow> duration \<Rightarrow> ctx" where
  "acquire_ctx c now ttl = Some (case c of None \<Rightarrow> now + 2 * ttl | Some d \<Rightarrow> min d (now + 2 * ttl))"

text \<open>One turn of the loop: \<open>None\<close> when the lease is still awaited after the given attempts.\<close>

definition reset_topic ::
  "reset_env \<Rightarrow> RedisStore \<Rightarrow> ctx \<Rightarrow> EventStreamConfig \<Rightarrow> nat \<Rightarrow> string \<Rightarrow> redis_view
   \<Rightarrow> (goerror option \<times> redis_view) option" where
  "reset_topic E store c es i topic v =
     (let now = reset_time E v; ttl = reset_ttl es in
      case rv_Acquire store (Key (es_Name es) topic) ttl
             (poll_states (retry_delay store ttl) now (rs_polls E i) (rv_redis v)) (acquire_ctx c now ttl) now v of
        None \<Rightarrow> None
      | Some (Some err, t, v1) \<Rightarrow> Some (Some err, v1)
      | Some (None, t, v1) \<Rightarrow>
          (case rv_Load c (reset_time E v1) (others_act E v1) of
             (old, v2) \<Rightarrow>
           case (case old of
                   Inl err \<Rightarrow> (Some err, v2)
                 | Inr _ \<Rightarrow> rv_Clear c (reset_time E v2) (others_act E v2)) of
             (err, v3) \<Rightarrow>
           Some (err, snd (rv_Release c (reset_time E v3) (others_act E v3)))))"

fun reset_loop ::
  "reset_env \<Rightarrow> RedisStore \<Rightarrow> ctx \<Rightarrow> EventStreamConfig \<Rightarrow> nat \<Rightarrow> string list \<Rightarrow> redis_view
   \<Rightarrow> (int \<times> redis_view) option" where
  "reset_loop E store c es i [] v = Some (0, v)"
| "reset_loop E store c es i (topic # topics) v =
     (case reset_topic E store c es i topic v of
        None \<Rightarrow> None
      | Some (Some err, v') \<Rightarrow> Some (1, v')
      | Some (None, v') \<Rightarrow> reset_loop E store c es (i + 1) topics v')"

definition resetCheckpoints ::
  "reset_env \<Rightarrow> RedisStore \<Rightarrow> ctx \<Rightarrow> EventStreamConfig \<Rightarrow> string \<Rightarrow> bool \<Rightarrow> redis_view
   \<Rightarrow> (int \<times> redis_view) option" where
  "resetCheckpoints E store c es topicsArg confirm v =
     (case resolveResetTopics (case es_Topics es of None \<Rightarrow> [] | Some ts \<Rightarrow> ts) topicsArg of
        Inl err \<Rightarrow> Some (2, v)
      | Inr topics \<Rightarrow> if \<not> confirm then Some (2, v) else reset_loop E store c es 0 topics v)"

lemma resolve_loop_eq:
  "resolve_loop configured ts (topics, unknown) =
     (let ts' = filter (\<lambda>t. t \<noteq> []) (map TrimSpace ts)
      in (topics @ filter (\<lambda>t. t \<in> set configured) ts', unknown @ filter (\<lambda>t. t \<notin> set configured) ts'))"
  by (induction ts arbitrary: topics unknown) (auto simp: Let_def)

text \<open>Only configured topics are reset, and none that was asked for is left out.\<close>

lemma resolveResetTopics_sound:
  assumes "resolveResetTopics configured arg = Inr topics"
  shows "set topics \<subseteq> set configured"
    and "TrimSpace arg \<noteq> ''all'' \<Longrightarrow> topics = filter (\<lambda>t. t \<noteq> []) (map TrimSpace (Split arg (CHR '','')))
      \<and> topics \<noteq> []"
  using assms
  by (auto simp: resolveResetTopics_def resolve_loop_eq Let_def filter_empty_conv filter_filter conj_commute
      split: if_splits intro!: filter_cong)

section \<open>What a reset can change\<close>

text \<open>Nobody else touches a key.\<close>

definition quiet_polls :: "string \<Rightarrow> polls \<Rightarrow> bool" where
  "quiet_polls k polls \<longleftrightarrow> (\<forall>(t, n, f) \<in> set polls. \<forall>r. f r k = r k)"

definition quiet :: "reset_env \<Rightarrow> string \<Rightarrow> bool" where
  "quiet E k \<longleftrightarrow> (\<forall>i. quiet_polls k (rs_polls E i)) \<and> (\<forall>n r. rs_before E n r k = r k)"

definition topic_keys :: "RedisStore \<Rightarrow> EventStreamConfig \<Rightarrow> string \<Rightarrow> string \<times> string" where
  "topic_keys store es topic = redis_keys store (Key (es_Name es) topic)"

lemma others_act_simps [simp]:
  "rv_lease (others_act E v) = rv_lease v" "rv_calls (others_act E v) = rv_calls v" "rv_net (others_act E v) = rv_net v"
  "quiet E k \<Longrightarrow> rv_redis (others_act E v) k = rv_redis v k"
  by (simp_all add: others_act_def quiet_def)

lemma acquire_loop_keeps:
  assumes "redis_acquire_loop c key ttl s retry (poll_states d start polls r) = Some (res, t, r')"
    and "quiet_polls k polls" "k \<noteq> fst (redis_keys s key)"
  shows "r' k = r k \<and> (\<forall>l. res = Inr l \<longrightarrow> l = redis_lease_of s key ttl)"
  using assms(1,2)
proof (induction polls arbitrary: r start)
  case (Cons p polls)
  obtain now n f where p: "p = (now, n, f)" by (cases p)
  have f: "f r k = r k" for r using Cons.prems(2) p by (simp add: quiet_polls_def)
  have IH: "r' k = f r k \<and> (\<forall>l. res = Inr l \<longrightarrow> l = redis_lease_of s key ttl)"
    if "redis_acquire_loop c key ttl s retry (poll_states d start' polls (f r)) = Some (res, t, r')" for start'
    using Cons.IH [OF that] Cons.prems(2) by (simp add: quiet_polls_def)
  show ?case
    using Cons.prems(1) IH assms(3) f [of r] unfolding p
    by (auto simp: redis_try_acquire_def redis_call_def redis_SETNX_def redis_lease_of_def Let_def
        split: prod.splits net.splits if_splits)
qed simp

lemma rv_Acquire_keeps:
  assumes "rv_Acquire store key ttl (poll_states d start polls (rv_redis v)) c now v = Some (res, t, v')"
    and "quiet_polls k polls" "k \<noteq> fst (redis_keys store key)"
  shows "rv_redis v' k = rv_redis v k" "res = None \<Longrightarrow> rv_lease v' = redis_lease_of store key ttl"
  using assms acquire_loop_keeps [OF _ assms(2,3)]
  by (fastforce simp: rv_Acquire_def RedisStore_Acquire_def Let_def split: option.splits prod.splits sum.splits if_splits)+

text \<open>The operations of a lease touch its two keys only.\<close>

lemma lease_op_keeps:
  assumes "rv_lease v = redis_lease_of store key ttl" "k \<noteq> snd (redis_keys store key)"
  shows "rv_redis (snd (rv_Clear c now v)) k = rv_redis v k"
    "k \<noteq> fst (redis_keys store key) \<Longrightarrow> rv_redis (snd (rv_Release c now v)) k = rv_redis v k"
    "rv_redis (snd (rv_Load c now v)) = rv_redis v"
    "rv_lease (snd (rv_Clear c now v)) = rv_lease v" "rv_lease (snd (rv_Load c now v)) = rv_lease v"
  using assms
  by (auto simp: rv_defs redis_op_defs rv_Load_def redis_lease_of_def split: prod.splits net.splits sum.splits)

text \<open>Releasing does not bring a checkpoint back.\<close>

lemma release_replay:
  assumes "rv_lease v = redis_lease_of store key ttl"
  shows "rv_redis (snd (rv_Release c now v)) (snd (redis_keys store key)) = rv_redis v (snd (redis_keys store key))"
proof -
  have "fst (redis_keys store key) \<noteq> snd (redis_keys store key)"
    using redis_keys_differ [OF prod.collapse [symmetric]] by blast
  then show ?thesis using assms
    by (auto simp: rv_defs redis_op_defs redis_lease_of_def split: prod.splits net.splits sum.splits)
qed

lemma lease_replay_keys: "fst (redis_keys s a) \<noteq> snd (redis_keys s b)"
proof
  assume "fst (redis_keys s a) = snd (redis_keys s b)"
  then have "last (fst (redis_keys s a)) = last (snd (redis_keys s b))" by simp
  then show False by (simp add: redis_keys_def Let_def)
qed

text \<open>What a successful turn does: acquire, load, clear and release, with others acting in between.\<close>

lemma reset_topic_cases:
  assumes "reset_topic E store c es i topic v = Some (err, v')"
  obtains (failed) t where "err \<noteq> None"
      "rv_Acquire store (Key (es_Name es) topic) (reset_ttl es)
         (poll_states (retry_delay store (reset_ttl es)) (reset_time E v) (rs_polls E i) (rv_redis v)) (acquire_ctx c (reset_time E v) (reset_ttl es)) (reset_time E v) v = Some (err, t, v')"
  | (acquired) t v1 v2 v3 where
      "rv_Acquire store (Key (es_Name es) topic) (reset_ttl es)
         (poll_states (retry_delay store (reset_ttl es)) (reset_time E v) (rs_polls E i) (rv_redis v)) (acquire_ctx c (reset_time E v) (reset_ttl es)) (reset_time E v) v = Some (None, t, v1)"
      "v2 = snd (rv_Load c (reset_time E v1) (others_act E v1))"
      "err \<noteq> None \<and> v3 = v2 \<or> (err, v3) = rv_Clear c (reset_time E v2) (others_act E v2)"
      "v' = snd (rv_Release c (reset_time E v3) (others_act E v3))"
proof -
  obtain r t v1 where A: "rv_Acquire store (Key (es_Name es) topic) (reset_ttl es)
      (poll_states (retry_delay store (reset_ttl es)) (reset_time E v) (rs_polls E i) (rv_redis v)) (acquire_ctx c (reset_time E v) (reset_ttl es)) (reset_time E v) v
      = Some (r, t, v1)"
    using assms by (auto simp: reset_topic_def Let_def split: option.splits)
  show ?thesis
  proof (cases r)
    case (Some e)
    then show ?thesis using assms A by (intro failed [of t]) (auto simp: reset_topic_def)
  next
    case None
    obtain old v2 where L: "rv_Load c (reset_time E v1) (others_act E v1) = (old, v2)" by fastforce
    show ?thesis
    proof (cases old)
      case (Inl e)
      then show ?thesis using assms A None L
        by (intro acquired [of t v1 v2 v2]) (auto simp: reset_topic_def)
    next
      case (Inr x)
      obtain r3 v3 where "rv_Clear c (reset_time E v2) (others_act E v2) = (r3, v3)" by fastforce
      then show ?thesis using assms A None L Inr
        by (intro acquired [of t v1 v2 v3]) (auto simp: reset_topic_def)
    qed
  qed
qed

lemma reset_topic_other_key:
  assumes "reset_topic E store c es i topic v = Some (err, v')" "quiet E k"
    and "k \<noteq> fst (topic_keys store es topic)" "k \<noteq> snd (topic_keys store es topic)"
  shows "rv_redis v' k = rv_redis v k"
  using assms(1)
proof (cases rule: reset_topic_cases)
  case (failed t)
  then show ?thesis using rv_Acquire_keeps(1) assms(2,3) by (metis quiet_def topic_keys_def)
next
  case (acquired t v1 v2 v3)
  note keys = assms(3,4) [unfolded topic_keys_def]
  have 1: "rv_redis v1 k = rv_redis v k" "rv_lease v1 = redis_lease_of store (Key (es_Name es) topic) (reset_ttl es)"
    using rv_Acquire_keeps [OF acquired(1) _ keys(1)] assms(2) by (simp_all add: quiet_def)
  note keep = lease_op_keeps [where store = store and key = "Key (es_Name es) topic" and ttl = "reset_ttl es", OF _ keys(2)]
  have 2: "rv_redis v2 k = rv_redis v k" "rv_lease v2 = rv_lease v1"
    using keep(3,5) [of "others_act E v1"] 1 assms(2) by (simp_all add: acquired(2))
  have 3: "rv_redis v3 k = rv_redis v k" "rv_lease v3 = rv_lease v1"
    using acquired(3) keep(1,4) [of "others_act E v2" c "reset_time E v2"] 1 2 assms(2)
    by (auto simp: prod_eq_iff)
  show ?thesis using keep(2) [of "others_act E v3", OF _ keys(1)] 1(2) 3 assms(2) by (simp add: acquired(4))
qed

lemma clear_result:
  assumes "rv_lease v = redis_lease_of store key ttl" "rv_Clear c now v = (err, v')"
  shows "rv_lease v' = rv_lease v" "err = None \<Longrightarrow> rv_redis v' (snd (redis_keys store key)) = None"
    "rv_redis v' (snd (redis_keys store key)) \<in> {None, rv_redis v (snd (redis_keys store key))}"
  using assms
  by (auto simp: rv_defs redis_op_defs redis_lease_of_def split: prod.splits net.splits sum.splits if_splits)

lemma reset_topic_own_key:
  assumes "reset_topic E store c es i topic v = Some (err, v')" "quiet E k" "k = snd (topic_keys store es topic)"
  shows "rv_redis v' k \<in> {None, rv_redis v k} \<and> (err = None \<longrightarrow> rv_redis v' k = None)"
  using assms(1)
proof (cases rule: reset_topic_cases)
  let ?key = "Key (es_Name es) topic"
  have k: "k = snd (redis_keys store ?key)" "k \<noteq> fst (redis_keys store ?key)"
    using assms(3) lease_replay_keys by (metis topic_keys_def)+
  {
    case (failed t)
    then have "rv_redis v' k = rv_redis v k" using rv_Acquire_keeps(1) [OF failed(2) _ k(2)] assms(2)
      by (simp add: quiet_def)
    then show ?thesis using failed(1) by auto
  next
    case (acquired t v1 v2 v3)
    have 1: "rv_redis v1 k = rv_redis v k" "rv_lease v1 = redis_lease_of store ?key (reset_ttl es)"
      using rv_Acquire_keeps [OF acquired(1) _ k(2)] assms(2) by (simp_all add: quiet_def)
    have 2: "rv_redis v2 k = rv_redis v k" "rv_lease v2 = redis_lease_of store ?key (reset_ttl es)"
      using 1 assms(2) by (simp_all add: acquired(2) rv_Load_def rv_op_def split: prod.splits)
    have 3: "rv_redis v3 k \<in> {None, rv_redis v k}" "rv_lease v3 = redis_lease_of store ?key (reset_ttl es)"
      "err = None \<Longrightarrow> rv_redis v3 k = None"
      using acquired(3) clear_result [where v = "others_act E v2" and store = store and key = ?key
          and ttl = "reset_ttl es" and v' = v3 and err = err, folded k(1)] 2 assms(2) by auto
    have "rv_redis v' k = rv_redis v3 k"
      using release_replay [of "others_act E v3", folded k(1)] 3(2) assms(2) by (simp add: acquired(4) k(1))
    then show ?thesis using 3 by auto
  }
qed

lemma reset_topic_replay:
  assumes "reset_topic E store c es i topic v = Some (err, v')" "quiet E k" "k = snd (redis_keys store key)"
  shows "rv_redis v' k \<in> {None, rv_redis v k}"
proof (cases "k = snd (topic_keys store es topic)")
  case True
  from reset_topic_own_key [OF assms(1,2) this] show ?thesis ..
next
  case False
  moreover have "k \<noteq> fst (topic_keys store es topic)"
    using lease_replay_keys assms(3) by (metis topic_keys_def)
  ultimately show ?thesis using reset_topic_other_key [OF assms(1,2)] by simp
qed

lemma reset_loop_other_key:
  assumes "reset_loop E store c es i topics v = Some (code, v')" "quiet E k"
    and "\<And>topic. topic \<in> set topics \<Longrightarrow> k \<noteq> fst (topic_keys store es topic) \<and> k \<noteq> snd (topic_keys store es topic)"
  shows "rv_redis v' k = rv_redis v k"
  using assms(1,3)
proof (induction topics arbitrary: i v)
  case (Cons topic topics)
  obtain err v1 where R: "reset_topic E store c es i topic v = Some (err, v1)"
    using Cons.prems(1) by (auto split: option.splits)
  have "rv_redis v1 k = rv_redis v k"
    using reset_topic_other_key [OF R assms(2)] Cons.prems(2) [of topic] by simp
  then show ?case using Cons.prems R Cons.IH [of "i + 1" v1] by (auto split: option.splits)
qed simp

lemma reset_loop_code: "reset_loop E store c es i topics v = Some (code, v') \<Longrightarrow> code \<in> {0, 1}"
  by (induction topics arbitrary: i v) (auto split: option.splits)

lemma reset_loop_replay:
  assumes "reset_loop E store c es i topics v = Some (code, v')" "quiet E k" "k = snd (redis_keys store key)"
  shows "rv_redis v' k \<in> {None, rv_redis v k}
    \<and> (code = 0 \<longrightarrow> (\<exists>topic \<in> set topics. k = snd (topic_keys store es topic)) \<longrightarrow> rv_redis v' k = None)"
  using assms(1)
proof (induction topics arbitrary: i v)
  case (Cons topic topics)
  obtain err v1 where R: "reset_topic E store c es i topic v = Some (err, v1)"
    using Cons.prems(1) by (auto split: option.splits)
  note 1 = reset_topic_replay [OF R assms(2,3)] reset_topic_own_key [OF R assms(2)]
  show ?case
  proof (cases err)
    case (Some e)
    then show ?thesis using Cons.prems R 1(1) by auto
  next
    case None
    then have "reset_loop E store c es (i + 1) topics v1 = Some (code, v')" using Cons.prems R by simp
    from Cons.IH [OF this] show ?thesis using 1 None by auto
  qed
qed simp

section \<open>The reset property\<close>

text \<open>
  C39: what \<^verbatim>\<open>-reset-checkpoints\<close> does to the server, whatever calls fail and whatever other processes do to
  other keys. Without \<^verbatim>\<open>-confirm\<close>, or with a topic that is not configured, the exit code is 2 and nothing
  changes. A key that is neither the lease nor the checkpoint of a configured topic keeps its value. A
  checkpoint is never changed to another one, only removed, and exit code 0 means that the checkpoint of
  every topic that was asked for is gone.
\<close>

theorem reset_confined:
  assumes "resetCheckpoints E store c es arg confirm v = Some (code, v')" and "quiet E k"
    and "es_Topics es = Some configured"
  shows "case resolveResetTopics configured arg of
      Inl err \<Rightarrow> code = 2 \<and> v' = v
    | Inr topics \<Rightarrow>
        if confirm then
          code \<in> {0, 1} \<and> set topics \<subseteq> set configured
          \<and> (rv_redis v' k \<noteq> rv_redis v k \<longrightarrow>
               (\<exists>topic \<in> set topics. k = fst (topic_keys store es topic) \<or> k = snd (topic_keys store es topic)))
          \<and> ((\<exists>key. k = snd (redis_keys store key)) \<longrightarrow> rv_redis v' k \<in> {None, rv_redis v k})
          \<and> (code = 0 \<longrightarrow> (\<exists>topic \<in> set topics. k = snd (topic_keys store es topic)) \<longrightarrow> rv_redis v' k = None)
        else code = 2 \<and> v' = v"
proof (cases "resolveResetTopics configured arg")
  case (Inl err)
  then show ?thesis using assms(1,3) by (simp add: resetCheckpoints_def)
next
  case topics: (Inr topics)
  show ?thesis
  proof (cases confirm)
    case True
    then have L: "reset_loop E store c es 0 topics v = Some (code, v')"
      using assms(1,3) topics by (simp add: resetCheckpoints_def)
    have "code \<in> {0, 1}" by (rule reset_loop_code [OF L])
    moreover note resolveResetTopics_sound(1) [OF topics]
    moreover have "\<exists>topic \<in> set topics. k = fst (topic_keys store es topic) \<or> k = snd (topic_keys store es topic)"
      if "rv_redis v' k \<noteq> rv_redis v k" using reset_loop_other_key [OF L assms(2)] that by blast
    moreover have "rv_redis v' k \<in> {None, rv_redis v k}" if "k = snd (redis_keys store key)" for key
      using reset_loop_replay [OF L assms(2) that] by simp
    moreover have "rv_redis v' k = None" if "code = 0" "topic \<in> set topics" "k = snd (topic_keys store es topic)" for topic
      using reset_loop_replay [OF L assms(2) that(3) [unfolded topic_keys_def]] that by blast
    ultimately show ?thesis using topics True by auto
  next
    case False
    then show ?thesis using assms(1,3) topics by (simp add: resetCheckpoints_def)
  qed
qed

text \<open>An \<^verbatim>\<open>Acquire\<close> that still waits after some attempts has a deadline further away than they took.\<close>

lemma acquire_loop_waits:
  assumes "redis_acquire_loop (Some dl) key ttl s retry (poll_states retry start polls r) = None"
    and "0 \<le> retry" "polls \<noteq> []"
  shows "start + int (length polls) * retry < dl"
  using assms(1,3)
proof (induction polls arbitrary: start r)
  case (Cons p polls)
  obtain d n f where p: "p = (d, n, f)" by (cases p)
  let ?t = "start + max 0 d"
  have wait: "?t + retry < dl" "redis_acquire_loop (Some dl) key ttl s retry (poll_states retry (?t + retry) polls (f r)) = None"
    using Cons.prems(1) unfolding p
    by (auto simp: Let_def ctx_done_def redis_try_acquire_def redis_call_def redis_SETNX_def
        split: prod.splits net.splits if_splits sum.splits option.splits)
  show ?case
  proof (cases "polls = []")
    case False
    from Cons.IH [OF wait(2) this] have "?t + retry + int (length polls) * retry < dl" .
    moreover have "int (length (p # polls)) * retry = retry + int (length polls) * retry"
      by (simp add: distrib_right)
    ultimately show ?thesis by linarith
  qed (use wait(1) in simp)
qed simp

lemma reset_topic_returns:
  assumes "rs_RetryInterval store = 0" "7 \<le> length (rs_polls E i)"
  shows "reset_topic E store c es i topic v \<noteq> None"
proof
  let ?ttl = "reset_ttl es" and ?now = "reset_time E v"
  let ?polls = "poll_states (?ttl div 3) ?now (rs_polls E i) (rv_redis v)"
  obtain dl where dl: "acquire_ctx c ?now ?ttl = Some dl" "dl \<le> ?now + 2 * ?ttl"
    by (auto simp: acquire_ctx_def split: option.splits)
  assume "reset_topic E store c es i topic v = None"
  then have "RedisStore_Acquire (Some dl) (Key (es_Name es) topic) ?ttl store ?polls ?now (rv_redis v) = None"
    using assms(1) by (auto simp: reset_topic_def rv_Acquire_def retry_delay_def Let_def dl(1) split: option.splits sum.splits prod.splits)
  then have ttl: "second \<le> ?ttl" and wait: "redis_acquire_loop (Some dl) (Key (es_Name es) topic) ?ttl store (?ttl div 3) ?polls = None"
    using assms(1) by (auto simp: RedisStore_Acquire_def split: if_splits)
  have "1 \<le> ?ttl" using ttl by (simp add: second_def)
  then have "?now + int (length (rs_polls E i)) * (?ttl div 3) < dl"
    using acquire_loop_waits [OF wait] assms(2) by fastforce
  moreover have "7 * (?ttl div 3) \<le> int (length (rs_polls E i)) * (?ttl div 3)"
    using assms(2) \<open>1 \<le> ?ttl\<close> by (intro mult_right_mono) auto
  ultimately show False using dl(2) ttl by (simp add: second_def)
qed

text \<open>
  C40: the reset command returns. The store \<^verbatim>\<open>NewRedisStore\<close> makes tries to take a lease every third of its
  time to live, and the command waits at most two times to live: after at most seven attempts for each
  topic the lease is taken or given up, however long the other collector keeps it and however its calls fail.
\<close>

theorem reset_returns:
  assumes "rs_RetryInterval store = 0" and "\<And>i. 7 \<le> length (rs_polls E i)"
  shows "\<exists>code v'. resetCheckpoints E store c es arg confirm v = Some (code, v') \<and> code \<in> {0, 1, 2}"
proof -
  have "\<exists>code v'. reset_loop E store c es i topics v = Some (code, v') \<and> code \<in> {0, 1}" for i topics v
  proof (induction topics arbitrary: i v)
    case (Cons topic topics)
    obtain err v1 where "reset_topic E store c es i topic v = Some (err, v1)"
      using reset_topic_returns [OF assms] by fastforce
    then show ?case using Cons.IH by (cases err) simp_all
  qed simp
  then show ?thesis by (fastforce simp: resetCheckpoints_def split: sum.splits)
qed

text \<open>A server that holds a checkpoint for one of two topics, which is reset.\<close>

definition wit_stream :: EventStreamConfig where
  "wit_stream = \<lparr>es_Name = ''i'', es_Auth = \<lparr>auth_TokenUrl = [], auth_UserPass = None, auth_Jwt = None, auth_ClientCred = None\<rparr>,
     es_Cache = None, es_Appetite = 0, es_Topics = Some [''t'', ''u''], es_PubSubEndpoint = [], es_PubSubInsecure = False,
     es_InitialReplay = [], es_Batch = \<lparr>batch_MaxEvents = 0, batch_MaxAgeSeconds = 0\<rparr>, es_LeaseTTLSeconds = 3,
     es_ShutdownFlushTimeoutSeconds = 0\<rparr>"

definition wit_reset_env :: reset_env where
  "wit_reset_env = \<lparr>rs_polls = (\<lambda>i. replicate 7 (0, Reply, \<lambda>r. r)), rs_before = (\<lambda>n r. r), rs_time = (\<lambda>n. 0)\<rparr>"

definition wit_held :: redis_view where
  "wit_held = wit_view\<lparr>rv_redis := [''sfarch:{i/t}:replay'' \<mapsto> (''r'', None), ''sfarch:{i/u}:replay'' \<mapsto> (''s'', None)]\<rparr>"

lemma wit_quiet: "quiet wit_reset_env k"
  by (simp add: quiet_def quiet_polls_def wit_reset_env_def)

lemma reset_returns_witness:
  "\<exists>code v'. resetCheckpoints wit_reset_env (wit_store ''a'') None wit_stream ''t'' True wit_held = Some (code, v')
     \<and> code \<in> {0, 1, 2}"
  by (rule reset_returns) (simp_all add: wit_store_def wit_reset_env_def)

lemma wit_reset_topics:
  "resolveResetTopics [''t'', ''u''] '' t,'' = Inr [''t'']"
proof -
  have "TrimSpace '' t,'' = ''t,''" by code_simp
  moreover have "TrimSpace '' t'' = ''t''" by code_simp
  moreover have "TrimSpace [] = []" by code_simp
  ultimately show ?thesis by (simp add: resolveResetTopics_def)
qed

lemma wit_reset_keys:
  "topic_keys (wit_store ''a'') wit_stream ''t'' = (''sfarch:{i/t}:lease'', ''sfarch:{i/t}:replay'')"
  by (simp add: topic_keys_def redis_keys_def Key_def wit_store_def wit_stream_def Let_def)

lemma wit_reset_ttl: "reset_ttl wit_stream = 3000000000"
  by (simp add: reset_ttl_def wit_stream_def Seconds_def wrap64_def second_def Let_def)

lemma wit_reset:
  "map_option fst (resetCheckpoints wit_reset_env (wit_store ''a'') None wit_stream '' t,'' True wit_held) = Some 0"
proof -
  have topics: "es_Topics wit_stream = Some [''t'', ''u'']" by (simp add: wit_stream_def)
  have keys: "redis_keys (wit_store ''a'') (Key (es_Name wit_stream) ''t'') = (''sfarch:{i/t}:lease'', ''sfarch:{i/t}:replay'')"
    using wit_reset_keys by (simp add: topic_keys_def)
  have polls: "poll_states d now (rs_polls wit_reset_env i) r
      = (now, Reply, r) # poll_states d (now + d) (replicate 6 (0, Reply, \<lambda>r. r)) r" for d now i r
    by (simp add: wit_reset_env_def eval_nat_numeral)
  have env: "rs_before wit_reset_env = (\<lambda>n r. r)" "rs_time wit_reset_env = (\<lambda>n. 0)" by (simp_all add: wit_reset_env_def)
  show ?thesis
    by (simp add: resetCheckpoints_def topics wit_reset_topics reset_topic_def wit_reset_ttl polls keys
        rv_Acquire_def RedisStore_Acquire_def redis_try_acquire_def redis_call_def redis_SETNX_def second_def
        wit_held_def wit_view_def redis_GET_def others_act_def reset_time_def rv_Load_def rv_op_def redis_Load_def
        rv_Clear_def redis_Clear_def script_result_def clearScript_def redis_DEL_def rl_owner_def env Let_def)
qed

lemma reset_confined_witness:
  "\<exists>v'. resetCheckpoints wit_reset_env (wit_store ''a'') None wit_stream '' t,'' True wit_held = Some (0, v')
     \<and> rv_redis v' ''sfarch:{i/t}:replay'' = None \<and> rv_redis v' ''sfarch:{i/u}:replay'' = Some (''s'', None)"
proof -
  obtain v' where R: "resetCheckpoints wit_reset_env (wit_store ''a'') None wit_stream '' t,'' True wit_held = Some (0, v')"
    using wit_reset by auto
  have "es_Topics wit_stream = Some [''t'', ''u'']" by (simp add: wit_stream_def)
  note C = reset_confined [OF R wit_quiet this]
  have "rv_redis v' ''sfarch:{i/t}:replay'' = None"
    using C [of "''sfarch:{i/t}:replay''"] by (simp add: wit_reset_topics wit_reset_keys)
  moreover have "rv_redis v' ''sfarch:{i/u}:replay'' = rv_redis wit_held ''sfarch:{i/u}:replay''"
    using C [of "''sfarch:{i/u}:replay''"] by (auto simp: wit_reset_topics wit_reset_keys)
  ultimately show ?thesis using R by (simp add: wit_held_def)
qed

section \<open>Logging level and configuration files\<close>

datatype log_level = LevelDebug | LevelInfo | LevelWarn | LevelError

definition SetLevel :: "string \<Rightarrow> log_level" where
  "SetLevel name =
     (let n = ToLower (TrimSpace name) in
      if n = ''debug'' then LevelDebug
      else if n = ''warn'' \<or> n = ''warning'' then LevelWarn
      else if n = ''error'' then LevelError
      else LevelInfo)"

definition IsDebugEnabled :: "log_level \<Rightarrow> bool" where
  "IsDebugEnabled l \<longleftrightarrow> l = LevelDebug"

text \<open>
  The library reads the file into a dictionary and decodes it; its hook replaces the environment
  variables of the dictionary first. The second component is the logger's level.
\<close>

definition unmarshalConfig ::
  "(string \<Rightarrow> string option) \<Rightarrow> ((string \<times> anyval) list \<Rightarrow> Config result) \<Rightarrow> (string \<times> anyval) list \<Rightarrow> log_level
   \<Rightarrow> Config result \<times> log_level" where
  "unmarshalConfig lookupEnv decodeConf dict level =
     (case scanEnvVars lookupEnv dict of
        Inl err \<Rightarrow> (Inl err, level)
      | Inr dict' \<Rightarrow>
          (case decodeConf dict' of
             Inl err \<Rightarrow> (Inl err, level)
           | Inr conf \<Rightarrow>
               (case integrityCheck conf of
                  Some err \<Rightarrow> (Inl err, level)
                | None \<Rightarrow> (Inr conf, if conf_LogLevel conf \<noteq> [] then SetLevel (conf_LogLevel conf) else level))))"

definition ReadConfigFile ::
  "(string \<Rightarrow> (string \<times> anyval) list result) \<Rightarrow> (string \<Rightarrow> string option)
   \<Rightarrow> ((string \<times> anyval) list \<Rightarrow> Config result) \<Rightarrow> string \<Rightarrow> log_level \<Rightarrow> Config result \<times> log_level" where
  "ReadConfigFile readIn lookupEnv decodeConf path level =
     (case readIn path of
        Inl err \<Rightarrow> (Inl (Wrap (''reading config file '' @ path) err), level)
      | Inr dict \<Rightarrow> unmarshalConfig lookupEnv decodeConf dict level)"

definition readExternalQueryConf ::
  "(string \<Rightarrow> 'd result) \<Rightarrow> ('d \<Rightarrow> QueryConfig list result) \<Rightarrow> string \<Rightarrow> QueryConfig list result" where
  "readExternalQueryConf readIn unmarshal path =
     (case readIn path of Inl err \<Rightarrow> Inl err | Inr d \<Rightarrow> unmarshal d)"

fun ParseQueryFiles ::
  "(string \<Rightarrow> 'd result) \<Rightarrow> ('d \<Rightarrow> QueryConfig list result) \<Rightarrow> QueryConfig list \<Rightarrow> string list \<Rightarrow> QueryConfig list result" where
  "ParseQueryFiles readIn unmarshal queries [] = Inr queries"
| "ParseQueryFiles readIn unmarshal queries (path # files) =
     (case readExternalQueryConf readIn unmarshal path of
        Inl err \<Rightarrow> Inl (Err (''Could not read file '' @ path))
      | Inr query \<Rightarrow> ParseQueryFiles readIn unmarshal (queries @ query) files)"

definition ParseMappingFile ::
  "(string \<Rightarrow> 'd result) \<Rightarrow> ('d \<Rightarrow> (string \<times> string list) list result) \<Rightarrow> string
   \<Rightarrow> (string \<times> string list) list result" where
  "ParseMappingFile readIn unmarshal path = (case readIn path of Inl err \<Rightarrow> Inl err | Inr d \<Rightarrow> unmarshal d)"

text \<open>The queries of all the files are used, in their order, or none are.\<close>

lemma ParseQueryFiles_all:
  "ParseQueryFiles readIn unmarshal queries files = Inr all \<Longrightarrow>
     \<exists>parts. all = queries @ concat parts
       \<and> list_all2 (\<lambda>path q. readExternalQueryConf readIn unmarshal path = Inr q) files parts"
proof (induction files arbitrary: queries)
  case (Cons path files)
  then obtain q where q: "readExternalQueryConf readIn unmarshal path = Inr q"
      "ParseQueryFiles readIn unmarshal (queries @ q) files = Inr all" by (auto split: sum.splits)
  from Cons.IH [OF q(2)] obtain parts where "all = (queries @ q) @ concat parts"
      "list_all2 (\<lambda>path q. readExternalQueryConf readIn unmarshal path = Inr q) files parts" by blast
  with q(1) show ?case by (intro exI [of _ "q # parts"]) simp
qed simp

section \<open>The stream collector\<close>

text \<open>\<^verbatim>\<open>metrics.Serve\<close>: no address, no server; otherwise the address must be bound.\<close>

definition Serve :: "(string \<Rightarrow> goerror option) \<Rightarrow> string \<Rightarrow> goerror option" where
  "Serve listen addr =
     (if addr = [] then None
      else case listen addr of
        Some err \<Rightarrow> Some (Wrap (''metrics server cannot listen on '' @ addr) err)
      | None \<Rightarrow> None)"

definition readyz :: "bool \<Rightarrow> int \<times> string" where
  "readyz isReady = (if \<not> isReady then (503, ''not ready'') else (200, ''ready''))"

text \<open>
  The process and what surrounds it. \<open>sp_reset\<close> and \<open>sp_service\<close> are what \<open>resetCheckpoints\<close> and
  \<open>RunService\<close> return.
\<close>

record 'cr stream_process =
  sp_readConf :: "Config result"
  sp_parseURI :: "string \<Rightarrow> bool"
  sp_sink :: "ArchiveConfig \<Rightarrow> built_sink result"
  sp_redis :: "'cr redis_env"
  sp_ping :: "UniversalOptions \<Rightarrow> goerror option"
  sp_reset :: "EventStreamConfig \<Rightarrow> string \<Rightarrow> bool \<Rightarrow> int"
  sp_listen :: "string \<Rightarrow> goerror option"
  sp_service :: "Config \<Rightarrow> built_sink \<Rightarrow> UniversalOptions \<Rightarrow> goerror option"

text \<open>\<open>None\<close> is a call on a nil client.\<close>

definition stream_run :: "'cr stream_process \<Rightarrow> bool \<Rightarrow> string \<Rightarrow> bool \<Rightarrow> int option" where
  "stream_run P version resetTopics confirm =
     (if version then Some 0
      else case sp_readConf P of
        Inl err \<Rightarrow> Some 2
      | Inr conf \<Rightarrow>
      (case stream_IntegrityCheck (sp_parseURI P) conf of
        Some err \<Rightarrow> Some 2
      | None \<Rightarrow>
      (case sp_sink P (conf_Archive conf) of
        Inl err \<Rightarrow> Some 1
      | Inr sink \<Rightarrow>
      (case BuildRedisClient (sp_redis P) (Option.bind (conf_EventStream conf) es_Cache) of
        Inl err \<Rightarrow> Some 1
      | Inr None \<Rightarrow> None
      | Inr (Some client) \<Rightarrow>
          if sp_ping P client \<noteq> None then Some 1
          else if resetTopics \<noteq> []
          then map_option (\<lambda>es. sp_reset P es resetTopics confirm) (conf_EventStream conf)
          else if Serve (sp_listen P) (conf_MetricsAddr conf) \<noteq> None then Some 1
          else if sp_service P conf sink client \<noteq> None then Some 1
          else Some 0))))"

text \<open>An accepted configuration has a stream section and a Redis client: no nil value is used.\<close>

lemma stream_run_no_panic: "stream_run P version resetTopics confirm \<noteq> None"
proof -
  have "conf_EventStream conf \<noteq> None
      \<and> BuildRedisClient (sp_redis P) (Option.bind (conf_EventStream conf) es_Cache) \<noteq> Inr None"
    if "stream_IntegrityCheck parseURI conf = None" for parseURI conf
    using that
    by (auto simp: stream_IntegrityCheck_def BuildRedisClient_def require_def split: option.splits sum.splits if_splits)
  then show ?thesis by (fastforce simp: stream_run_def split: sum.splits option.splits)
qed

section \<open>The event log collector\<close>

definition discoverOrgId :: "grpc_env \<Rightarrow> time \<Rightarrow> AuthConfig \<Rightarrow> string result" where
  "discoverOrgId E now cred =
     (case Login (ge_login E) now cred of
        Inl err \<Rightarrow> Inl err
      | Inr resp \<Rightarrow>
          (case UserInfo E (auth_TokenUrl cred) (ar_AccessToken resp) of
             Inl err \<Rightarrow> Inl err
           | Inr info \<Rightarrow>
               if ui_OrganizationID info = [] then Inl (Err ''userinfo response has no organization_id'')
               else Inr (ui_OrganizationID info)))"

definition defaultPollInterval :: duration where "defaultPollInterval = 300 * second"

definition poll_interval :: "EventLogConfig \<Rightarrow> duration" where
  "poll_interval conf =
     (let interval = Seconds (int (ec_PollIntervalSeconds conf))
      in if interval = 0 then defaultPollInterval else interval)"

text \<open>\<open>None\<close>: still running after \<open>n\<close> polls.\<close>

fun poll_loop ::
  "('c, 's) cenv \<Rightarrow> Collector \<Rightarrow> ctx \<Rightarrow> bool \<Rightarrow> duration \<Rightarrow> nat \<Rightarrow> ('c, 's) cstate \<Rightarrow> (int \<times> ('c, 's) cstate) option" where
  "poll_loop E K c once interval 0 st = None"
| "poll_loop E K c once interval (Suc n) st =
     (case Poll E K c st of
        (err, st1) \<Rightarrow>
          if ctx_done c (cs_now st1) then Some (0, st1)
          else if once then Some (if err \<noteq> None then 1 else 0, st1)
          else
            let st2 = st1\<lparr>cs_q := (cs_q st1)\<lparr>q_now := cs_now st1 + max 0 interval\<rparr>\<rparr> in
            if ctx_done c (cs_now st2) then Some (0, st2)
            else poll_loop E K c once interval n st2)"

text \<open>
  The process. \<open>ep_files\<close> are the configured query files and mapping file, \<open>ep_collector\<close> gives the
  collector's dependencies and first state for the sink and the cache that were built, and \<open>fuel\<close> is the
  number of polls; \<open>None\<close> means that the collector still runs.
\<close>

record ('cr, 'd, 'c, 's) eventlog_process =
  ep_readConf :: "Config result"
  ep_files :: "string list \<times> string"
  ep_readIn :: "string \<Rightarrow> 'd result"
  ep_queries :: "'d \<Rightarrow> QueryConfig list result"
  ep_mapping :: "'d \<Rightarrow> (string \<times> string list) list result"
  ep_parseURI :: "string \<Rightarrow> bool"
  ep_sink :: "ArchiveConfig \<Rightarrow> built_sink result"
  ep_redis :: "'cr redis_env"
  ep_grpc :: grpc_env
  ep_now :: time
  ep_listen :: "string \<Rightarrow> goerror option"
  ep_collector :: "built_sink \<Rightarrow> built_cache \<Rightarrow> ('c, 's) cenv \<times> ('c, 's) cstate"

definition eventlog_files ::
  "('cr, 'd, 'c, 's) eventlog_process \<Rightarrow> EventLogConfig \<Rightarrow> EventLogConfig result" where
  "eventlog_files P inst =
     (case ParseQueryFiles (ep_readIn P) (ep_queries P) [] (fst (ep_files P)) of
        Inl err \<Rightarrow> Inl err
      | Inr queries \<Rightarrow>
          let inst' = inst\<lparr>ec_CustomQueries := ec_CustomQueries inst @ queries\<rparr> in
          if snd (ep_files P) = [] then Inr inst'
          else (case ParseMappingFile (ep_readIn P) (ep_mapping P) (snd (ep_files P)) of
                  Inl err \<Rightarrow> Inl err
                | Inr mapping \<Rightarrow> Inr (inst'\<lparr>ec_FieldMapping := mapping\<rparr>)))"

definition eventlog_run ::
  "('cr, 'd, 'c, 's) eventlog_process \<Rightarrow> bool \<Rightarrow> bool \<Rightarrow> ctx \<Rightarrow> nat \<Rightarrow> int option" where
  "eventlog_run P version once c fuel =
     (if version then Some 0
      else case ep_readConf P of
        Inl err \<Rightarrow> Some 2
      | Inr conf \<Rightarrow>
      (case conf_EventLog conf of
        None \<Rightarrow> Some 2
      | Some inst0 \<Rightarrow>
      (case eventlog_files P inst0 of
        Inl err \<Rightarrow> Some 2
      | Inr inst1 \<Rightarrow>
      (case eventlog_IntegrityCheck (ep_parseURI P) (conf\<lparr>conf_EventLog := Some inst1\<rparr>) of
        Inl err \<Rightarrow> Some 2
      | Inr inst \<Rightarrow>
      (case ep_sink P (conf_Archive conf) of
        Inl err \<Rightarrow> Some 1
      | Inr sink \<Rightarrow>
      (case BuildCache (ep_redis P) (ec_Cache inst) of
        Inl err \<Rightarrow> Some 1
      | Inr db \<Rightarrow>
      (case (if conf_OrgId conf = [] then discoverOrgId (ep_grpc P) (ep_now P) (ec_Auth inst)
             else Inr (conf_OrgId conf)) of
        Inl err \<Rightarrow> Some 1
      | Inr orgId \<Rightarrow>
          if Serve (ep_listen P) (conf_MetricsAddr conf) \<noteq> None then Some 1
          else
            let K = NewCollector inst orgId (conf_Env conf) in
            map_option fst (poll_loop (fst (ep_collector P sink db)) K c once (poll_interval inst) fuel
              (snd (ep_collector P sink db))))))))))"

text \<open>With \<^verbatim>\<open>-once\<close> one poll decides the exit code; without it the collector ends only on a shutdown, with 0.\<close>

lemma poll_loop_once:
  "poll_loop E K c True interval (Suc n) st =
     (let (err, st1) = Poll E K c st
      in Some (if \<not> ctx_done c (cs_now st1) \<and> err \<noteq> None then 1 else 0, st1))"
  by (simp add: Let_def split: prod.splits)

lemma poll_loop_ends:
  "poll_loop E K c False interval n st = Some (code, st') \<Longrightarrow> code = 0 \<and> ctx_done c (cs_now st')"
  by (induction n arbitrary: st) (auto simp: Let_def split: prod.splits if_splits)

end
