(* ===== verification/Mock_Server.thy ===== *)
theory Mock_Server
  imports PubSub_Client Csv_Quoted
begin

text \<open>
  Package \<^verbatim>\<open>internal/mocksf\<close>, the mock Salesforce org: options, state, sessions and the OAuth endpoints.
  The state is what the server keeps under its mutexes; a handler is one transition of it at an instant.
  JSON encoding, the Avro codec and the random source are parameters; a reply is its status and value.
\<close>

section \<open>Options and faults\<close>

record mock_options =
  mo_BaseURL :: string
  mo_OrgId :: string
  mo_UserId :: string
  mo_ClientId :: string
  mo_ClientSecret :: string
  mo_TokenTTL :: duration
  mo_Topics :: "string list"
  mo_RetentionEvents :: int
  mo_KeepaliveInterval :: duration
  mo_MaxEventsPerResponse :: int
  mo_QueryPageSize :: int
  mo_EventLogTypes :: "string list"
  mo_EventLogRows :: int
  mo_CustomObjects :: "string list"
  mo_TruncateQueryResults :: bool

definition or_default :: "'a \<Rightarrow> 'a \<Rightarrow> 'a \<Rightarrow> 'a" where
  "or_default zero x d = (if x = zero then d else x)"

definition mock_defaults :: "mock_options \<Rightarrow> mock_options" where
  "mock_defaults opts = opts\<lparr>
     mo_OrgId := or_default [] (mo_OrgId opts) ''00DMOCK000000001AAA'',
     mo_UserId := or_default [] (mo_UserId opts) ''005MOCK000000001AAA'',
     mo_ClientId := or_default [] (mo_ClientId opts) ''mock-client-id'',
     mo_ClientSecret := or_default [] (mo_ClientSecret opts) ''mock-client-secret'',
     mo_TokenTTL := or_default 0 (mo_TokenTTL opts) (2 * hour),
     mo_Topics := or_default [] (mo_Topics opts) [''/event/LoginEventStream'', ''/event/ApiEventStream''],
     mo_KeepaliveInterval := or_default 0 (mo_KeepaliveInterval opts) (30 * second),
     mo_MaxEventsPerResponse := or_default 0 (mo_MaxEventsPerResponse opts) 100,
     mo_QueryPageSize := or_default 0 (mo_QueryPageSize opts) 200,
     mo_EventLogTypes := or_default [] (mo_EventLogTypes opts) [''Login'', ''API'', ''URI''],
     mo_EventLogRows := or_default 0 (mo_EventLogRows opts) 50,
     mo_CustomObjects := or_default [] (mo_CustomObjects opts) [''SetupAuditTrail'']\<rparr>"

record mock_faults =
  mf_FailLogins :: int
  mf_DropStreamAfterEvents :: int
  mf_FailRestRequests :: int
  mf_TruncateNextDownload :: int

definition no_faults :: mock_faults where
  "no_faults = \<lparr>mf_FailLogins = 0, mf_DropStreamAfterEvents = 0, mf_FailRestRequests = 0, mf_TruncateNextDownload = 0\<rparr>"

section \<open>State\<close>

record storedEvent =
  ste_seq :: nat
  ste_id :: string
  ste_payload :: string
  ste_schemaId :: string

record mock_topic =
  tp_name :: string
  tp_schemaId :: string
  tp_schema :: string
  tp_retention :: int
  tp_events :: "storedEvent list"
  tp_nextSeq :: nat
  tp_ledger :: "string list"

record eventLogFile =
  elf_Id :: string
  elf_EventType :: string
  elf_CreatedDate :: time
  elf_LogDate :: time
  elf_Interval :: string
  elf_Sequence :: int
  elf_csv :: string
  elf_logDateRaw :: string
  elf_deleted :: bool

record queryCursor =
  qcur_records :: "payload list"
  qcur_offset :: int

record mock_server =
  ms_opts :: mock_options
  ms_tokens :: "string \<rightharpoonup> time"
  ms_faults :: mock_faults
  ms_topics :: "(string \<times> mock_topic) list"
  ms_elfs :: "eventLogFile list"
  ms_elfLedger :: "(string \<times> string list) list"
  ms_custom :: "(string \<times> payload list) list"
  ms_customLedger :: "(string \<times> string list) list"
  ms_queryCursors :: "string \<rightharpoonup> queryCursor"
  ms_draws :: nat

text \<open>\<open>me_rand k n\<close> are the \<open>n\<close> bytes of the k-th use of the random source.\<close>

record mock_env =
  me_rand :: "nat \<Rightarrow> nat \<Rightarrow> string"
  me_NewCodec :: "string \<Rightarrow> goerror option"
  me_encode :: "string \<Rightarrow> anyval \<Rightarrow> string result"
  me_quote :: "string \<Rightarrow> string"
  me_score :: "nat \<Rightarrow> anyval"

definition randomHex :: "mock_env \<Rightarrow> nat \<Rightarrow> mock_server \<Rightarrow> string \<times> mock_server" where
  "randomHex M n s = (hex_encode (me_rand M (ms_draws s) n), s\<lparr>ms_draws := ms_draws s + 1\<rparr>)"

section \<open>Sessions\<close>

definition SetFaults :: "mock_faults \<Rightarrow> mock_server \<Rightarrow> mock_server" where "SetFaults f s = s\<lparr>ms_faults := f\<rparr>"
definition GetFaults :: "mock_server \<Rightarrow> mock_faults" where "GetFaults s = ms_faults s"

definition ExpireTokens :: "mock_server \<Rightarrow> mock_server" where "ExpireTokens s = s\<lparr>ms_tokens := Map.empty\<rparr>"

definition issueToken :: "mock_env \<Rightarrow> time \<Rightarrow> mock_server \<Rightarrow> string \<times> mock_server" where
  "issueToken M now s =
     (case randomHex M 24 s of
        (h, s1) \<Rightarrow>
          let tok = ''00DMOCK!'' @ h
          in (tok, s1\<lparr>ms_tokens := (ms_tokens s1)(tok \<mapsto> now + mo_TokenTTL (ms_opts s1))\<rparr>))"

definition validToken :: "time \<Rightarrow> mock_server \<Rightarrow> string \<Rightarrow> bool" where
  "validToken now s tok = (case ms_tokens s tok of None \<Rightarrow> False | Some exp \<Rightarrow> now < exp)"

definition bearer :: "string \<Rightarrow> string" where
  "bearer h = (if HasPrefix h ''Bearer '' then drop (length ''Bearer '') h else [])"

section \<open>OAuth\<close>

text \<open>A CSV reply has the declared content length and the bytes that are sent.\<close>

datatype http_reply = JsonReply int anyval | TextReply int string | CsvReply int string

definition json_error :: "int \<Rightarrow> (string \<times> string) list \<Rightarrow> http_reply" where
  "json_error status kvs = JsonReply status (AMap (map (\<lambda>(k, v). (k, AStr v)) kvs))"

definition sf_error :: "int \<Rightarrow> string \<Rightarrow> string \<Rightarrow> http_reply" where
  "sf_error status code msg = JsonReply status (AList [AMap [(''errorCode'', AStr code), (''message'', AStr msg)]])"

text \<open>\<^verbatim>\<open>PostForm.Get\<close>: the first value of a key, or the empty string.\<close>

definition form_get :: "attrs \<Rightarrow> string \<Rightarrow> string" where
  "form_get form k = (case map_of form k of None \<Rightarrow> [] | Some v \<Rightarrow> v)"

definition login_refusal :: "mock_options \<Rightarrow> attrs \<Rightarrow> http_reply option" where
  "login_refusal opts form =
     (let grant = form_get form ''grant_type'' in
      if grant = ''client_credentials'' then
        (if form_get form ''client_id'' \<noteq> mo_ClientId opts \<or> form_get form ''client_secret'' \<noteq> mo_ClientSecret opts
         then Some (json_error 400 [(''error'', ''invalid_client''), (''error_description'', ''invalid client credentials'')])
         else None)
      else if grant = ''urn:ietf:params:oauth:grant-type:jwt-bearer'' then
        (if form_get form ''assertion'' = [] then Some (json_error 400 [(''error'', ''invalid_grant'')]) else None)
      else if grant = ''password'' then
        Some (json_error 400 [(''error'', ''unsupported_grant_type''),
          (''error_description'', ''username-password flow is disabled'')])
      else Some (json_error 400 [(''error'', ''unsupported_grant_type'')]))"

text \<open>\<open>issued\<close> renders the instant; \<open>http_post\<close> says whether the method is POST.\<close>

definition handleToken ::
  "mock_env \<Rightarrow> (time \<Rightarrow> string) \<Rightarrow> time \<Rightarrow> bool \<Rightarrow> string \<Rightarrow> mock_server \<Rightarrow> http_reply \<times> mock_server" where
  "handleToken M issued now http_post body s =
     (if \<not> http_post then (TextReply 405 ''method not allowed'', s)
      else if 0 < mf_FailLogins (ms_faults s) then
        (json_error 500 [(''error'', ''server_error''), (''error_description'', ''injected fault'')],
         s\<lparr>ms_faults := (ms_faults s)\<lparr>mf_FailLogins := mf_FailLogins (ms_faults s) - 1\<rparr>\<rparr>)
      else case decode_form body of
        None \<Rightarrow> (json_error 400 [(''error'', ''invalid_request'')], s)
      | Some form \<Rightarrow>
          (case login_refusal (ms_opts s) form of
             Some r \<Rightarrow> (r, s)
           | None \<Rightarrow>
               (case issueToken M now s of
                  (tok, s1) \<Rightarrow>
                    let o1 = ms_opts s1 in
                    (json_error 200 [(''access_token'', tok), (''instance_url'', mo_BaseURL o1),
                       (''id'', mo_BaseURL o1 @ ''/id/'' @ mo_OrgId o1 @ ''/'' @ mo_UserId o1), (''token_type'', ''Bearer''),
                       (''issued_at'', issued now), (''signature'', ''mock'')], s1))))"

definition invalid_session :: http_reply where
  "invalid_session = sf_error 401 ''INVALID_SESSION_ID'' ''Session expired or invalid''"

definition handleUserInfo :: "time \<Rightarrow> string \<Rightarrow> mock_server \<Rightarrow> http_reply" where
  "handleUserInfo now authHeader s =
     (if \<not> validToken now s (bearer authHeader) then invalid_session
      else json_error 200 [(''user_id'', mo_UserId (ms_opts s)), (''organization_id'', mo_OrgId (ms_opts s)),
             (''preferred_username'', ''archiver@mock.example'')])"

text \<open>The token of a successful login is valid for its time to live, unless all tokens are expired.\<close>

lemma issued_token_valid:
  assumes "issueToken M now s = (tok, s')"
  shows "validToken t s' tok \<longleftrightarrow> t < now + mo_TokenTTL (ms_opts s)"
    and "\<not> validToken t (ExpireTokens s') tok"
  using assms by (auto simp: issueToken_def randomHex_def validToken_def ExpireTokens_def Let_def)

text \<open>The client-credentials flow of the collector logs in exactly with the configured credentials.\<close>

lemma clientcred_accepted:
  assumes "mf_FailLogins (ms_faults s) \<le> 0"
  shows "(\<exists>v s'. handleToken M issued now True (rq_Body (login_request url (clientcred_form cc))) s = (JsonReply 200 v, s'))
    \<longleftrightarrow> cc_ClientId cc = mo_ClientId (ms_opts s) \<and> cc_ClientSecret cc = mo_ClientSecret (ms_opts s)"
proof -
  have form: "decode_form (rq_Body (login_request url (clientcred_form cc)))
      = Some [(''client_id'', cc_ClientId cc), (''client_secret'', cc_ClientSecret cc), (''grant_type'', ''client_credentials'')]"
    by (simp add: login_request_def decode_form_encode clientcred_form_def)
  show ?thesis using assms
    by (auto simp: handleToken_def form login_refusal_def form_get_def json_error_def issueToken_def randomHex_def Let_def)
qed

end
