(* ===== verification/Mock_PubSub.thy ===== *)
theory Mock_PubSub
  imports Mock_Server Stream_Service
begin

text \<open>
  The mock's Pub/Sub service, \<^verbatim>\<open>mocksf/pubsub.go\<close>: topics with their retained events, publishing, and the
  delivery loop of a subscription. A turn of that loop gets what it reads from the shared state: the
  server at that instant and the demand that arrived since it was last read. A negative demand, which
  no collector sends, is not modelled (it makes the server panic).
\<close>

section \<open>Replay IDs and topics\<close>

definition replayBytes :: "nat \<Rightarrow> string" where
  "replayBytes seq = map (\<lambda>k. char_of (seq div 256 ^ k mod 256)) [7, 6, 5, 4, 3, 2, 1, 0]"

definition replaySeq :: "string \<Rightarrow> nat option" where
  "replaySeq b = (if length b \<noteq> 8 then None else Some (foldl (\<lambda>n c. 256 * n + byte c) 0 b))"

definition ErrorCodeAuth :: string where "ErrorCodeAuth = ''sfdc.platform.eventbus.grpc.service.auth.error''"
definition ErrorCodeReplayInvalid :: string where
  "ErrorCodeReplayInvalid = ''sfdc.platform.eventbus.grpc.subscription.fetch.replayid.corrupted''"
definition ErrorCodeTopic :: string where
  "ErrorCodeTopic = ''sfdc.platform.eventbus.grpc.subscription.topic.notfound''"

definition eventName :: "string \<Rightarrow> string" where "eventName topicName = last (Split topicName (CHR ''/''))"

definition schema_field :: "string \<times> string \<Rightarrow> string" where
  "schema_field f = (case f of (n, t) \<Rightarrow> ''    {\"name\": \"'' @ n @ ''\", \"type\": '' @ t @ ''}'')"

definition nullable :: "string \<Rightarrow> string" where
  "nullable typ = ''[\"null\", \"'' @ typ @ ''\"], \"default\": null''"

definition schemaFor :: "mock_env \<Rightarrow> string \<Rightarrow> string" where
  "schemaFor M topicName =
     ''{'' @ [CHR 0x0A] @ ''  \"type\": \"record\",'' @ [CHR 0x0A] @ ''  \"name\": '' @ me_quote M (eventName topicName) @ '',''
     @ [CHR 0x0A] @ ''  \"namespace\": \"com.sforce.eventbus\",'' @ [CHR 0x0A] @ ''  \"fields\": ['' @ [CHR 0x0A]
     @ Join (map schema_field
         [(''CreatedDate'', ''\"long\"''), (''CreatedById'', ''\"string\"''), (''EventUuid'', ''\"string\"''),
          (''EventIdentifier'', nullable ''string''), (''EventDate'', nullable ''long''), (''UserId'', nullable ''string''),
          (''Username'', nullable ''string''), (''SourceIp'', nullable ''string''), (''Score'', nullable ''double''),
          (''IsSuccess'', nullable ''boolean''), (''Sequence'', nullable ''long'')]) ('','' @ [CHR 0x0A])
     @ [CHR 0x0A] @ ''  ]'' @ [CHR 0x0A] @ ''}''"

definition newTopic :: "mock_env \<Rightarrow> string \<Rightarrow> int \<Rightarrow> mock_topic result" where
  "newTopic M name retention =
     (let schema = schemaFor M name in
      case me_NewCodec M schema of
        Some err \<Rightarrow> Inl (Wrap (''schema for '' @ name) err)
      | None \<Rightarrow> Inr \<lparr>tp_name = name, tp_schemaId = hex_encode (take 8 (Sum256 schema)), tp_schema = schema,
          tp_retention = retention, tp_events = [], tp_nextSeq = 1, tp_ledger = []\<rparr>)"

section \<open>Publishing\<close>

text \<open>A value of an Avro union, as the codec takes it.\<close>

definition avro_union :: "string \<Rightarrow> anyval \<Rightarrow> anyval" where "avro_union t v = AMap [(t, v)]"

definition event_native :: "mock_env \<Rightarrow> string \<Rightarrow> time \<Rightarrow> nat \<Rightarrow> string \<Rightarrow> string \<Rightarrow> anyval" where
  "event_native M user now seq eid uuid =
     AMap [(''CreatedDate'', AInt64 (unix_milli now)), (''CreatedById'', AStr user), (''EventUuid'', AStr uuid),
       (''EventIdentifier'', avro_union ''string'' (AStr eid)), (''EventDate'', avro_union ''long'' (AInt64 (unix_milli now))),
       (''UserId'', avro_union ''string'' (AStr user)), (''Username'', avro_union ''string'' (AStr ''user@mock.example'')),
       (''SourceIp'', avro_union ''string'' (AStr (''10.0.'' @ Itoa (int (seq mod 250)) @ ''.'' @ Itoa (int (seq div 250 mod 250))))),
       (''Score'', avro_union ''double'' (me_score M (seq mod 100))),
       (''IsSuccess'', avro_union ''boolean'' (ABool (seq mod 7 \<noteq> 0))), (''Sequence'', ANil)]"

text \<open>The loop of \<^verbatim>\<open>publish\<close>: \<open>clock k\<close> is the instant and \<open>k\<close> the number of random draws so far.\<close>

fun publish_loop ::
  "mock_env \<Rightarrow> string \<Rightarrow> (nat \<Rightarrow> time) \<Rightarrow> nat \<Rightarrow> nat \<Rightarrow> mock_topic \<Rightarrow> string list
   \<Rightarrow> string list result \<times> nat \<times> mock_topic" where
  "publish_loop M user clock 0 k t ids = (Inr ids, k, t)"
| "publish_loop M user clock (Suc n) k t ids =
     (let seq = tp_nextSeq t;
          eid = eventName (tp_name t) @ ''-'' @ pad0 10 (int seq) @ ''-'' @ hex_encode (me_rand M k 4);
          uuid = hex_encode (me_rand M (k + 1) 16)
      in case me_encode M (tp_schema t) (event_native M user (clock k) seq eid uuid) of
           Inl err \<Rightarrow> (Inl err, k + 2, t)
         | Inr payload \<Rightarrow>
             publish_loop M user clock n (k + 2)
               (t\<lparr>tp_events := tp_events t @ [\<lparr>ste_seq = seq, ste_id = eid, ste_payload = payload, ste_schemaId = tp_schemaId t\<rparr>],
                  tp_ledger := tp_ledger t @ [eid], tp_nextSeq := (seq + 1) mod 2 ^ 64\<rparr>) (ids @ [eid]))"

definition publish ::
  "mock_env \<Rightarrow> string \<Rightarrow> (nat \<Rightarrow> time) \<Rightarrow> nat \<Rightarrow> nat \<Rightarrow> mock_topic \<Rightarrow> string list result \<times> nat \<times> mock_topic" where
  "publish M user clock n k t =
     (case publish_loop M user clock n k t [] of
        (Inl err, k', t') \<Rightarrow> (Inl err, k', t')
      | (Inr ids, k', t') \<Rightarrow>
          (Inr ids, k',
           if 0 < tp_retention t' \<and> tp_retention t' < int (length (tp_events t'))
           then t'\<lparr>tp_events := drop (length (tp_events t') - nat (tp_retention t')) (tp_events t')\<rparr>
           else t'))"

definition PublishEvents ::
  "mock_env \<Rightarrow> (nat \<Rightarrow> time) \<Rightarrow> string \<Rightarrow> nat \<Rightarrow> mock_server \<Rightarrow> string list result \<times> mock_server" where
  "PublishEvents M clock topicName n s =
     (case map_of (ms_topics s) topicName of
        None \<Rightarrow> (Inl (Err (''unknown topic '' @ topicName)), s)
      | Some t \<Rightarrow>
          (case publish M (mo_UserId (ms_opts s)) clock n (ms_draws s) t of
             (r, k, t') \<Rightarrow> (r, s\<lparr>ms_draws := k, ms_topics := AList.update topicName t' (ms_topics s)\<rparr>)))"

section \<open>Sessions, topics and schemas\<close>

definition md_get :: "attrs \<Rightarrow> string \<Rightarrow> string" where
  "md_get md k = (case map_of md k of None \<Rightarrow> [] | Some v \<Rightarrow> v)"

definition grpc_error :: "string \<Rightarrow> string \<Rightarrow> bool \<Rightarrow> stream_error" where
  "grpc_error msg code unauthenticated = \<lparr>se_err = Err msg, se_code = code, se_Unauthenticated = unauthenticated\<rparr>"

definition authorize :: "time \<Rightarrow> mock_server \<Rightarrow> attrs \<Rightarrow> stream_error option" where
  "authorize now s md =
     (if \<not> validToken now s (md_get md ''accesstoken'') \<or> md_get md ''instanceurl'' = []
         \<or> md_get md ''tenantid'' \<noteq> mo_OrgId (ms_opts s)
      then Some (grpc_error ''invalid or expired session'' ErrorCodeAuth True) else None)"

record TopicInfo =
  ti_TopicName :: string
  ti_TenantGuid :: string
  ti_CanSubscribe :: bool
  ti_SchemaId :: string

definition GetTopic :: "time \<Rightarrow> mock_server \<Rightarrow> attrs \<Rightarrow> string \<Rightarrow> stream_error + TopicInfo" where
  "GetTopic now s md name =
     (case authorize now s md of
        Some err \<Rightarrow> Inl err
      | None \<Rightarrow>
          (case map_of (ms_topics s) name of
             None \<Rightarrow> Inl (grpc_error ''topic not found'' ErrorCodeTopic False)
           | Some t \<Rightarrow> Inr \<lparr>ti_TopicName = tp_name t, ti_TenantGuid = mo_OrgId (ms_opts s), ti_CanSubscribe = True,
                            ti_SchemaId = tp_schemaId t\<rparr>))"

definition GetSchema :: "time \<Rightarrow> mock_server \<Rightarrow> attrs \<Rightarrow> string \<Rightarrow> stream_error + string" where
  "GetSchema now s md schemaId =
     (case authorize now s md of
        Some err \<Rightarrow> Inl err
      | None \<Rightarrow>
          (case find (\<lambda>(n, t). tp_schemaId t = schemaId) (ms_topics s) of
             None \<Rightarrow> Inl (grpc_error ''schema not found'' [] False)
           | Some (n, t) \<Rightarrow> Inr (tp_schema t)))"

definition validSession :: "time \<Rightarrow> mock_server \<Rightarrow> attrs \<Rightarrow> bool" where
  "validSession now s md = (case map_of md ''accesstoken'' of None \<Rightarrow> False | Some tok \<Rightarrow> validToken now s tok)"

section \<open>Subscriptions\<close>

text \<open>Where a subscription starts: the sequence number last consumed. Arithmetic is on 64 bits.\<close>

definition oldest_seq :: "mock_topic \<Rightarrow> nat" where
  "oldest_seq t = (case tp_events t of [] \<Rightarrow> tp_nextSeq t | e # es \<Rightarrow> ste_seq e)"

definition minus1 :: "nat \<Rightarrow> nat" where "minus1 n = (n + (2 ^ 64 - 1)) mod 2 ^ 64"

definition start_cursor :: "mock_topic \<Rightarrow> ReplayPreset \<Rightarrow> nat option" where
  "start_cursor t preset =
     (case preset of
        LATEST \<Rightarrow> Some (minus1 (tp_nextSeq t))
      | EARLIEST \<Rightarrow> Some (minus1 (oldest_seq t))
      | CUSTOM rid \<Rightarrow>
          (case replaySeq rid of
             None \<Rightarrow> None
           | Some seq \<Rightarrow>
               if (seq + 1) mod 2 ^ 64 < oldest_seq t \<or> tp_nextSeq t \<le> seq then None else Some seq))"

definition consumer :: "storedEvent \<Rightarrow> ConsumerEvent" where
  "consumer e = \<lparr>ev_ReplayId = replayBytes (ste_seq e), ev_SchemaId = ste_schemaId e, ev_Payload = ste_payload e\<rparr>"

definition batch_after :: "mock_topic \<Rightarrow> nat \<Rightarrow> int \<Rightarrow> storedEvent list" where
  "batch_after t cursor want =
     (if 0 < want \<and> tp_events t \<noteq> [] then
        let first = ste_seq (hd (tp_events t));
            start = (if first \<le> cursor then cursor - first + 1 else 0)
        in take (nat want) (drop (min start (length (tp_events t))) (tp_events t))
      else [])"

text \<open>
  One turn: an error of the reader, the end of the stream's context, the server and the instant, the
  demand that arrives before, between and after the two reads of it, and the error of \<^verbatim>\<open>Send\<close>.
\<close>

record mock_turn =
  mt_recvErr :: "goerror option"
  mt_done :: bool
  mt_now :: time
  mt_server :: mock_server
  mt_more :: "int \<times> int \<times> int"
  mt_sendErr :: "goerror option"

record subscription =
  sub_cursor :: nat
  sub_pending :: int
  sub_delivered :: int
  sub_lastSend :: time

datatype turn_result =
    Waiting subscription
  | Ended "stream_error option"
  | Sent FetchResponse subscription
  | SentLast FetchResponse stream_error

definition wrap32 :: "int \<Rightarrow> int" where "wrap32 n = (n + 2 ^ 31) mod 2 ^ 32 - 2 ^ 31"

definition respond ::
  "nat \<Rightarrow> int \<Rightarrow> int \<Rightarrow> storedEvent list \<Rightarrow> subscription \<Rightarrow> FetchResponse \<times> subscription" where
  "respond head pending2 pending3 batch sub =
     (let cursor = (if batch \<noteq> [] then ste_seq (last batch) else if 0 < pending2 then head else sub_cursor sub);
          pending = pending3 - int (length batch)
      in (\<lparr>fr_Events = map consumer batch, fr_LatestReplayId = replayBytes cursor, fr_PendingNumRequested = wrap32 pending\<rparr>,
          sub\<lparr>sub_cursor := cursor, sub_pending := pending\<rparr>))"

definition subscription_turn :: "string \<Rightarrow> attrs \<Rightarrow> mock_turn \<Rightarrow> subscription \<Rightarrow> turn_result" where
  "subscription_turn name md u sub =
     (case mt_recvErr u of
        Some err \<Rightarrow>
          Ended (if err = EOF then None else Some \<lparr>se_err = err, se_code = [], se_Unauthenticated = False\<rparr>)
      | None \<Rightarrow>
          if mt_done u then Ended (Some \<lparr>se_err = ErrCanceled, se_code = [], se_Unauthenticated = False\<rparr>)
          else if \<not> validSession (mt_now u) (mt_server u) md
          then Ended (Some (grpc_error ''session expired'' ErrorCodeAuth True))
          else
            case (map_of (ms_topics (mt_server u)) name, mt_more u) of
              (None, _) \<Rightarrow> Waiting sub
            | (Some t, (m1, m2, m3)) \<Rightarrow>
                let pending1 = sub_pending sub + m1;
                    opts = ms_opts (mt_server u);
                    batch = batch_after t (sub_cursor sub) (min pending1 (mo_MaxEventsPerResponse opts));
                    idle = (batch = [] \<and> mo_KeepaliveInterval opts \<le> mt_now u - sub_lastSend sub)
                in if batch = [] \<and> \<not> idle then Waiting (sub\<lparr>sub_pending := pending1 + m2 + m3\<rparr>)
                   else case respond (minus1 (tp_nextSeq t)) (pending1 + m2) (pending1 + m2 + m3) batch sub of
                     (resp, sub1) \<Rightarrow>
                       (case mt_sendErr u of
                          Some err \<Rightarrow> Ended (Some \<lparr>se_err = err, se_code = [], se_Unauthenticated = False\<rparr>)
                        | None \<Rightarrow>
                            let delivered = sub_delivered sub + int (length batch);
                                drop_after = mf_DropStreamAfterEvents (ms_faults (mt_server u))
                            in if 0 < drop_after \<and> drop_after \<le> delivered
                               then SentLast resp (grpc_error ''injected stream drop'' [] False)
                               else Sent resp (sub1\<lparr>sub_delivered := delivered, sub_lastSend := mt_now u\<rparr>)))"

text \<open>The responses of a subscription and how it ended; \<open>None\<close> while it is open.\<close>

fun subscription_loop ::
  "string \<Rightarrow> attrs \<Rightarrow> mock_turn list \<Rightarrow> subscription \<Rightarrow> FetchResponse list \<times> stream_error option option" where
  "subscription_loop name md [] sub = ([], None)"
| "subscription_loop name md (u # turns) sub =
     (case subscription_turn name md u sub of
        Waiting sub' \<Rightarrow> subscription_loop name md turns sub'
      | Ended r \<Rightarrow> ([], Some r)
      | SentLast resp err \<Rightarrow> ([resp], Some (Some err))
      | Sent resp sub' \<Rightarrow>
          (case subscription_loop name md turns sub' of (resps, r) \<Rightarrow> (resp # resps, r)))"

definition mock_Subscribe ::
  "time \<Rightarrow> mock_server \<Rightarrow> attrs \<Rightarrow> FetchRequest \<Rightarrow> mock_turn list \<Rightarrow> FetchResponse list \<times> stream_error option option" where
  "mock_Subscribe now s md req turns =
     (case authorize now s md of
        Some err \<Rightarrow> ([], Some (Some err))
      | None \<Rightarrow>
          (case map_of (ms_topics s) (fq_TopicName req) of
             None \<Rightarrow> ([], Some (Some (grpc_error ''topic not found'' ErrorCodeTopic False)))
           | Some t \<Rightarrow>
               (case start_cursor t (fq_ReplayPreset req) of
                  None \<Rightarrow>
                    ([], Some (Some (grpc_error ''replay ID is invalid or outside the retention window''
                                       ErrorCodeReplayInvalid False)))
                | Some cursor \<Rightarrow>
                    subscription_loop (tp_name t) md turns
                      \<lparr>sub_cursor = cursor, sub_pending = fq_NumRequested req, sub_delivered = 0, sub_lastSend = now\<rparr>)))"

section \<open>Replay IDs\<close>

lemma replaySeq_replayBytes:
  assumes "n < 2 ^ 64"
  shows "replaySeq (replayBytes n) = Some n"
proof -
  define q where "q k = n div 256 ^ k" for k
  have step: "256 * q j + q k mod 256 = q k" if "j = Suc k" for j k
    by (simp only: that q_def power_Suc2 div_mult2_eq mult_div_mod_eq)
  have steps: "256 * q 7 + q 6 mod 256 = q 6" "256 * q 6 + q 5 mod 256 = q 5" "256 * q 5 + q 4 mod 256 = q 4"
    "256 * q 4 + q 3 mod 256 = q 3" "256 * q 3 + q 2 mod 256 = q 2" "256 * q 2 + q 1 mod 256 = q 1"
    "256 * q 1 + q 0 mod 256 = q 0"
    by (rule step, simp)+
  have "q 7 < 256" using assms by (simp add: q_def less_mult_imp_div_less)
  then have top: "256 * 0 + q 7 mod 256 = q 7" by simp
  have "foldl (\<lambda>n c. 256 * n + byte c) 0 (replayBytes n)
      = 256 * (256 * (256 * (256 * (256 * (256 * (256 * (256 * 0 + q 7 mod 256) + q 6 mod 256) + q 5 mod 256)
          + q 4 mod 256) + q 3 mod 256) + q 2 mod 256) + q 1 mod 256) + q 0 mod 256"
    by (simp add: replayBytes_def q_def)
  also have "\<dots> = q 0" by (simp only: top steps)
  finally show ?thesis by (simp add: replaySeq_def replayBytes_def q_def)
qed

text \<open>Every replay ID of eight bytes is the encoding of its sequence number.\<close>

lemma big_endian_digits:
  "map (\<lambda>k. char_of (foldl (\<lambda>n c. 256 * n + byte c) 0 cs div 256 ^ k mod 256)) (rev [0..<length cs]) = (cs :: string)"
proof (induction cs rule: rev_induct)
  case (snoc c cs)
  let ?N = "foldl (\<lambda>n c. 256 * n + byte c) 0 cs :: nat"
  have c: "byte c < 256" by simp
  have digit: "(256 * ?N + byte c) div 256 ^ Suc k = ?N div 256 ^ k" for k
    using c by (simp add: div_mult2_eq)
  have "rev [0..<length (cs @ [c])] = map Suc (rev [0..<length cs]) @ [0]"
    by (simp add: upt_conv_Cons map_Suc_upt [symmetric] rev_map del: upt_Suc)
  moreover have "char_of (256 * ?N + byte c) = c"
    by (subst char_of_mod_256 [symmetric]) (simp del: char_of_mod_256)
  ultimately show ?case using snoc.IH c by (simp add: digit comp_def del: power_Suc)
qed simp

lemma replayBytes_replaySeq: "replaySeq b = Some n \<Longrightarrow> replayBytes n = b"
proof -
  assume "replaySeq b = Some n"
  then have "length b = 8" "n = foldl (\<lambda>n c. 256 * n + byte c) 0 b" by (auto simp: replaySeq_def split: if_splits)
  moreover have "rev [0..<8] = [7, 6, 5, 4, 3, 2, 1, 0 :: nat]" by (simp add: upt_rec)
  ultimately show ?thesis using big_endian_digits [of b] by (simp add: replayBytes_def)
qed

lemma replayBytes_inject: "m < 2 ^ 64 \<Longrightarrow> n < 2 ^ 64 \<Longrightarrow> replayBytes m = replayBytes n \<longleftrightarrow> m = n"
  using replaySeq_replayBytes by (metis option.inject)

section \<open>Events of a topic\<close>

text \<open>The retained events are the last ones published, numbered without a gap, and the ledger has every identifier.\<close>

definition contiguous :: "mock_topic \<Rightarrow> bool" where
  "contiguous t \<longleftrightarrow> 1 \<le> tp_nextSeq t \<and> length (tp_events t) \<le> tp_nextSeq t - 1
     \<and> map ste_seq (tp_events t) = [tp_nextSeq t - length (tp_events t) ..< tp_nextSeq t]
     \<and> length (tp_ledger t) = tp_nextSeq t - 1
     \<and> map ste_id (tp_events t) = drop (length (tp_ledger t) - length (tp_events t)) (tp_ledger t)"

lemma newTopic_contiguous: "newTopic M name r = Inr t \<Longrightarrow> contiguous t"
  by (auto simp: newTopic_def contiguous_def Let_def split: option.splits)

lemma publish_loop_contiguous:
  assumes "publish_loop M user clock n k t ids = (r, k', t')" "contiguous t" "tp_nextSeq t + n < 2 ^ 64"
  shows "contiguous t' \<and> (\<exists>new. tp_events t' = tp_events t @ new) \<and> tp_retention t' = tp_retention t
    \<and> tp_nextSeq t' \<le> tp_nextSeq t + n \<and> (\<exists>more. tp_ledger t' = tp_ledger t @ more \<and> (\<forall>all. r = Inr all \<longrightarrow> all = ids @ more))"
  using assms
proof (induction n arbitrary: k t ids)
  case (Suc n)
  let ?eid = "eventName (tp_name t) @ ''-'' @ pad0 10 (int (tp_nextSeq t)) @ ''-'' @ hex_encode (me_rand M k 4)"
  show ?case
  proof (cases "me_encode M (tp_schema t) (event_native M user (clock k) (tp_nextSeq t) ?eid (hex_encode (me_rand M (k + 1) 16)))")
    case (Inl err)
    then show ?thesis using Suc.prems by (auto simp: Let_def)
  next
    case (Inr payload)
    let ?e = "\<lparr>ste_seq = tp_nextSeq t, ste_id = ?eid, ste_payload = payload, ste_schemaId = tp_schemaId t\<rparr>"
    let ?t = "t\<lparr>tp_events := tp_events t @ [?e], tp_ledger := tp_ledger t @ [?eid], tp_nextSeq := tp_nextSeq t + 1\<rparr>"
    have L: "publish_loop M user clock n (k + 2) ?t (ids @ [?eid]) = (r, k', t')"
      using Suc.prems(1,3) Inr by (simp add: Let_def)
    have "contiguous ?t"
      using Suc.prems(2) by (auto simp: contiguous_def Suc_diff_le upt_Suc_append)
    from Suc.IH [OF L this] Suc.prems(3) show ?thesis by auto
  qed
qed auto

lemma contiguous_drop:
  assumes "contiguous t" "d \<le> length (tp_events t)"
  shows "contiguous (t\<lparr>tp_events := drop d (tp_events t)\<rparr>)"
proof -
  have "tp_nextSeq t - length (tp_events t) + d = tp_nextSeq t - (length (tp_events t) - d)"
    "length (tp_ledger t) - length (tp_events t) + d = length (tp_ledger t) - (length (tp_events t) - d)"
    using assms by (auto simp: contiguous_def)
  then show ?thesis
    using assms by (auto simp: contiguous_def drop_map [symmetric] simp del: One_nat_def) (simp_all add: add.commute)
qed

lemma publish_contiguous:
  assumes "publish M user clock n k t = (r, k', t')" "contiguous t" "tp_nextSeq t + n < 2 ^ 64"
  shows "contiguous t'" "tp_retention t' = tp_retention t"
    and "\<exists>more. tp_ledger t' = tp_ledger t @ more \<and> (\<forall>all. r = Inr all \<longrightarrow> all = more)"
    and "tp_retention t \<le> 0 \<Longrightarrow> \<exists>new. tp_events t' = tp_events t @ new"
proof -
  obtain r1 k1 t1 where L: "publish_loop M user clock n k t [] = (r1, k1, t1)" by (metis prod_cases3)
  note loop = publish_loop_contiguous [OF L assms(2,3)]
  let ?d = "length (tp_events t1) - nat (tp_retention t1)"
  have t': "t' = t1 \<or> 0 < tp_retention t1 \<and> t' = t1\<lparr>tp_events := drop ?d (tp_events t1)\<rparr>" "r = r1"
    using assms(1) L by (auto simp: publish_def split: sum.splits if_splits)
  have trimmed: "contiguous (t1\<lparr>tp_events := drop ?d (tp_events t1)\<rparr>)"
    using loop by (intro contiguous_drop) auto
  show "contiguous t'" "tp_retention t' = tp_retention t" using t'(1) loop trimmed by auto
  show "\<exists>more. tp_ledger t' = tp_ledger t @ more \<and> (\<forall>all. r = Inr all \<longrightarrow> all = more)"
    using t' loop by auto
  show "\<exists>new. tp_events t' = tp_events t @ new" if "tp_retention t \<le> 0" using t'(1) loop that by auto
qed

section \<open>What a subscriber receives\<close>

text \<open>
  \<open>h\<close> is everything published to a topic that keeps all its events; a snapshot is the topic after the
  first \<open>n\<close> of them.
\<close>

definition history :: "storedEvent list \<Rightarrow> bool" where
  "history h \<longleftrightarrow> map ste_seq h = [1..<length h + 1] \<and> length h + 1 < 2 ^ 64"

definition snapshot :: "storedEvent list \<Rightarrow> mock_topic \<Rightarrow> nat \<Rightarrow> bool" where
  "snapshot h t n \<longleftrightarrow> n \<le> length h \<and> tp_events t = take n h \<and> tp_nextSeq t = n + 1"

text \<open>A turn whose demand does not change while it is served, on a topic that has events.\<close>

definition quiet_turn :: "storedEvent list \<Rightarrow> string \<Rightarrow> mock_turn \<Rightarrow> nat \<Rightarrow> bool" where
  "quiet_turn h name u n \<longleftrightarrow> 0 \<le> fst (mt_more u) \<and> snd (mt_more u) = (0, 0) \<and> 0 < n
     \<and> 0 < mo_MaxEventsPerResponse (ms_opts (mt_server u))
     \<and> (\<exists>t. map_of (ms_topics (mt_server u)) name = Some t \<and> snapshot h t n)"

fun quiet_turns :: "storedEvent list \<Rightarrow> string \<Rightarrow> nat \<Rightarrow> mock_turn list \<Rightarrow> bool" where
  "quiet_turns h name n [] = True"
| "quiet_turns h name n (u # us) \<longleftrightarrow> (\<exists>m \<ge> n. quiet_turn h name u m \<and> quiet_turns h name m us)"

fun responses_ok :: "ConsumerEvent list \<Rightarrow> nat \<Rightarrow> FetchResponse list \<Rightarrow> bool" where
  "responses_ok topic p [] = True"
| "responses_ok topic p (r # rs) \<longleftrightarrow>
     p + length (fr_Events r) \<le> length topic \<and> fr_Events r = take (length (fr_Events r)) (drop p topic)
     \<and> (fr_Events r = [] \<and> 0 < fr_PendingNumRequested r \<and> fr_LatestReplayId r \<noteq> [] \<longrightarrow>
          (\<exists>n \<le> p. position topic (fr_LatestReplayId r) n))
     \<and> responses_ok topic (p + length (fr_Events r)) rs"

lemma history_seq: "history h \<Longrightarrow> i < length h \<Longrightarrow> ste_seq (h ! i) = i + 1"
proof -
  assume h: "history h" "i < length h"
  have "map ste_seq h ! i = [1..<length h + 1] ! i" using h(1) by (simp only: history_def)
  also have "\<dots> = i + 1" using h(2) by (simp del: upt_Suc)
  finally show ?thesis using h(2) by simp
qed

lemma batch_after_history:
  assumes "history h" "snapshot h t n" "p \<le> n"
  shows "batch_after t p want = (if 0 < want then take (nat want) (drop p (take n h)) else [])"
proof (cases "n = 0")
  case False
  then have "h \<noteq> []" "ste_seq (hd (take n h)) = 1"
    using assms(2) history_seq [OF assms(1), of 0] False by (cases h; auto simp: snapshot_def hd_conv_nth take_Cons')+
  then show ?thesis using assms False by (cases p) (simp_all add: batch_after_def snapshot_def Let_def)
qed (use assms in \<open>simp add: batch_after_def snapshot_def\<close>)

lemma consumer_history:
  assumes "history h" "0 < n" "n \<le> length h"
  shows "position (map consumer h) (replayBytes n) n"
  using assms history_seq [OF assms(1), of "n - 1"] by (auto simp: position_def consumer_def)

lemma minus1_Suc: "n + 1 < 2 ^ 64 \<Longrightarrow> minus1 (n + 1) = n"
  by (simp add: minus1_def)

lemma take_own_length: "xs = take k ys \<Longrightarrow> xs = take (length xs) ys"
  by (simp add: min_def)

lemma respond_ok:
  assumes h: "history h" "snapshot h t n" "sub_cursor sub \<le> n" "0 < n"
    and batch: "batch = batch_after t (sub_cursor sub) (min pending maxEvents)" "0 < maxEvents" "0 \<le> pending"
    and R: "respond (minus1 (tp_nextSeq t)) pending pending batch sub = (resp, sub')"
  shows "responses_ok (map consumer h) (sub_cursor sub) [resp]"
    and "sub_cursor sub' = sub_cursor sub + length (fr_Events resp) \<and> sub_cursor sub' \<le> n \<and> 0 \<le> sub_pending sub'"
proof -
  let ?p = "sub_cursor sub" and ?w = "nat (min pending maxEvents)"
  have n: "n \<le> length h" "tp_nextSeq t = n + 1" using h(2) by (simp_all add: snapshot_def)
  have head: "minus1 (tp_nextSeq t) = n" unfolding n(2) by (rule minus1_Suc) (use h(1) n(1) in \<open>simp add: history_def\<close>)
  have b: "batch = (if 0 < pending then take ?w (drop ?p (take n h)) else [])"
    using batch_after_history [OF h(1-3)] batch by simp
  have len: "?p + length batch \<le> n" "int (length batch) \<le> pending"
    using h(3) batch(3) n(1) by (auto simp: b)
  have "batch = take (if 0 < pending then min ?w (n - ?p) else 0) (drop ?p h)" by (simp add: b drop_take)
  then have part: "batch = take (length batch) (drop ?p h)" by (rule take_own_length)
  then have prefix: "map consumer batch = take (length batch) (drop ?p (map consumer h))"
    by (metis drop_map take_map)
  have lastseq: "ste_seq (last batch) = ?p + length batch" if "batch \<noteq> []"
  proof -
    have "last batch = h ! (?p + (length batch - 1))"
    proof -
      have "last batch = batch ! (length batch - 1)" using that by (rule last_conv_nth)
      also have "\<dots> = take (length batch) (drop ?p h) ! (length batch - 1)" using part by simp
      also have "\<dots> = h ! (?p + (length batch - 1))" using that len(1) n(1) by (simp add: nth_append)
      finally show ?thesis .
    qed
    then show ?thesis using history_seq [OF h(1)] that len(1) n(1) by (cases batch) auto
  qed
  have "0 < pending \<Longrightarrow> batch = [] \<Longrightarrow> ?p = n" using b batch(2) h(3) n(1) by (auto split: if_splits)
  then have cursor: "sub_cursor sub' = ?p + length batch" "sub_pending sub' = pending - int (length batch)"
    and resp: "fr_Events resp = map consumer batch" "fr_LatestReplayId resp = replayBytes (?p + length batch)"
      "fr_PendingNumRequested resp = wrap32 (pending - int (length batch))"
    using R lastseq by (auto simp: respond_def Let_def head)
  show "sub_cursor sub' = ?p + length (fr_Events resp) \<and> sub_cursor sub' \<le> n \<and> 0 \<le> sub_pending sub'"
    using cursor len by (simp add: resp)
  have "position (map consumer h) (replayBytes ?p) ?p" if "batch = []" "0 < wrap32 pending"
  proof -
    have "pending \<noteq> 0" using that(2) by (auto simp: wrap32_def)
    then have "?p = n" using \<open>0 < pending \<Longrightarrow> batch = [] \<Longrightarrow> ?p = n\<close> that(1) batch(3) by simp
    then show ?thesis using consumer_history [OF h(1,4)] n(1) by simp
  qed
  then show "responses_ok (map consumer h) ?p [resp]"
    using prefix len(1) n(1) by (auto simp: resp)
qed

lemma subscription_turn_ok:
  assumes "history h" "quiet_turn h name u n" "sub_cursor sub \<le> n" "0 \<le> sub_pending sub"
  shows "case subscription_turn name md u sub of
      Waiting sub' \<Rightarrow> sub_cursor sub' = sub_cursor sub \<and> 0 \<le> sub_pending sub'
    | Ended r \<Rightarrow> True
    | SentLast resp err \<Rightarrow> responses_ok (map consumer h) (sub_cursor sub) [resp]
    | Sent resp sub' \<Rightarrow> responses_ok (map consumer h) (sub_cursor sub) [resp]
        \<and> sub_cursor sub' = sub_cursor sub + length (fr_Events resp) \<and> sub_cursor sub' \<le> n \<and> 0 \<le> sub_pending sub'"
proof -
  obtain t where t: "map_of (ms_topics (mt_server u)) name = Some t" "snapshot h t n"
    using assms(2) by (auto simp: quiet_turn_def)
  obtain m where m: "mt_more u = (m, 0, 0)" "0 \<le> m" using assms(2) by (cases "mt_more u") (auto simp: quiet_turn_def)
  let ?opts = "ms_opts (mt_server u)"
  let ?batch = "batch_after t (sub_cursor sub) (min (sub_pending sub + m) (mo_MaxEventsPerResponse ?opts))"
  obtain resp sub1 where R: "respond (minus1 (tp_nextSeq t)) (sub_pending sub + m) (sub_pending sub + m) ?batch sub = (resp, sub1)"
    by fastforce
  note ok = respond_ok [OF assms(1) t(2) assms(3) _ refl _ _ R]
  have pos: "0 < n" "0 < mo_MaxEventsPerResponse ?opts" "0 \<le> sub_pending sub + m"
    using assms(2,4) m by (auto simp: quiet_turn_def)
  show ?thesis
    using ok [OF pos] pos(3)
    by (auto simp: subscription_turn_def t(1) m(1) R Let_def simp del: responses_ok.simps split: option.split)
qed

lemma responses_ok_Cons:
  "responses_ok topic p [r] \<Longrightarrow> responses_ok topic (p + length (fr_Events r)) rs \<Longrightarrow> responses_ok topic p (r # rs)"
  by simp

lemma subscription_loop_ok:
  assumes "history h" "quiet_turns h name n turns" "sub_cursor sub \<le> n" "0 \<le> sub_pending sub"
  shows "responses_ok (map consumer h) (sub_cursor sub) (fst (subscription_loop name md turns sub))"
  using assms(2-4)
proof (induction turns arbitrary: n sub)
  case (Cons u turns)
  obtain m where m: "n \<le> m" "quiet_turn h name u m" "quiet_turns h name m turns" using Cons.prems(1) by auto
  have le: "sub_cursor sub \<le> m" using m(1) Cons.prems(2) by simp
  note ok = subscription_turn_ok [OF assms(1) m(2) le Cons.prems(3), of md]
  show ?case
  proof (cases "subscription_turn name md u sub")
    case (Waiting sub')
    with ok have w: "sub_cursor sub' = sub_cursor sub" "0 \<le> sub_pending sub'" by simp_all
    have "sub_cursor sub' \<le> m" using w(1) le by simp
    from Cons.IH [OF m(3) this w(2)] show ?thesis using Waiting w(1) by simp
  next
    case (Sent resp sub')
    with ok have w: "responses_ok (map consumer h) (sub_cursor sub) [resp]"
      "sub_cursor sub' = sub_cursor sub + length (fr_Events resp)" "sub_cursor sub' \<le> m" "0 \<le> sub_pending sub'"
      by simp_all
    obtain resps r where L: "subscription_loop name md turns sub' = (resps, r)" by fastforce
    have "responses_ok (map consumer h) (sub_cursor sub) (resp # resps)"
      using Cons.IH [OF m(3) w(3,4)] L w(2) by (intro responses_ok_Cons [OF w(1)]) simp
    then show ?thesis by (simp add: Sent L)
  next
    case (SentLast resp err)
    with ok show ?thesis by (simp del: responses_ok.simps)
  qed simp
qed simp

text \<open>What a session of the collector receives of a subscription's responses, in any interleaving with its other events.\<close>

fun received :: "(time \<times> session_event) list \<Rightarrow> FetchResponse list" where
  "received [] = []"
| "received ((t, Recv r) # evs) = r # received evs"
| "received (_ # evs) = received evs"

lemma received_in_order:
  "responses_ok topic p (received evs @ rest) \<Longrightarrow> in_order topic p evs"
  by (induction evs arbitrary: p rule: received.induct) auto

lemma history_distinct: "history h \<Longrightarrow> distinct (map ev_ReplayId (map consumer h))"
proof -
  assume h: "history h"
  have "map ev_ReplayId (map consumer h) = map replayBytes (map ste_seq h)" by (simp add: consumer_def)
  moreover have "inj_on replayBytes (set (map ste_seq h))"
    using h by (intro inj_onI) (auto simp: history_def replayBytes_inject)
  moreover have "distinct (map ste_seq h)" using h by (simp only: history_def distinct_upt)
  ultimately show ?thesis by (simp only: distinct_map)
qed

lemma start_cursor_ok:
  assumes "history h" "snapshot h t n" "start_cursor t preset = Some p"
  shows "p \<le> n" "preset = EARLIEST \<Longrightarrow> p = 0" "preset = LATEST \<Longrightarrow> p = n"
    "preset = CUSTOM rid \<Longrightarrow> rid \<noteq> replayBytes 0 \<Longrightarrow> position (map consumer h) rid p"
proof -
  have n: "n \<le> length h" "tp_nextSeq t = n + 1" "n + 1 < 2 ^ 64" "tp_events t = take n h"
    using assms(1,2) by (auto simp: snapshot_def history_def)
  have "oldest_seq t = 1"
  proof (cases "take n h")
    case (Cons e es)
    then have "h \<noteq> []" "h ! 0 = e" by (cases h; cases n; simp)+
    then show ?thesis using Cons n(4) history_seq [OF assms(1), of 0] by (simp add: oldest_seq_def)
  qed (use n in \<open>auto simp: oldest_seq_def\<close>)
  then have first: "minus1 (oldest_seq t) = 0" using minus1_Suc [of 0] by simp
  have last: "minus1 (tp_nextSeq t) = n" unfolding n(2) by (rule minus1_Suc [OF n(3)])
  show "p \<le> n" "preset = EARLIEST \<Longrightarrow> p = 0" "preset = LATEST \<Longrightarrow> p = n"
    using assms(3) first last n(2) by (auto simp: start_cursor_def split: ReplayPreset.splits option.splits if_splits)
  show "position (map consumer h) rid p" if "preset = CUSTOM rid" "rid \<noteq> replayBytes 0"
  proof -
    have seq: "replaySeq rid = Some p" "p \<le> n"
      using assms(3) that(1) n(2) by (auto simp: start_cursor_def split: option.splits if_splits)
    then have "rid = replayBytes p" using replayBytes_replaySeq by simp
    then show ?thesis using that(2) seq(2) n(1) consumer_history [OF assms(1)] by (cases "p = 0") auto
  qed
qed

end
