(* ===== verification/Mock_Rest.thy ===== *)
theory Mock_Rest
  imports Mock_PubSub Verify_Archive EventLog_Queries
begin

text \<open>
  The mock's REST service, \<^verbatim>\<open>mocksf/rest.go\<close>: regular expressions on the query text, queries with their
  pages and cursors, log files and custom rows.
\<close>

section \<open>Regular expressions\<close>

text \<open>
  The operators the patterns use, on bytes: a class, a sequence, a greedy or lazy repetition of a class, a
  capture, the start of the text and a word boundary. \<open>rx_match\<close> lists the matches at a position in the
  order of preference. Case-insensitive letters fold within ASCII.
\<close>

datatype rx =
    Cls "char \<Rightarrow> bool"
  | Then rx rx
  | Rep bool "char \<Rightarrow> bool"
  | Cap rx
  | Bol
  | Wordb

record rx_state =
  rx_prev :: "char option"
  rx_rest :: string
  rx_caps :: "string list"

definition rx_skip :: "nat \<Rightarrow> rx_state \<Rightarrow> rx_state" where
  "rx_skip n st =
     (if n = 0 then st
      else st\<lparr>rx_prev := Some (rx_rest st ! (n - 1)), rx_rest := drop n (rx_rest st)\<rparr>)"

definition word_at :: "char option \<Rightarrow> bool" where
  "word_at c = (case c of None \<Rightarrow> False | Some x \<Rightarrow> is_word_char x)"

definition rx_next :: "rx_state \<Rightarrow> char option" where
  "rx_next st = (case rx_rest st of [] \<Rightarrow> None | c # _ \<Rightarrow> Some c)"

fun rx_match :: "rx \<Rightarrow> rx_state \<Rightarrow> rx_state list" where
  "rx_match (Cls p) st = (case rx_rest st of [] \<Rightarrow> [] | c # _ \<Rightarrow> if p c then [rx_skip 1 st] else [])"
| "rx_match (Then a b) st = concat (map (rx_match b) (rx_match a st))"
| "rx_match (Rep greedy p) st =
     (let ns = [0..<length (takeWhile p (rx_rest st)) + 1]
      in map (\<lambda>n. rx_skip n st) (if greedy then rev ns else ns))"
| "rx_match (Cap a) st =
     map (\<lambda>st'. st'\<lparr>rx_caps := rx_caps st' @ [take (length (rx_rest st) - length (rx_rest st')) (rx_rest st)]\<rparr>) (rx_match a st)"
| "rx_match Bol st = (if rx_prev st = None then [st] else [])"
| "rx_match Wordb st = (if word_at (rx_prev st) \<noteq> word_at (rx_next st) then [st] else [])"

text \<open>\<^verbatim>\<open>FindStringSubmatch\<close> and \<^verbatim>\<open>FindAllStringSubmatch\<close> of patterns that match no empty text.\<close>

fun rx_find :: "rx \<Rightarrow> char option \<Rightarrow> string \<Rightarrow> rx_state option" where
  "rx_find r p [] = (case rx_match r \<lparr>rx_prev = p, rx_rest = [], rx_caps = []\<rparr> of [] \<Rightarrow> None | m # _ \<Rightarrow> Some m)"
| "rx_find r p (c # s) =
     (case rx_match r \<lparr>rx_prev = p, rx_rest = c # s, rx_caps = []\<rparr> of
        m # _ \<Rightarrow> Some m
      | [] \<Rightarrow> rx_find r (Some c) s)"

definition FindStringSubmatch :: "rx \<Rightarrow> string \<Rightarrow> string list option" where
  "FindStringSubmatch r s = map_option rx_caps (rx_find r None s)"

fun rx_all :: "nat \<Rightarrow> rx \<Rightarrow> char option \<Rightarrow> string \<Rightarrow> string list list" where
  "rx_all 0 r p s = []"
| "rx_all (Suc n) r p s =
     (case rx_find r p s of
        None \<Rightarrow> []
      | Some m \<Rightarrow> rx_caps m # rx_all n r (rx_prev m) (rx_rest m))"

text \<open>A match takes at least one byte, so the length of the text is enough fuel.\<close>

definition FindAllStringSubmatch :: "rx \<Rightarrow> string \<Rightarrow> string list list" where
  "FindAllStringSubmatch r s = rx_all (length s + 1) r None s"

definition rx_some :: "bool \<Rightarrow> (char \<Rightarrow> bool) \<Rightarrow> rx" where "rx_some greedy p = Then (Cls p) (Rep greedy p)"

fun rx_lit :: "bool \<Rightarrow> string \<Rightarrow> rx" where
  "rx_lit ci [] = Rep True (\<lambda>c. False)"
| "rx_lit ci (c # s) = Then (Cls (\<lambda>x. if ci then lower_char x = lower_char c else x = c)) (rx_lit ci s)"

fun rx_seq :: "rx list \<Rightarrow> rx" where
  "rx_seq [] = Rep True (\<lambda>c. False)"
| "rx_seq (r # rs) = Then r (rx_seq rs)"

definition rx_space :: "char \<Rightarrow> bool" where
  "rx_space c \<longleftrightarrow> c = CHR '' '' \<or> c = CHR 0x09 \<or> c = CHR 0x0A \<or> c = CHR 0x0C \<or> c = CHR 0x0D"

definition rx_timechar :: "char \<Rightarrow> bool" where
  "rx_timechar c \<longleftrightarrow> is_digit c \<or> c \<in> set ''T:-+.Z''"

definition reFrom :: rx where
  "reFrom = rx_seq [Wordb, rx_lit True ''FROM'', rx_some True rx_space, Cap (rx_some True is_word_char)]"

definition reBound :: "string \<Rightarrow> rx" where
  "reBound cmp = rx_seq [Cap (rx_some True is_word_char), Rep True rx_space, rx_lit False cmp, Rep True rx_space,
     Cap (rx_some True rx_timechar)]"

definition reType :: rx where
  "reType = rx_seq [rx_lit False ''EventType'', Rep True rx_space, rx_lit False ''='', Rep True rx_space,
     rx_lit False [CHR 0x27], Cap (rx_some True is_word_char), rx_lit False [CHR 0x27]]"

definition reOrder :: rx where
  "reOrder = rx_seq [rx_lit True ''ORDER'', rx_some True rx_space, rx_lit True ''BY'', rx_some True rx_space,
     Cap (rx_some True is_word_char)]"

definition reSelect :: rx where
  "reSelect = rx_seq [Bol, Rep True rx_space, rx_lit True ''SELECT'', rx_some True rx_space,
     Cap (rx_some False (\<lambda>c. c \<noteq> CHR 0x0A)), rx_some True rx_space, rx_lit True ''FROM'', Cls rx_space]"

section \<open>Generated data\<close>

text \<open>\<^verbatim>\<open>2006-01-02T15:04:05.000+0000\<close>, in which the zone is literal.\<close>

definition format_sf :: "time \<Rightarrow> string" where
  "format_sf t =
     pad0 4 (Year t) @ ''-'' @ pad0 2 (Month t) @ ''-'' @ pad0 2 (Day t) @ ''T''
     @ pad0 2 (Hour t) @ '':'' @ pad0 2 (Minute t) @ '':'' @ pad0 2 (Second t)
     @ ''.'' @ pad0 3 (t mod 1000000000 div 1000000) @ ''+0000''"

definition format_compact_ms :: "time \<Rightarrow> string" where
  "format_compact_ms t =
     pad0 4 (Year t) @ pad0 2 (Month t) @ pad0 2 (Day t) @ pad0 2 (Hour t) @ pad0 2 (Minute t) @ pad0 2 (Second t)
     @ ''.'' @ pad0 3 (t mod 1000000000 div 1000000)"

fun scan_literal :: "string \<Rightarrow> unit scan" where
  "scan_literal [] = return_scan ()"
| "scan_literal (c # l) = bind_scan (scan_char c) (\<lambda>_. scan_literal l)"

definition parse_sf :: "string \<Rightarrow> time option" where
  "parse_sf = full_scan (scan_with True scan_frac3 (bind_scan (scan_literal ''+0000'') (\<lambda>_. return_scan 0)))"

text \<open>The bounds of a query hold no character that \<^verbatim>\<open>%q\<close> escapes.\<close>

definition parseSFTime :: "string \<Rightarrow> time result" where
  "parseSFTime v =
     (case parse_RFC3339Nano v of
        Some t \<Rightarrow> Inr t
      | None \<Rightarrow> (case parse_sf v of
          Some t \<Rightarrow> Inr t
        | None \<Rightarrow> (case parse_LogDateFormat v of Some t \<Rightarrow> Inr t | None \<Rightarrow> Inl (Err (''bad datetime '' @ [CHR 0x22] @ v @ [CHR 0x22])))))"

text \<open>\<^verbatim>\<open>csv.Writer\<close>: a field that needs quotes is quoted, its quotes doubled.\<close>

definition csv_needs_quotes :: "string \<Rightarrow> bool" where
  "csv_needs_quotes f \<longleftrightarrow> f \<noteq> [] \<and>
     (f = [CHR 0x5C, CHR ''.''] \<or> list_ex (\<lambda>c. c \<in> {CHR '','', CHR 0x22, CHR 0x0D, CHR 0x0A}) f
      \<or> space_rune (hd (runes f)))"

definition csv_write_field :: "string \<Rightarrow> string" where
  "csv_write_field f =
     (if csv_needs_quotes f
      then [CHR 0x22] @ concat (map (\<lambda>c. if c = CHR 0x22 then [c, c] else [c]) f) @ [CHR 0x22] else f)"

definition csv_write_row :: "string list \<Rightarrow> string" where
  "csv_write_row fs = Join (map csv_write_field fs) '','' @ [CHR 0x0A]"

definition elf_header :: "string list" where
  "elf_header = [''EVENT_TYPE'', ''TIMESTAMP'', ''REQUEST_ID'', ''ORGANIZATION_ID'', ''USER_ID'', ''RUN_TIME'', ''CLIENT_IP'',
     ''URI'', ''LOGIN_TYPE'']"

definition elf_request_id :: "string \<Rightarrow> string \<Rightarrow> nat \<Rightarrow> string" where
  "elf_request_id fid eventType i = fid @ ''-'' @ ToLower eventType @ ''-'' @ pad0 6 (int i)"

definition elf_row :: "mock_options \<Rightarrow> string \<Rightarrow> string \<Rightarrow> time \<Rightarrow> nat \<Rightarrow> nat \<Rightarrow> string list" where
  "elf_row opts fid eventType created rows i =
     [eventType, format_compact_ms (created - int (rows - i) * second), elf_request_id fid eventType i, mo_OrgId opts,
      mo_UserId opts, Itoa (10 + int (i mod 500)), ''10.1.'' @ Itoa (int (i mod 250)) @ ''.'' @ Itoa (int (i div 250 mod 250)),
      ''/lightning/r/Account/001MOCK'' @ Itoa (int i), ''Application, with \"quotes\"'']"

definition truncate_hour :: "time \<Rightarrow> time" where "truncate_hour t = t - (t - zero_time) mod hour"

definition elf_id :: "mock_server \<Rightarrow> string" where
  "elf_id s = ''0AT'' @ pad0 12 (int (length (ms_elfs s)) + 1)"

definition AddEventLogFile :: "string \<Rightarrow> time \<Rightarrow> nat \<Rightarrow> mock_server \<Rightarrow> string \<times> mock_server" where
  "AddEventLogFile eventType created rows s =
     (let fid = elf_id s;
          body = concat (map csv_write_row (elf_header # map (elf_row (ms_opts s) fid eventType created rows) [0..<rows]))
      in (fid, s\<lparr>ms_elfs := ms_elfs s @ [\<lparr>elf_Id = fid, elf_EventType = eventType, elf_CreatedDate = created,
                   elf_LogDate = truncate_hour created - hour, elf_Interval = ''Hourly'', elf_Sequence = 1, elf_csv = body,
                   elf_logDateRaw = [], elf_deleted = False\<rparr>],
                 ms_elfLedger := AList.update fid (map (elf_request_id fid eventType) [0..<rows]) (ms_elfLedger s)\<rparr>))"

definition AddEventLogFileRaw :: "string \<Rightarrow> time \<Rightarrow> string \<Rightarrow> string \<Rightarrow> mock_server \<Rightarrow> string \<times> mock_server" where
  "AddEventLogFileRaw eventType created body logDate s =
     (let fid = elf_id s
      in (fid, s\<lparr>ms_elfs := ms_elfs s @ [\<lparr>elf_Id = fid, elf_EventType = eventType, elf_CreatedDate = created,
                   elf_LogDate = truncate_hour created, elf_Interval = ''Hourly'', elf_Sequence = 1, elf_csv = body,
                   elf_logDateRaw = logDate, elf_deleted = False\<rparr>]\<rparr>))"

definition list_at :: "string \<Rightarrow> (string \<times> 'a list) list \<Rightarrow> 'a list" where
  "list_at k al = (case map_of al k of None \<Rightarrow> [] | Some v \<Rightarrow> v)"

definition custom_row :: "mock_options \<Rightarrow> string \<Rightarrow> time \<Rightarrow> string \<Rightarrow> nat \<Rightarrow> payload" where
  "custom_row opts object created rid k =
     [(''attributes'', AMap [(''type'', AStr object),
         (''url'', AStr (''/services/data/v64.0/sobjects/'' @ object @ ''/'' @ rid))]),
      (''Id'', AStr rid), (''Action'', AStr ''changedApexClass''), (''Section'', AStr ''Apex Class''),
      (''CreatedDate'', AStr (format_sf created)), (''SystemModstamp'', AStr (format_sf created)),
      (''CreatedById'', AStr (mo_UserId opts)), (''BigNumber'', AInt64 (9007199254740993 + int k))]"

fun AddCustomRecords :: "string \<Rightarrow> time \<Rightarrow> nat \<Rightarrow> mock_server \<Rightarrow> string list \<times> mock_server" where
  "AddCustomRecords object created 0 s = ([], s)"
| "AddCustomRecords object created (Suc n) s =
     (let ledger = list_at object (ms_customLedger s);
          rid = ''0YM'' @ pad0 12 (int (length ledger) + 1);
          row = custom_row (ms_opts s) object created rid (length ledger);
          s1 = s\<lparr>ms_custom := AList.update object (list_at object (ms_custom s) @ [row]) (ms_custom s),
                 ms_customLedger := AList.update object (ledger @ [rid]) (ms_customLedger s)\<rparr>
      in case AddCustomRecords object created n s1 of (rids, s2) \<Rightarrow> (rid # rids, s2))"

definition SetCustomField :: "string \<Rightarrow> string list \<Rightarrow> string \<Rightarrow> time \<Rightarrow> mock_server \<Rightarrow> mock_server" where
  "SetCustomField object rids fld v s =
     (case map_of (ms_custom s) object of
        None \<Rightarrow> s
      | Some rows \<Rightarrow>
          s\<lparr>ms_custom := AList.update object
              (map (\<lambda>row. if str_field row ''Id'' \<in> Some ` set rids then AList.update fld (AStr (format_sf v)) row else row) rows)
              (ms_custom s)\<rparr>)"

definition DeleteEventLogFileBody :: "string \<Rightarrow> mock_server \<Rightarrow> mock_server" where
  "DeleteEventLogFileBody fid s =
     s\<lparr>ms_elfs := map (\<lambda>f. if elf_Id f = fid then f\<lparr>elf_csv := [], elf_deleted := True\<rparr> else f) (ms_elfs s)\<rparr>"

section \<open>Queries\<close>

record bound =
  bd_field :: string
  bd_t :: time
  bd_lower :: bool

fun parse_bounds :: "bool \<Rightarrow> string list list \<Rightarrow> bound list result" where
  "parse_bounds lower [] = Inr []"
| "parse_bounds lower (m # ms) =
     (case parseSFTime (m ! 1) of
        Inl err \<Rightarrow> Inl err
      | Inr t \<Rightarrow>
          (case parse_bounds lower ms of
             Inl err \<Rightarrow> Inl err
           | Inr bs \<Rightarrow> Inr (\<lparr>bd_field = m ! 0, bd_t = t, bd_lower = lower\<rparr> # bs)))"

definition query_bounds :: "string \<Rightarrow> bound list result" where
  "query_bounds q =
     (case parse_bounds True (FindAllStringSubmatch (reBound ''>='') q) of
        Inl err \<Rightarrow> Inl err
      | Inr lower \<Rightarrow>
          (case parse_bounds False (FindAllStringSubmatch (reBound ''<='') q) of
             Inl err \<Rightarrow> Inl err
           | Inr upper \<Rightarrow> Inr (lower @ upper)))"

definition inRange :: "bound list \<Rightarrow> (string \<Rightarrow> time option) \<Rightarrow> bool" where
  "inRange bounds val =
     list_all (\<lambda>b. case val (bd_field b) of
                 None \<Rightarrow> False
               | Some t \<Rightarrow> \<not> (bd_lower b \<and> t < bd_t b \<or> \<not> bd_lower b \<and> bd_t b < t)) bounds"

definition elf_logDate :: "eventLogFile \<Rightarrow> string" where
  "elf_logDate f = (if elf_logDateRaw f \<noteq> [] then elf_logDateRaw f else format_sf (elf_LogDate f))"

definition elf_record :: "string \<Rightarrow> eventLogFile \<Rightarrow> payload" where
  "elf_record version f =
     (let url = ''/services/data/'' @ version @ ''/sobjects/EventLogFile/'' @ elf_Id f in
      [(''attributes'', AMap [(''type'', AStr ''EventLogFile''), (''url'', AStr url)]), (''Id'', AStr (elf_Id f)),
       (''EventType'', AStr (elf_EventType f)), (''CreatedDate'', AStr (format_sf (elf_CreatedDate f))),
       (''LogDate'', AStr (elf_logDate f)), (''Interval'', AStr (elf_Interval f)), (''Sequence'', AInt (elf_Sequence f)),
       (''LogFileLength'', ANum (Itoa (int (length (elf_csv f))) @ ''.0'')), (''LogFile'', AStr (url @ ''/LogFile''))])"

definition filterFields :: "payload \<Rightarrow> string \<Rightarrow> payload" where
  "filterFields row q =
     (case FindStringSubmatch reSelect q of
        None \<Rightarrow> row
      | Some m \<Rightarrow>
          fold (\<lambda>f out. case map_of row (TrimSpace f) of None \<Rightarrow> out | Some v \<Rightarrow> AList.update (TrimSpace f) v out)
            (Split (m ! 0) (CHR '',''))
            [(''attributes'', case map_of row ''attributes'' of None \<Rightarrow> ANil | Some v \<Rightarrow> v)])"

definition custom_time :: "payload \<Rightarrow> string \<Rightarrow> time option" where
  "custom_time row fld =
     (case str_field row fld of
        None \<Rightarrow> None
      | Some v \<Rightarrow> if v = [] then None else (case parseSFTime v of Inl err \<Rightarrow> None | Inr t \<Rightarrow> Some t))"

definition select_records :: "string \<Rightarrow> string \<Rightarrow> string \<Rightarrow> bound list \<Rightarrow> mock_server \<Rightarrow> payload list" where
  "select_records q version from_name bounds s =
     (if EqualFold from_name ''EventLogFile'' then
        (let types = map hd (FindAllStringSubmatch reType q)
         in map (elf_record version)
              (filter (\<lambda>f. (types = [] \<or> elf_EventType f \<in> set types) \<and> inRange bounds (\<lambda>fld. Some (elf_CreatedDate f)))
                (ms_elfs s)))
      else map (\<lambda>row. filterFields row q) (filter (\<lambda>row. inRange bounds (custom_time row)) (list_at from_name (ms_custom s))))"

definition order_records :: "string \<Rightarrow> payload list \<Rightarrow> payload list" where
  "order_records q records =
     (case FindStringSubmatch reOrder q of
        None \<Rightarrow> records
      | Some m \<Rightarrow> sort_key (\<lambda>r. Sprint (case map_of r (m ! 0) of None \<Rightarrow> ANil | Some v \<Rightarrow> v)) records)"

text \<open>
  A cursor copies its rows, which the code may share with the table. A page: the records from an offset, whether they are the last ones, and the URL of the next page, whose
  cursor keeps the records. The page size is positive.
\<close>

record mock_page =
  mp_records :: "payload list"
  mp_total :: nat
  mp_done :: bool
  mp_next :: string

definition respondPage ::
  "mock_env \<Rightarrow> payload list \<Rightarrow> int \<Rightarrow> string \<Rightarrow> mock_server \<Rightarrow> mock_page \<times> mock_server" where
  "respondPage M records offset version s =
     (let total = length records;
          end = min (offset + mo_QueryPageSize (ms_opts s)) (int total);
          page = take (nat (end - offset)) (drop (nat offset) records)
      in if mo_TruncateQueryResults (ms_opts s)
         then (\<lparr>mp_records = page, mp_total = total, mp_done = False, mp_next = []\<rparr>, s)
         else if end < int total then
           (case randomHex M 6 s of
              (h, s1) \<Rightarrow>
                let cursor = ''01gMOCK'' @ h @ ''-'' @ Itoa end
                in (\<lparr>mp_records = page, mp_total = total, mp_done = False,
                      mp_next = ''/services/data/'' @ version @ ''/query/'' @ cursor\<rparr>,
                    s1\<lparr>ms_queryCursors := (ms_queryCursors s1)(cursor \<mapsto> \<lparr>qcur_records = records, qcur_offset = end\<rparr>)\<rparr>))
         else (\<lparr>mp_records = page, mp_total = total, mp_done = True, mp_next = []\<rparr>, s))"

definition page_reply :: "mock_page \<Rightarrow> http_reply" where
  "page_reply p =
     JsonReply 200 (AMap ([(''totalSize'', AInt (int (mp_total p))), (''done'', ABool (mp_done p)),
       (''records'', AList (map AMap (mp_records p)))]
       @ (if mp_next p = [] then [] else [(''nextRecordsUrl'', AStr (mp_next p))])))"

definition malformed_query :: "string \<Rightarrow> http_reply" where
  "malformed_query msg = sf_error 400 ''MALFORMED_QUERY'' msg"

definition query_page :: "mock_env \<Rightarrow> string \<Rightarrow> string \<Rightarrow> mock_server \<Rightarrow> (http_reply + mock_page) \<times> mock_server" where
  "query_page M q version s =
     (case FindStringSubmatch reFrom q of
        None \<Rightarrow> (Inl (malformed_query ''missing FROM''), s)
      | Some from_m \<Rightarrow>
          (case query_bounds q of
             Inl err \<Rightarrow> (Inl (malformed_query (case err of Err msg \<Rightarrow> msg | _ \<Rightarrow> [])), s)
           | Inr bounds \<Rightarrow>
               (case respondPage M (order_records q (select_records q version (from_m ! 0) bounds s)) 0 version s of
                  (p, s1) \<Rightarrow> (Inr p, s1))))"

definition handleQuery :: "mock_env \<Rightarrow> string \<Rightarrow> string \<Rightarrow> mock_server \<Rightarrow> http_reply \<times> mock_server" where
  "handleQuery M q version s =
     (case query_page M q version s of (Inl r, s1) \<Rightarrow> (r, s1) | (Inr p, s1) \<Rightarrow> (page_reply p, s1))"

definition next_page :: "mock_env \<Rightarrow> string \<Rightarrow> string \<Rightarrow> mock_server \<Rightarrow> (http_reply + mock_page) \<times> mock_server" where
  "next_page M cursor version s =
     (let s1 = s\<lparr>ms_queryCursors := (ms_queryCursors s)(cursor := None)\<rparr> in
      case ms_queryCursors s cursor of
        None \<Rightarrow> (Inl (sf_error 400 ''INVALID_QUERY_LOCATOR'' ''invalid query locator''), s1)
      | Some c \<Rightarrow> (case respondPage M (qcur_records c) (qcur_offset c) version s1 of (p, s2) \<Rightarrow> (Inr p, s2)))"

definition handleQueryMore :: "mock_env \<Rightarrow> string \<Rightarrow> string \<Rightarrow> mock_server \<Rightarrow> http_reply \<times> mock_server" where
  "handleQueryMore M cursor version s =
     (case next_page M cursor version s of (Inl r, s1) \<Rightarrow> (r, s1) | (Inr p, s1) \<Rightarrow> (page_reply p, s1))"

section \<open>Log files and routing\<close>

definition handleLogFile :: "string \<Rightarrow> mock_server \<Rightarrow> http_reply \<times> mock_server" where
  "handleLogFile fid s =
     (let found = find (\<lambda>f. elf_Id f = fid) (rev (ms_elfs s));
          cut = mf_TruncateNextDownload (ms_faults s);
          s1 = (if found \<noteq> None \<and> 0 < cut
                then s\<lparr>ms_faults := (ms_faults s)\<lparr>mf_TruncateNextDownload := 0\<rparr>\<rparr> else s)
      in case found of
           None \<Rightarrow> (sf_error 404 ''NOT_FOUND'' ''not found'', s1)
         | Some f \<Rightarrow>
             if elf_deleted f then (sf_error 404 ''NOT_FOUND'' ''not found'', s1)
             else
               let body = elf_csv f in
               (CsvReply (int (length body)) (if 0 < cut \<and> cut < int (length body) then take (nat cut) body else body), s1))"

definition takeRestFault :: "mock_server \<Rightarrow> bool \<times> mock_server" where
  "takeRestFault s =
     (if 0 < mf_FailRestRequests (ms_faults s)
      then (True, s\<lparr>ms_faults := (ms_faults s)\<lparr>mf_FailRestRequests := mf_FailRestRequests (ms_faults s) - 1\<rparr>\<rparr>)
      else (False, s))"

definition mock_limits :: anyval where
  "mock_limits = AMap (map (\<lambda>(n, mx, left). (n, AMap [(''Max'', AInt mx), (''Remaining'', AInt left)]))
     [(''DailyApiRequests'', 1000000, 999000), (''DailyStreamingApiEvents'', 1000000, 998000), (''PermissionSets'', 1500, 1400)])"

definition trim_prefix :: "string \<Rightarrow> string \<Rightarrow> string" where
  "trim_prefix p s = (if HasPrefix s p then drop (length p) s else s)"

definition trim_suffix :: "string \<Rightarrow> string \<Rightarrow> string" where
  "trim_suffix x s = (if HasSuffix s x then take (length s - length x) s else s)"

definition not_found :: http_reply where "not_found = TextReply 404 ''404 page not found''"

text \<open>\<open>q\<close> is the decoded query parameter.\<close>

definition handleData ::
  "mock_env \<Rightarrow> time \<Rightarrow> string \<Rightarrow> string \<Rightarrow> string \<Rightarrow> mock_server \<Rightarrow> http_reply \<times> mock_server" where
  "handleData M now authHeader path q s =
     (if \<not> validToken now s (bearer authHeader) then (invalid_session, s)
      else case takeRestFault s of
        (True, s1) \<Rightarrow> (sf_error 500 ''UNKNOWN_EXCEPTION'' ''injected fault'', s1)
      | (False, s1) \<Rightarrow>
          let tail = trim_prefix ''/services/data/'' path;
              version = takeWhile (\<lambda>c. c \<noteq> CHR ''/'') tail
          in if version = tail then (not_found, s1)
             else
               let rest = drop (length version + 1) tail in
               if rest = ''query'' \<or> rest = ''tooling/query'' then handleQuery M q version s1
               else if HasPrefix rest ''query/'' then handleQueryMore M (trim_prefix ''query/'' rest) version s1
               else if HasPrefix rest ''sobjects/EventLogFile/'' \<and> HasSuffix rest ''/LogFile''
               then handleLogFile (trim_suffix ''/LogFile'' (trim_prefix ''sobjects/EventLogFile/'' rest)) s1
               else if rest = ''limits'' then (JsonReply 200 mock_limits, s1)
               else (not_found, s1))"

section \<open>Reading all pages\<close>

text \<open>
  A client that asks for \<^verbatim>\<open>nextRecordsUrl\<close> until a page is the last one; \<open>others k\<close> is what other requests do to
  the server before the k-th of its requests. \<open>None\<close> when it runs into an error or out of fuel.
\<close>

definition next_url :: "string \<Rightarrow> string \<Rightarrow> string" where
  "next_url version cursor = ''/services/data/'' @ version @ ''/query/'' @ cursor"

definition page_cursor :: "string \<Rightarrow> mock_page \<Rightarrow> string" where
  "page_cursor version p = drop (length (next_url version [])) (mp_next p)"

fun read_pages ::
  "mock_env \<Rightarrow> string \<Rightarrow> (nat \<Rightarrow> mock_server \<Rightarrow> mock_server) \<Rightarrow> nat \<Rightarrow> mock_page \<Rightarrow> mock_server \<Rightarrow> mock_page list option" where
  "read_pages M version others 0 p s = None"
| "read_pages M version others (Suc n) p s =
     (if mp_done p then Some [p]
      else if mp_next p = [] then None
      else case next_page M (page_cursor version p) version (others n s) of
        (Inl r, s1) \<Rightarrow> None
      | (Inr p', s1) \<Rightarrow> map_option ((#) p) (read_pages M version others n p' s1))"

definition read_query ::
  "mock_env \<Rightarrow> string \<Rightarrow> (nat \<Rightarrow> mock_server \<Rightarrow> mock_server) \<Rightarrow> nat \<Rightarrow> string \<Rightarrow> mock_server \<Rightarrow> mock_page list option" where
  "read_query M version others n q s =
     (case query_page M q version s of (Inl r, s1) \<Rightarrow> None | (Inr p, s1) \<Rightarrow> read_pages M version others n p s1)"

text \<open>Other requests keep the cursor and the options.\<close>

definition polite :: "(nat \<Rightarrow> mock_server \<Rightarrow> mock_server) \<Rightarrow> bool" where
  "polite others \<longleftrightarrow> (\<forall>n s c r. ms_queryCursors s c = Some r \<longrightarrow> ms_queryCursors (others n s) c = Some r)
     \<and> (\<forall>n s. ms_opts (others n s) = ms_opts s)"

text \<open>The URL of a page is routed to its cursor.\<close>

lemma next_url_routed:
  assumes "validToken now s (bearer h)" "mf_FailRestRequests (ms_faults s) \<le> 0" "CHR ''/'' \<notin> set version"
  shows "handleData M now h (next_url version cursor) q s = handleQueryMore M cursor version s"
proof -
  let ?path = "next_url version cursor"
  have tail: "trim_prefix ''/services/data/'' ?path = version @ ''/query/'' @ cursor"
    by (simp add: trim_prefix_def next_url_def HasPrefix_def)
  have v: "takeWhile (\<lambda>c. c \<noteq> CHR ''/'') (version @ ''/query/'' @ cursor) = version"
    using assms(3) by (subst takeWhile_append2) auto
  have rest: "drop (length version + 1) (version @ ''/query/'' @ cursor) = ''query/'' @ cursor" by simp
  have "HasPrefix (''query/'' @ cursor) ''query/''" "trim_prefix ''query/'' (''query/'' @ cursor) = cursor"
    "''query/'' @ cursor \<noteq> ''tooling/query''" "''query/'' @ cursor \<noteq> ''query''"
    by (simp_all add: HasPrefix_def trim_prefix_def)
  then show ?thesis
    using assms(1,2) by (simp add: handleData_def takeRestFault_def tail v rest Let_def del: append_Cons)
qed

lemma respondPage_cases:
  assumes "respondPage M records (int k) version s = (p, s1)" "k \<le> length records"
    and "0 < mo_QueryPageSize (ms_opts s)" "\<not> mo_TruncateQueryResults (ms_opts s)"
  defines "m \<equiv> nat (mo_QueryPageSize (ms_opts s))"
  shows "ms_opts s1 = ms_opts s"
    and "length records \<le> k + m \<Longrightarrow> mp_done p \<and> mp_records p = drop k records"
    and "k + m < length records \<Longrightarrow> \<not> mp_done p \<and> mp_records p = take m (drop k records)
      \<and> mp_next p = next_url version (page_cursor version p)
      \<and> ms_queryCursors s1 (page_cursor version p) = Some \<lparr>qcur_records = records, qcur_offset = int (k + m)\<rparr>"
proof -
  have size: "mo_QueryPageSize (ms_opts s) = int m" using assms(3) by (simp add: m_def)
  obtain h s2 where R: "randomHex M 6 s = (h, s2)" "ms_opts s2 = ms_opts s" by (simp add: randomHex_def)
  show "ms_opts s1 = ms_opts s"
    using assms(1,4) R by (auto simp: respondPage_def Let_def split: if_splits)
  show "length records \<le> k + m \<Longrightarrow> mp_done p \<and> mp_records p = drop k records"
    using assms(1,4) size by (auto simp: respondPage_def Let_def min_def split: if_splits)
  show "k + m < length records \<Longrightarrow> \<not> mp_done p \<and> mp_records p = take m (drop k records)
      \<and> mp_next p = next_url version (page_cursor version p)
      \<and> ms_queryCursors s1 (page_cursor version p) = Some \<lparr>qcur_records = records, qcur_offset = int (k + m)\<rparr>"
    using assms(1,4) size R(1) by (auto simp: respondPage_def Let_def next_url_def page_cursor_def)
qed

lemma read_pages_from:
  assumes "polite others" "respondPage M records (int k) version s = (p, s1)" "k \<le> length records"
    and "0 < mo_QueryPageSize (ms_opts s)" "\<not> mo_TruncateQueryResults (ms_opts s)" "length records - k < n"
  shows "\<exists>pages. read_pages M version others n p s1 = Some pages \<and> concat (map mp_records pages) = drop k records
    \<and> list_all (\<lambda>p. length (mp_records p) \<le> nat (mo_QueryPageSize (ms_opts s))) pages
    \<and> list_all (\<lambda>p. \<not> mp_done p) (butlast pages) \<and> mp_done (last pages)"
  using assms(2-)
proof (induction n arbitrary: k s p s1)
  case (Suc n)
  let ?m = "nat (mo_QueryPageSize (ms_opts s))"
  note R = respondPage_cases [OF Suc.prems(1-4)]
  show ?case
  proof (cases "length records \<le> k + ?m")
    case True
    then show ?thesis using R(2) by auto
  next
    case False
    let ?c = "page_cursor version p" and ?s = "others n s1"
    let ?s' = "?s\<lparr>ms_queryCursors := (ms_queryCursors ?s)(page_cursor version p := None)\<rparr>"
    have p: "\<not> mp_done p" "mp_records p = take ?m (drop k records)" "mp_next p \<noteq> []"
        "ms_queryCursors s1 ?c = Some \<lparr>qcur_records = records, qcur_offset = int (k + ?m)\<rparr>"
      using R(3) False by (auto simp: next_url_def)
    have o: "ms_opts ?s' = ms_opts s" using R(1) assms(1) by (simp add: polite_def)
    have c: "ms_queryCursors ?s ?c = Some \<lparr>qcur_records = records, qcur_offset = int (k + ?m)\<rparr>"
      using p(4) assms(1) by (simp add: polite_def)
    obtain p' s2 where P: "respondPage M records (int (k + ?m)) version ?s' = (p', s2)" by fastforce
    have "length records - (k + ?m) < n" using Suc.prems(3,5) False by linarith
    then obtain pages where pages: "read_pages M version others n p' s2 = Some pages"
        "concat (map mp_records pages) = drop (k + ?m) records"
        "list_all (\<lambda>p. length (mp_records p) \<le> ?m) pages" "list_all (\<lambda>p. \<not> mp_done p) (butlast pages)" "mp_done (last pages)"
      using Suc.IH [OF P] Suc.prems(3-5) False o by auto
    have "pages \<noteq> []" using pages(1) by (cases n) (auto split: if_splits prod.splits sum.splits)
    moreover have "read_pages M version others (Suc n) p s1 = Some (p # pages)"
      using p(1,3) c P pages(1) by (simp add: next_page_def Let_def)
    moreover have "take ?m (drop k records) @ drop (k + ?m) records = drop k records"
      by (metis add.commute append_take_drop_id drop_drop)
    ultimately show ?thesis using pages(2-) p(1,2) by (intro exI [of _ "p # pages"]) simp
  qed
qed simp

text \<open>
  The pages of a query are all its records, each once and in order, in pages of the configured size of
  which only the last one is marked as the last, whatever other requests are served in between.
\<close>

theorem mock_pages_complete:
  assumes "polite others" "respondPage M records 0 version s = (p, s1)"
    and "0 < mo_QueryPageSize (ms_opts s)" "\<not> mo_TruncateQueryResults (ms_opts s)"
  shows "\<exists>pages. read_pages M version others (length records + 1) p s1 = Some pages
    \<and> concat (map mp_records pages) = records
    \<and> list_all (\<lambda>p. length (mp_records p) \<le> nat (mo_QueryPageSize (ms_opts s))) pages
    \<and> list_all (\<lambda>p. \<not> mp_done p) (butlast pages) \<and> mp_done (last pages)"
  using read_pages_from [where k = 0 and n = "length records + 1" and M = M and version = version, OF assms(1)] assms(2-)
  by simp

end
