(* ===== verification/Mock_Run.thy ===== *)
theory Mock_Run
  imports Mock_PubSub
begin

text \<open>
  The collector run against the mock: the mock's delivery loop satisfies the contract \<open>feed_ok\<close> that the
  subscriber relies on, so what the collector stores covers a part of the mock's ledger.
\<close>

section \<open>The collector against the mock\<close>

text \<open>
  Subscription \<open>i\<close> is made at \<open>at i\<close> of the server \<open>s i\<close> with the metadata \<open>md i\<close> and served in \<open>turns i\<close>. The
  collector asks for its own topic and a positive number of events, and stores no replay ID from before the
  first event; its session receives some of the responses in their order.
\<close>

definition mock_serves ::
  "string \<Rightarrow> (nat \<Rightarrow> time) \<Rightarrow> (nat \<Rightarrow> mock_server) \<Rightarrow> (nat \<Rightarrow> attrs) \<Rightarrow> (nat \<Rightarrow> mock_turn list)
   \<Rightarrow> ('s, 'l) env \<Rightarrow> bool" where
  "mock_serves name at s md turns E \<longleftrightarrow>
     (\<forall>i req sc. env_Subscribe E i req = Inr sc \<longrightarrow>
        fq_TopicName req = name \<and> 0 \<le> fq_NumRequested req \<and> fq_ReplayPreset req \<noteq> CUSTOM (replayBytes 0)
        \<and> (\<exists>rest. received (sc_events sc) @ rest = fst (mock_Subscribe (at i) (s i) (md i) req (turns i))))"

text \<open>The topic keeps all its events, had \<open>start i\<close> of them at subscription \<open>i\<close>, and its turns are quiet.\<close>

definition mock_topic_ok ::
  "storedEvent list \<Rightarrow> string \<Rightarrow> (nat \<Rightarrow> nat) \<Rightarrow> (nat \<Rightarrow> mock_server) \<Rightarrow> (nat \<Rightarrow> mock_turn list) \<Rightarrow> bool" where
  "mock_topic_ok h name start s turns \<longleftrightarrow> history h
     \<and> (\<forall>i. \<exists>t. map_of (ms_topics (s i)) name = Some t \<and> tp_name t = name \<and> snapshot h t (start i)
              \<and> quiet_turns h name (start i) (turns i))"

lemma mock_Subscribe_ok:
  assumes "history h" "map_of (ms_topics s) name = Some t" "tp_name t = name" "snapshot h t n" "quiet_turns h name n turns"
    and "fq_TopicName req = name" "0 \<le> fq_NumRequested req"
  shows "fst (mock_Subscribe now s md req turns) = []
    \<or> (\<exists>p. start_cursor t (fq_ReplayPreset req) = Some p
          \<and> responses_ok (map consumer h) p (fst (mock_Subscribe now s md req turns)))"
proof (cases "authorize now s md = None")
  case True
  show ?thesis
  proof (cases "start_cursor t (fq_ReplayPreset req)")
    case (Some p)
    let ?sub = "\<lparr>sub_cursor = p, sub_pending = fq_NumRequested req, sub_delivered = 0, sub_lastSend = now\<rparr>"
    have "responses_ok (map consumer h) (sub_cursor ?sub) (fst (subscription_loop name md turns ?sub))"
      by (rule subscription_loop_ok [OF assms(1,5)]) (use start_cursor_ok(1) [OF assms(1,4) Some] assms(7) in simp_all)
    then show ?thesis using True Some assms(2,3,6) by (simp add: mock_Subscribe_def)
  qed (use True assms(2,6) in \<open>simp add: mock_Subscribe_def\<close>)
qed (auto simp: mock_Subscribe_def)

lemma responses_none: "received evs = [] \<Longrightarrow> no_response evs \<and> in_order topic p evs"
  by (induction evs rule: received.induct) (auto simp: no_response_def)

lemma mock_feed:
  assumes "mock_topic_ok h name start s turns" "mock_serves name at s md turns E"
  shows "feed_ok (map consumer h) start E"
proof -
  have h: "history h" using assms(1) by (simp add: mock_topic_ok_def)
  have start: "start i \<le> length (map consumer h)" for i
    using assms(1) by (auto simp: mock_topic_ok_def snapshot_def)
  have sub: "case fq_ReplayPreset req of
      CUSTOM rid \<Rightarrow> (\<exists>n. position (map consumer h) rid n \<and> in_order (map consumer h) n (sc_events sc)) \<or> no_response (sc_events sc)
    | EARLIEST \<Rightarrow> in_order (map consumer h) 0 (sc_events sc)
    | LATEST \<Rightarrow> in_order (map consumer h) (start i) (sc_events sc)" if E: "env_Subscribe E i req = Inr sc" for i req sc
  proof -
    obtain rest where req: "fq_TopicName req = name" "0 \<le> fq_NumRequested req" "fq_ReplayPreset req \<noteq> CUSTOM (replayBytes 0)"
      and rest: "received (sc_events sc) @ rest = fst (mock_Subscribe (at i) (s i) (md i) req (turns i))"
      using assms(2) E unfolding mock_serves_def by blast
    obtain t where t: "map_of (ms_topics (s i)) name = Some t" "tp_name t = name" "snapshot h t (start i)"
        "quiet_turns h name (start i) (turns i)" using assms(1) unfolding mock_topic_ok_def by blast
    consider "received (sc_events sc) = []"
      | p where "start_cursor t (fq_ReplayPreset req) = Some p" "in_order (map consumer h) p (sc_events sc)"
      using mock_Subscribe_ok [OF h t req(1,2), of "at i" "md i"] rest received_in_order by (metis append_is_Nil_conv)
    then show ?thesis
    proof cases
      case 1
      then show ?thesis using responses_none by (auto split: ReplayPreset.split)
    next
      case 2
      note start_cursor_ok [OF h t(3) 2(1)]
      then show ?thesis using 2(2) req(3) by (cases "fq_ReplayPreset req") auto
    qed
  qed
  show ?thesis unfolding feed_ok_def using history_distinct [OF h] start sub by blast
qed

text \<open>The decoder keeps the identifier that the mock encoded.\<close>

definition ids_kept :: "storedEvent list \<Rightarrow> decoder \<Rightarrow> bool" where
  "ids_kept h dec \<longleftrightarrow> (\<forall>e \<in> set h. \<forall>t flds ty. dec t (consumer e) = Inr (flds, ty) \<longrightarrow>
     str_field flds ''EventIdentifier'' = Some (ste_id e))"


section \<open>A concrete run\<close>

text \<open>A mock with one topic of two events, and a collector that reads it from the start.\<close>

definition wit_event :: "nat \<Rightarrow> string \<Rightarrow> storedEvent" where
  "wit_event n i = \<lparr>ste_seq = n, ste_id = i, ste_payload = i, ste_schemaId = []\<rparr>"

definition wit_h :: "storedEvent list" where "wit_h = [wit_event 1 ''e1'', wit_event 2 ''e2'']"

definition wit_mock_topic :: mock_topic where
  "wit_mock_topic = \<lparr>tp_name = ''t'', tp_schemaId = [], tp_schema = [], tp_retention = 0, tp_events = wit_h, tp_nextSeq = 3,
     tp_ledger = [''e1'', ''e2'']\<rparr>"

definition wit_mock :: mock_server where
  "wit_mock = \<lparr>ms_opts = mock_defaults \<lparr>mo_BaseURL = [], mo_OrgId = ''o'', mo_UserId = [], mo_ClientId = [],
       mo_ClientSecret = [], mo_TokenTTL = 0, mo_Topics = [''t''], mo_RetentionEvents = 0, mo_KeepaliveInterval = 0,
       mo_MaxEventsPerResponse = 0, mo_QueryPageSize = 0, mo_EventLogTypes = [], mo_EventLogRows = 0, mo_CustomObjects = [],
       mo_TruncateQueryResults = False\<rparr>,
     ms_tokens = [''tok'' \<mapsto> 1000], ms_faults = no_faults, ms_topics = [(''t'', wit_mock_topic)], ms_elfs = [],
     ms_elfLedger = [], ms_custom = [], ms_customLedger = [], ms_queryCursors = Map.empty, ms_draws = 0\<rparr>"

definition wit_md :: attrs where
  "wit_md = [(''accesstoken'', ''tok''), (''instanceurl'', ''u''), (''tenantid'', ''o'')]"

definition wit_turn :: mock_turn where
  "wit_turn = \<lparr>mt_recvErr = None, mt_done = False, mt_now = 1, mt_server = wit_mock, mt_more = (0, 0, 0), mt_sendErr = None\<rparr>"

definition wit_mock_subscribe :: "nat \<Rightarrow> FetchRequest \<Rightarrow> stream result" where
  "wit_mock_subscribe i req =
     (if fq_ReplayPreset req = EARLIEST \<and> fq_TopicName req = ''t'' \<and> 0 \<le> fq_NumRequested req
      then Inr \<lparr>sc_Send0 = None, sc_Send = (\<lambda>n. None),
        sc_events = map (\<lambda>r. (1, Recv r)) (fst (mock_Subscribe 0 wit_mock wit_md req [wit_turn]))\<rparr>
      else Inl EOF)"

definition wit_mock_dec :: decoder where
  "wit_mock_dec t ev = Inr ([(''EventIdentifier'', AStr (ev_Payload ev))], ''Login'')"

definition wit_mock_env :: "'s sink_write \<Rightarrow> ('s, redis_view) env" where
  "wit_mock_env w = service_env wit_codec w (wit_store ''a'') (Key (so_Instance wit_opts) (so_Topic wit_opts))
     (so_LeaseTTL wit_opts) [(1, Reply, Map.empty)] (\<lambda>n. Inr ''o'') wit_mock_subscribe wit_mock_dec (\<lambda>n. 1) (\<lambda>n. 0)"

lemma wit_snapshot: "snapshot wit_h wit_mock_topic 2"
  by (simp add: snapshot_def wit_h_def wit_mock_topic_def)

lemma wit_mock_facts:
  "ms_topics wit_mock = [(''t'', wit_mock_topic)]" "mo_MaxEventsPerResponse (ms_opts wit_mock) = 100"
  "mo_OrgId (ms_opts wit_mock) = ''o''" "ms_tokens wit_mock = [''tok'' \<mapsto> 1000]" "ms_faults wit_mock = no_faults"
  "tp_name wit_mock_topic = ''t''" "tp_events wit_mock_topic = wit_h" "tp_nextSeq wit_mock_topic = 3"
  by (simp_all add: wit_mock_def mock_defaults_def or_default_def wit_mock_topic_def)

lemma wit_topic_ok: "mock_topic_ok wit_h ''t'' (\<lambda>i. 2) (\<lambda>i. wit_mock) (\<lambda>i. [wit_turn])"
proof -
  have "history wit_h" by (simp add: history_def wit_h_def wit_event_def upt_rec)
  moreover have "quiet_turn wit_h ''t'' wit_turn 2"
    by (simp add: quiet_turn_def wit_turn_def wit_mock_facts wit_snapshot)
  ultimately show ?thesis by (auto simp: mock_topic_ok_def wit_mock_facts wit_snapshot)
qed

lemma received_Recv: "received (map (\<lambda>r. (t, Recv r)) rs) = rs"
  by (induction rs) simp_all

lemma wit_serves: "mock_serves ''t'' (\<lambda>i. 0) (\<lambda>i. wit_mock) (\<lambda>i. wit_md) (\<lambda>i. [wit_turn]) (wit_mock_env w)"
  by (auto simp: mock_serves_def wit_mock_env_def service_env_def wit_mock_subscribe_def received_Recv split: if_splits)

lemma wit_response:
  "fst (mock_Subscribe 0 wit_mock wit_md \<lparr>fq_TopicName = ''t'', fq_NumRequested = 100, fq_ReplayPreset = EARLIEST\<rparr> [wit_turn])
   = [\<lparr>fr_Events = map consumer wit_h, fr_LatestReplayId = replayBytes 2, fr_PendingNumRequested = 98\<rparr>]"
proof -
  have "authorize 0 wit_mock wit_md = None" "validSession 1 wit_mock wit_md"
    by (simp_all add: authorize_def validSession_def md_get_def wit_md_def validToken_def wit_mock_facts)
  moreover have "start_cursor wit_mock_topic EARLIEST = Some 0"
    by (simp add: start_cursor_def oldest_seq_def wit_mock_facts wit_h_def wit_event_def minus1_def)
  moreover have "batch_after wit_mock_topic 0 100 = wit_h"
    by (simp add: batch_after_def wit_mock_facts wit_h_def wit_event_def Let_def)
  ultimately show ?thesis
    by (simp add: mock_Subscribe_def wit_mock_facts subscription_turn_def wit_turn_def Let_def respond_def no_faults_def
        wrap32_def) (simp add: wit_h_def wit_event_def)
qed

definition wit_mock_final :: "'s sink_write \<Rightarrow> 's \<Rightarrow> ('s, redis_view) sub" where
  "wit_mock_final w s = result_state (Run (wit_mock_env w) wit_opts None 1 (NewSubscriber s wit_view 0))"

lemma wit_mock_acquire: "env_Acquire (wit_mock_env w) = env_Acquire (wit_env w)"
  by (simp add: wit_mock_env_def wit_env_def service_env_def)

lemma wit_mock_cp:
  assumes W: "\<And>now meta rs. meta_Source meta \<noteq> [] \<Longrightarrow>
    WriteRecords wit_codec w None now meta rs s = (Inr (f now meta rs), g now meta rs)"
  shows "rv_cp (su_lease (wit_mock_final w s)) = Some (replayBytes 2)"
proof -
  have E: "env_codec (wit_mock_env w) = wit_codec" "env_Write (wit_mock_env w) = w"
    "env_Load (wit_mock_env w) = rv_Load" "env_Commit (wit_mock_env w) = rv_Commit"
    "env_Authenticate (wit_mock_env w) = (\<lambda>n. Inr ''o'')" "env_Subscribe (wit_mock_env w) = wit_mock_subscribe"
    "env_DecodeEvent (wit_mock_env w) = wit_mock_dec" "env_latency (wit_mock_env w) = (\<lambda>n. 1)"
    "env_rand (wit_mock_env w) = (\<lambda>n. 0)"
    by (simp_all add: wit_mock_env_def service_env_def)
  have O: "so_Instance wit_opts = ''i''" "so_Topic wit_opts = ''t''" "so_OrgId wit_opts = ''o''"
    "so_Appetite wit_opts = 100" "so_MaxEvents wit_opts = 1000" "so_InitialReplay wit_opts = ReplayEarliest"
    "so_WriteAttempts wit_opts = 1"
    by (simp_all add: wit_opts_def)
  have src: "SourceStream \<noteq> []" by (simp add: SourceStream_def)
  obtain b bs where B: "replayBytes 2 = b # bs" by (simp add: replayBytes_def)
  have S: "wit_mock_subscribe i \<lparr>fq_TopicName = ''t'', fq_NumRequested = 100, fq_ReplayPreset = EARLIEST\<rparr>
      = Inr \<lparr>sc_Send0 = None, sc_Send = (\<lambda>n. None), sc_events = [(1, Recv
          \<lparr>fr_Events = map consumer wit_h, fr_LatestReplayId = b # bs, fr_PendingNumRequested = 98\<rparr>)]\<rparr>" for i
    by (simp add: wit_mock_subscribe_def wit_response B)
  have ev: "ev_ReplayId (consumer (wit_event n x)) = replayBytes n" for n x by (simp add: consumer_def wit_event_def)
  have "rv_cp (su_lease (result_state (Run (wit_mock_env w) wit_opts None 1 (NewSubscriber s wit_view 0)))) = Some (b # bs)"
    apply (simp add: Run_def wit_mock_acquire wit_acquire wit_load E O NewSubscriber_def ReplayEarliest_def session_def
        Authenticate_def tick_def open_stream_def S first_request_def Let_def)
    apply (simp add: ready_def handle_def handle_response_def wit_h_def Let_def tick_def E O decode_def wit_mock_dec_def
        pin_position_def flushNow_def flush_def flushContext_def group_order_def group_def
        writeWithRetry_def W src commit_def second_def ev B)
    apply (subst commit_loop.simps)
    apply (simp add: wit_commit E O tick_def keepalive_def request_more_def Let_def)
    apply (simp add: result_state_def rv_cp_def redis_lease_of_def wit_redis_keys)
    done
  then show ?thesis by (simp add: wit_mock_final_def B)
qed


section \<open>A race of the delivery loop\<close>

text \<open>
  The demand is read twice in a turn, and the topic's lock is given up in between. When a subscriber whose
  demand is used up asks for more events between the two reads, the keepalive reports the head of the topic
  and moves the cursor there: the two undelivered events are never sent.
\<close>

lemma keepalive_can_skip_events:
  "fst (mock_Subscribe 0 wit_mock wit_md \<lparr>fq_TopicName = ''t'', fq_NumRequested = 0, fq_ReplayPreset = EARLIEST\<rparr>
      [wit_turn\<lparr>mt_now := 100, mt_server := wit_mock\<lparr>ms_opts := (ms_opts wit_mock)\<lparr>mo_KeepaliveInterval := 100\<rparr>\<rparr>,
         mt_more := (0, 100, 0)\<rparr>, wit_turn\<lparr>mt_now := 101\<rparr>])
   = [\<lparr>fr_Events = [], fr_LatestReplayId = replayBytes 2, fr_PendingNumRequested = 100\<rparr>]"
proof -
  have "authorize 0 wit_mock wit_md = None" "validSession 100 (wit_mock\<lparr>ms_opts := o'\<rparr>) wit_md" "validSession 101 wit_mock wit_md" for o'
    by (simp_all add: authorize_def validSession_def md_get_def wit_md_def validToken_def wit_mock_facts)
  moreover have "start_cursor wit_mock_topic EARLIEST = Some 0"
    by (simp add: start_cursor_def oldest_seq_def wit_mock_facts wit_h_def wit_event_def minus1_def)
  moreover have "batch_after wit_mock_topic 0 0 = []" "batch_after wit_mock_topic 2 100 = []"
    by (simp_all add: batch_after_def wit_mock_facts wit_h_def wit_event_def Let_def)
  moreover have "mo_KeepaliveInterval (ms_opts wit_mock) = 30 * second"
    by (simp add: wit_mock_def mock_defaults_def or_default_def)
  ultimately show ?thesis
    by (simp add: mock_Subscribe_def wit_mock_facts subscription_turn_def wit_turn_def Let_def respond_def no_faults_def
        wrap32_def minus1_def second_def)
qed

end
