(* ===== verification/Mock_Admin.thy ===== *)
theory Mock_Admin
  imports Mock_Rest Mock_Run
begin

text \<open>
  The mock's construction, its ledger, its admin API and its background generator
  (\<^verbatim>\<open>mocksf/server.go\<close>, \<^verbatim>\<open>mocksf/admin.go\<close>), and the command. The generator is the list of its tickers; a tick is
  one step of the server.
\<close>

section \<open>Construction\<close>

fun new_topics :: "mock_env \<Rightarrow> int \<Rightarrow> string list \<Rightarrow> (string \<times> mock_topic) list \<Rightarrow> (string \<times> mock_topic) list result" where
  "new_topics M retention [] acc = Inr acc"
| "new_topics M retention (name # names) acc =
     (case newTopic M name retention of
        Inl err \<Rightarrow> Inl err
      | Inr t \<Rightarrow> new_topics M retention names (AList.update name t acc))"

definition mock_New :: "mock_env \<Rightarrow> mock_options \<Rightarrow> mock_server result" where
  "mock_New M opts0 =
     (let opts = mock_defaults opts0 in
      case new_topics M (mo_RetentionEvents opts) (mo_Topics opts) [] of
        Inl err \<Rightarrow> Inl err
      | Inr topics \<Rightarrow>
          Inr \<lparr>ms_opts = opts, ms_tokens = Map.empty, ms_faults = no_faults, ms_topics = topics, ms_elfs = [],
            ms_elfLedger = [], ms_custom = [], ms_customLedger = [], ms_queryCursors = Map.empty, ms_draws = 0\<rparr>)"

text \<open>\<open>listen\<close> is the outcome of binding an address: its URL or an error.\<close>

definition mock_Start ::
  "mock_env \<Rightarrow> (string \<Rightarrow> string result) \<Rightarrow> mock_options \<Rightarrow> string \<Rightarrow> string \<Rightarrow> (mock_server \<times> string \<times> string) result" where
  "mock_Start M listen opts httpAddr grpcAddr =
     (case listen httpAddr of
        Inl err \<Rightarrow> Inl err
      | Inr httpLis \<Rightarrow>
          (case listen grpcAddr of
             Inl err \<Rightarrow> Inl err
           | Inr grpcLis \<Rightarrow>
               let httpURL = ''http://'' @ httpLis;
                   opts1 = (if mo_BaseURL opts = [] then opts\<lparr>mo_BaseURL := httpURL\<rparr> else opts)
               in case mock_New M opts1 of Inl err \<Rightarrow> Inl err | Inr s \<Rightarrow> Inr (s, httpURL, grpcLis)))"

section \<open>Ledger\<close>

definition mock_Ledger :: "mock_server \<Rightarrow> Ledger" where
  "mock_Ledger s =
     \<lparr>lg_OrgId = mo_OrgId (ms_opts s), lg_Streams = map (\<lambda>(n, t). (n, tp_ledger t)) (ms_topics s),
      lg_EventLogFiles = ms_elfLedger s, lg_CustomRecords = ms_customLedger s\<rparr>"

definition mock_stats :: "mock_server \<Rightarrow> (string \<times> int) list" where
  "mock_stats s =
     (let l = mock_Ledger s in
      map (\<lambda>(t, rids). (''stream:'' @ t, int (length rids))) (lg_Streams l)
      @ [(''eventLogFiles'', int (length (lg_EventLogFiles l))),
         (''eventLogRows'', int (sum_list (map (\<lambda>(f, rids). length rids) (lg_EventLogFiles l))))]
      @ map (\<lambda>(obj, rids). (''custom:'' @ obj, int (length rids))) (lg_CustomRecords l))"

section \<open>Generator\<close>

record GeneratorConfig =
  gen_EventsPerSecond :: int
  gen_EventLogFileEverySeconds :: int
  gen_CustomRecordEverySeconds :: int

datatype gen_action = GenPublish nat | GenLogFiles | GenRecords

text \<open>The tickers that are started: a non-positive interval starts none.\<close>

definition StartGenerator :: "GeneratorConfig \<Rightarrow> (duration \<times> gen_action) list" where
  "StartGenerator cfg =
     (let eps = gen_EventsPerSecond cfg;
          perTick = eps div 10;
          publish_tick = (if 0 < eps
            then (if perTick = 0 then [(second div eps, GenPublish 1)] else [(100 * millisecond, GenPublish (nat perTick))])
            else [])
      in filter (\<lambda>(every, a). 0 < every)
           (publish_tick @ [(gen_EventLogFileEverySeconds cfg * second, GenLogFiles),
              (gen_CustomRecordEverySeconds cfg * second, GenRecords)]))"

fun publish_topics ::
  "mock_env \<Rightarrow> (nat \<Rightarrow> time) \<Rightarrow> nat \<Rightarrow> string list \<Rightarrow> mock_server \<Rightarrow> mock_server" where
  "publish_topics M clock n [] s = s"
| "publish_topics M clock n (t # ts) s = publish_topics M clock n ts (snd (PublishEvents M clock t n s))"

definition gen_tick :: "mock_env \<Rightarrow> (nat \<Rightarrow> time) \<Rightarrow> gen_action \<Rightarrow> mock_server \<Rightarrow> mock_server" where
  "gen_tick M clock a s =
     (case a of
        GenPublish n \<Rightarrow> publish_topics M clock n (map fst (ms_topics s)) s
      | GenLogFiles \<Rightarrow>
          fold (\<lambda>et s. snd (AddEventLogFile et (clock 0) (nat (mo_EventLogRows (ms_opts s))) s)) (mo_EventLogTypes (ms_opts s)) s
      | GenRecords \<Rightarrow> fold (\<lambda>obj s. snd (AddCustomRecords obj (clock 0) 3 s)) (mo_CustomObjects (ms_opts s)) s)"

section \<open>Admin API\<close>

text \<open>The value of \<^verbatim>\<open>strconv.Atoi\<close> whose error is ignored: 0, or the nearest integer of 64 bits.\<close>

definition Atoi_value :: "string \<Rightarrow> int" where
  "Atoi_value v =
     (case ParseInt v of
        Some n \<Rightarrow> n
      | None \<Rightarrow>
          (case parse_digits (if v \<noteq> [] \<and> hd v \<in> {CHR ''-'', CHR ''+''} then tl v else v) of
             None \<Rightarrow> 0
           | Some n \<Rightarrow> if hd v = CHR ''-'' then - (2 ^ 63) else 2 ^ 63 - 1))"

definition positive_or :: "int \<Rightarrow> string \<Rightarrow> int" where
  "positive_or d v = (if Atoi_value v \<le> 0 then d else Atoi_value v)"

text \<open>\<open>tx\<close> renders an error; the clock is read once per event.\<close>

fun admin_publish ::
  "mock_env \<Rightarrow> (goerror \<Rightarrow> string) \<Rightarrow> (nat \<Rightarrow> time) \<Rightarrow> nat \<Rightarrow> string list \<Rightarrow> int \<Rightarrow> mock_server \<Rightarrow> http_reply \<times> mock_server" where
  "admin_publish M tx clock n [] published s = (JsonReply 200 (AMap [(''published'', AInt published)]), s)"
| "admin_publish M tx clock n (t # ts) published s =
     (case PublishEvents M clock t n s of
        (Inl err, s1) \<Rightarrow> (json_error 400 [(''error'', tx err)], s1)
      | (Inr rids, s1) \<Rightarrow> admin_publish M tx clock n ts (published + int (length rids)) s1)"

definition handle_publish ::
  "mock_env \<Rightarrow> (goerror \<Rightarrow> string) \<Rightarrow> (nat \<Rightarrow> time) \<Rightarrow> string \<Rightarrow> string list \<Rightarrow> mock_server \<Rightarrow> http_reply \<times> mock_server" where
  "handle_publish M tx clock count_param topics s =
     admin_publish M tx clock (nat (positive_or 1 count_param)) (if topics = [] then mo_Topics (ms_opts s) else topics) 0 s"

definition handle_eventlogfile :: "time \<Rightarrow> string \<Rightarrow> string \<Rightarrow> mock_server \<Rightarrow> http_reply \<times> mock_server" where
  "handle_eventlogfile now rows_param type_param s =
     (let rows = positive_or (mo_EventLogRows (ms_opts s)) rows_param;
          et = (if type_param = [] then hd (mo_EventLogTypes (ms_opts s)) else type_param)
      in case AddEventLogFile et now (nat rows) s of (fid, s1) \<Rightarrow> (json_error 200 [(''id'', fid)], s1))"

definition handle_faults :: "(goerror \<Rightarrow> string) \<Rightarrow> bool \<Rightarrow> mock_faults result \<Rightarrow> mock_server \<Rightarrow> (http_reply + mock_faults) \<times> mock_server" where
  "handle_faults tx http_post parsed s =
     (if \<not> http_post then (Inr (GetFaults s), s)
      else case parsed of
        Inl err \<Rightarrow> (Inl (json_error 400 [(''error'', tx err)]), s)
      | Inr f \<Rightarrow> (Inr f, SetFaults f s))"

definition handle_generator ::
  "(goerror \<Rightarrow> string) \<Rightarrow> GeneratorConfig result \<Rightarrow> (duration \<times> gen_action) list \<Rightarrow> http_reply option \<times> (duration \<times> gen_action) list" where
  "handle_generator tx parsed running =
     (case parsed of
        Inl err \<Rightarrow> (Some (json_error 400 [(''error'', tx err)]), running)
      | Inr cfg \<Rightarrow>
          (None,
           if gen_EventsPerSecond cfg = 0 \<and> gen_EventLogFileEverySeconds cfg = 0 \<and> gen_CustomRecordEverySeconds cfg = 0
           then [] else StartGenerator cfg))"

section \<open>The command\<close>

text \<open>\<^verbatim>\<open>cmd/mock-salesforce\<close>: its flags, their defaults from the environment, and the server and tickers it starts.\<close>

record mock_flags =
  fl_http :: string
  fl_grpc :: string
  fl_baseURL :: string
  fl_topics :: string
  fl_clientId :: string
  fl_clientSecret :: string
  fl_retention :: int
  fl_keepalive :: duration
  fl_pageSize :: int
  fl_eps :: int
  fl_elfEvery :: int
  fl_customEvery :: int

definition envOr :: "(string \<Rightarrow> string) \<Rightarrow> string \<Rightarrow> string \<Rightarrow> string" where
  "envOr env key d = (if env key \<noteq> [] then env key else d)"

definition default_flags :: "(string \<Rightarrow> string) \<Rightarrow> mock_flags" where
  "default_flags env =
     \<lparr>fl_http = envOr env ''MOCK_HTTP_ADDR'' '':8080'', fl_grpc = envOr env ''MOCK_GRPC_ADDR'' '':7011'',
      fl_baseURL = envOr env ''MOCK_BASE_URL'' [],
      fl_topics = envOr env ''MOCK_TOPICS'' ''/event/LoginEventStream,/event/ApiEventStream'',
      fl_clientId = envOr env ''MOCK_CLIENT_ID'' ''mock-client-id'',
      fl_clientSecret = envOr env ''MOCK_CLIENT_SECRET'' ''mock-client-secret'', fl_retention = 0, fl_keepalive = 30 * second,
      fl_pageSize = 200, fl_eps = 0, fl_elfEvery = 0, fl_customEvery = 0\<rparr>"

definition flag_options :: "mock_flags \<Rightarrow> mock_options" where
  "flag_options fl =
     \<lparr>mo_BaseURL = fl_baseURL fl, mo_OrgId = [], mo_UserId = [], mo_ClientId = fl_clientId fl,
      mo_ClientSecret = fl_clientSecret fl, mo_TokenTTL = 0, mo_Topics = Split (fl_topics fl) (CHR '',''),
      mo_RetentionEvents = fl_retention fl, mo_KeepaliveInterval = fl_keepalive fl, mo_MaxEventsPerResponse = 0,
      mo_QueryPageSize = fl_pageSize fl, mo_EventLogTypes = [], mo_EventLogRows = 0, mo_CustomObjects = [],
      mo_TruncateQueryResults = False\<rparr>"

text \<open>The exit code when the start fails, or the running server with its tickers.\<close>

definition mock_main ::
  "mock_env \<Rightarrow> (string \<Rightarrow> string result) \<Rightarrow> mock_flags \<Rightarrow> int + mock_server \<times> (duration \<times> gen_action) list" where
  "mock_main M listen fl =
     (case mock_Start M listen (flag_options fl) (fl_http fl) (fl_grpc fl) of
        Inl err \<Rightarrow> Inl 1
      | Inr (s, httpURL, grpcListen) \<Rightarrow>
          Inr (s, if 0 < fl_eps fl \<or> 0 < fl_elfEvery fl \<or> 0 < fl_customEvery fl
                  then StartGenerator \<lparr>gen_EventsPerSecond = fl_eps fl, gen_EventLogFileEverySeconds = fl_elfEvery fl,
                         gen_CustomRecordEverySeconds = fl_customEvery fl\<rparr>
                  else []))"

section \<open>What the ledger promises\<close>

text \<open>Everything that changes the server.\<close>

inductive mock_step :: "mock_env \<Rightarrow> mock_server \<Rightarrow> mock_server \<Rightarrow> bool" for M where
  token: "handleToken M issued now p body s = (r, s') \<Longrightarrow> mock_step M s s'"
| expire: "mock_step M s (ExpireTokens s)"
| faults: "mock_step M s (SetFaults f s)"
| rest: "handleData M now h path q s = (r, s') \<Longrightarrow> mock_step M s s'"
| publish: "PublishEvents M clock name n s = (r, s')
    \<Longrightarrow> (\<And>t. map_of (ms_topics s) name = Some t \<Longrightarrow> tp_nextSeq t + n < 2 ^ 64) \<Longrightarrow> mock_step M s s'"
| log_file: "AddEventLogFile et created rows s = (r, s') \<Longrightarrow> mock_step M s s'"
| raw_file: "AddEventLogFileRaw et created body ld s = (r, s') \<Longrightarrow> mock_step M s s'"
| delete_body: "mock_step M s (DeleteEventLogFileBody fid s)"
| records: "AddCustomRecords obj created n s = (r, s') \<Longrightarrow> mock_step M s s'"
| set_field: "fld \<noteq> ''Id'' \<Longrightarrow> mock_step M s (SetCustomField obj rids fld v s)"

text \<open>What a step keeps: the topics, the log files and the custom rows agree with the ledger.\<close>

definition topics_ok :: "mock_server \<Rightarrow> bool" where
  "topics_ok s \<longleftrightarrow> (\<forall>n t. map_of (ms_topics s) n = Some t \<longrightarrow> contiguous t)"

definition rows_csv :: "string list list \<Rightarrow> string" where
  "rows_csv rows = concat (map csv_write_row (elf_header # rows))"

definition file_rows :: "string \<Rightarrow> string list \<Rightarrow> eventLogFile \<Rightarrow> bool" where
  "file_rows fid rids f \<longleftrightarrow> elf_Id f = fid
     \<and> (elf_deleted f \<or> (\<exists>rows. elf_csv f = rows_csv rows \<and> map (\<lambda>r. r ! 2) rows = rids))"

definition elfs_ok :: "mock_server \<Rightarrow> bool" where
  "elfs_ok s \<longleftrightarrow> map elf_Id (ms_elfs s) = map (\<lambda>i. ''0AT'' @ pad0 12 (int i + 1)) [0..<length (ms_elfs s)]
     \<and> (\<forall>fid rids. map_of (ms_elfLedger s) fid = Some rids \<longrightarrow> (\<exists>f \<in> set (ms_elfs s). file_rows fid rids f))"

definition row_ids :: "payload list \<Rightarrow> string option list" where
  "row_ids rows = map (\<lambda>row. str_field row ''Id'') rows"

definition custom_ok :: "mock_server \<Rightarrow> bool" where
  "custom_ok s \<longleftrightarrow> (\<forall>obj. row_ids (list_at obj (ms_custom s)) = map Some (list_at obj (ms_customLedger s)))"

lemma list_at_update [simp]: "list_at k (AList.update j v al) = (if k = j then v else list_at k al)"
  by (simp add: list_at_def update_conv')

lemma custom_ok_add:
  "AddCustomRecords obj created n s = (r, s') \<Longrightarrow> custom_ok s
   \<Longrightarrow> custom_ok s' \<and> ms_topics s' = ms_topics s \<and> ms_elfs s' = ms_elfs s \<and> ms_elfLedger s' = ms_elfLedger s"
proof (induction n arbitrary: s r)
  case (Suc n)
  let ?ledger = "list_at obj (ms_customLedger s)"
  let ?rid = "''0YM'' @ pad0 12 (int (length ?ledger) + 1)"
  let ?s = "s\<lparr>ms_custom := AList.update obj (list_at obj (ms_custom s)
      @ [custom_row (ms_opts s) obj created ?rid (length ?ledger)]) (ms_custom s),
    ms_customLedger := AList.update obj (?ledger @ [?rid]) (ms_customLedger s)\<rparr>"
  obtain r1 where R: "AddCustomRecords obj created n ?s = (r1, s')" using Suc.prems(1) by (auto simp: Let_def split: prod.splits)
  have "custom_ok ?s" using Suc.prems(2) by (auto simp: custom_ok_def row_ids_def custom_row_def str_field_def)
  from Suc.IH [OF R this] show ?case by simp
qed simp

lemma custom_ok_set:
  assumes "custom_ok s" "fld \<noteq> ''Id''"
  shows "custom_ok (SetCustomField obj rids fld v s)"
proof (cases "map_of (ms_custom s) obj")
  case (Some rows)
  have same: "str_field (AList.update fld w row) ''Id'' = str_field row ''Id''" for w row
    using assms(2) by (simp add: str_field_def update_conv')
  have "row_ids (map (\<lambda>row. if P row then AList.update fld w row else row) rows) = row_ids rows" for P w
    by (simp add: row_ids_def same)
  moreover have "list_at obj (ms_custom s) = rows" using Some by (simp add: list_at_def)
  ultimately show ?thesis using assms(1) Some by (auto simp: SetCustomField_def custom_ok_def)
qed (use assms(1) in \<open>simp add: SetCustomField_def\<close>)

text \<open>Requests change sessions, faults and cursors only.\<close>

definition same_data :: "mock_server \<Rightarrow> mock_server \<Rightarrow> bool" where
  "same_data s s' \<longleftrightarrow> ms_topics s' = ms_topics s \<and> ms_elfs s' = ms_elfs s \<and> ms_elfLedger s' = ms_elfLedger s
     \<and> ms_custom s' = ms_custom s \<and> ms_customLedger s' = ms_customLedger s"

lemma same_data_refl [simp]: "same_data s s" by (simp add: same_data_def)

lemma same_data_token: "handleToken M issued now p body s = (r, s') \<Longrightarrow> same_data s s'"
  by (auto simp: handleToken_def issueToken_def randomHex_def same_data_def Let_def split: if_splits option.splits prod.splits)

lemma same_data_page: "respondPage M rs k v s = (p, s') \<Longrightarrow> same_data s s'"
  by (auto simp: respondPage_def randomHex_def same_data_def Let_def split: if_splits)

lemma same_data_query: "handleQuery M q v s = (r, s') \<Longrightarrow> same_data s s'"
  by (auto simp: handleQuery_def query_page_def split: option.splits sum.splits prod.splits dest: same_data_page)

lemma same_data_more: "handleQueryMore M c v s = (r, s') \<Longrightarrow> same_data s s'"
  by (auto simp: handleQueryMore_def next_page_def Let_def split: option.splits sum.splits prod.splits dest!: same_data_page)
    (auto simp: same_data_def)

lemma same_data_log: "handleLogFile fid s = (r, s') \<Longrightarrow> same_data s s'"
  by (auto simp: handleLogFile_def same_data_def Let_def split: option.splits if_splits)

lemma same_data_rest:
  assumes "handleData M now h path q s = (r, s')"
  shows "same_data s s'"
proof -
  obtain b s1 where F: "takeRestFault s = (b, s1)" by fastforce
  have s1: "same_data s s1" using F by (auto simp: takeRestFault_def same_data_def split: if_splits)
  have "s' = s \<or> s' = s1 \<or> same_data s1 s'"
    using assms F by (auto simp: handleData_def Let_def same_data_query same_data_more same_data_log split: if_splits bool.splits)
  then show ?thesis using s1 by (auto simp: same_data_def)
qed

text \<open>Log files.\<close>

lemma elfs_ok_add:
  assumes "elfs_ok s"
  shows "elfs_ok (snd (AddEventLogFile et created rows s))" "elfs_ok (snd (AddEventLogFileRaw et created body ld s))"
proof -
  let ?rows = "map (elf_row (ms_opts s) (elf_id s) et created rows) [0..<rows]"
  have "map (\<lambda>r. r ! 2) ?rows = map (elf_request_id (elf_id s) et) [0..<rows]" by (simp add: elf_row_def)
  then show "elfs_ok (snd (AddEventLogFile et created rows s))"
    using assms
    by (auto simp: elfs_ok_def AddEventLogFile_def Let_def elf_id_def rows_csv_def file_rows_def update_conv' intro!: exI [of _ ?rows])
  show "elfs_ok (snd (AddEventLogFileRaw et created body ld s))"
    using assms by (auto simp: elfs_ok_def AddEventLogFileRaw_def Let_def elf_id_def)
qed

lemma elfs_ok_delete:
  assumes "elfs_ok s"
  shows "elfs_ok (DeleteEventLogFileBody fid s)"
proof -
  define d :: "eventLogFile \<Rightarrow> eventLogFile" where "d f = (if elf_Id f = fid then f\<lparr>elf_csv := [], elf_deleted := True\<rparr> else f)" for f
  have S: "ms_elfs (DeleteEventLogFileBody fid s) = map d (ms_elfs s)"
    "ms_elfLedger (DeleteEventLogFileBody fid s) = ms_elfLedger s"
    by (simp_all add: DeleteEventLogFileBody_def d_def [abs_def])
  have id_kept: "elf_Id (d f) = elf_Id f" for f by (simp add: d_def)
  have "file_rows i rids f \<Longrightarrow> file_rows i rids (d f)" for i rids f by (simp add: file_rows_def d_def)
  then have "\<exists>f \<in> set (ms_elfs s). file_rows i rids f \<Longrightarrow> \<exists>f \<in> set (map d (ms_elfs s)). file_rows i rids f" for i rids
    by auto
  then show ?thesis using assms by (simp only: elfs_ok_def S length_map map_map comp_def id_kept) blast
qed

text \<open>Topics.\<close>

lemma topics_ok_publish:
  assumes "PublishEvents M clock name n s = (r, s')" "topics_ok s"
    and "\<And>t. map_of (ms_topics s) name = Some t \<Longrightarrow> tp_nextSeq t + n < 2 ^ 64"
  shows "topics_ok s' \<and> ms_elfs s' = ms_elfs s \<and> ms_elfLedger s' = ms_elfLedger s \<and> ms_custom s' = ms_custom s
    \<and> ms_customLedger s' = ms_customLedger s"
proof (cases "map_of (ms_topics s) name")
  case (Some t)
  obtain r1 k t' where P: "publish M (mo_UserId (ms_opts s)) clock n (ms_draws s) t = (r1, k, t')" by (metis prod_cases3)
  have "contiguous t'" using publish_contiguous(1) [OF P] assms(2,3) Some by (auto simp: topics_ok_def)
  then show ?thesis using assms(1,2) Some P by (auto simp: PublishEvents_def topics_ok_def update_conv' split: if_splits)
qed (use assms(1,2) in \<open>auto simp: PublishEvents_def\<close>)

lemma new_topics_ok:
  "new_topics M r names acc = Inr topics \<Longrightarrow> \<forall>n t. map_of acc n = Some t \<longrightarrow> contiguous t
   \<Longrightarrow> \<forall>n t. map_of topics n = Some t \<longrightarrow> contiguous t"
proof (induction names arbitrary: acc)
  case (Cons name names)
  show ?case
  proof (cases "newTopic M name r")
    case (Inr t)
    then have t: "new_topics M r names (AList.update name t acc) = Inr topics" using Cons.prems(1) by simp
    have "contiguous t" using newTopic_contiguous [OF Inr] .
    then have "\<forall>n u. map_of (AList.update name t acc) n = Some u \<longrightarrow> contiguous u"
      using Cons.prems(2) by (simp add: update_conv')
    from Cons.IH [OF t this] show ?thesis .
  qed (use Cons.prems(1) in simp)
qed simp

definition ledger_ok :: "mock_server \<Rightarrow> bool" where
  "ledger_ok s \<longleftrightarrow> topics_ok s \<and> elfs_ok s \<and> custom_ok s"

lemma mock_New_ok: "mock_New M opts = Inr s \<Longrightarrow> ledger_ok s"
  by (auto simp: mock_New_def ledger_ok_def topics_ok_def elfs_ok_def custom_ok_def list_at_def row_ids_def Let_def
      split: sum.splits dest: new_topics_ok)

lemma ledger_ok_same: "same_data s s' \<Longrightarrow> ledger_ok s \<Longrightarrow> ledger_ok s'"
  by (simp add: same_data_def ledger_ok_def topics_ok_def elfs_ok_def custom_ok_def)

lemma mock_step_ok: "mock_step M s s' \<Longrightarrow> ledger_ok s \<Longrightarrow> ledger_ok s'"
proof (induction rule: mock_step.induct)
  case (token issued now p body s r s')
  then show ?case by (blast intro: ledger_ok_same same_data_token)
next
  case (rest now h path q s r s')
  then show ?case by (blast intro: ledger_ok_same same_data_rest)
next
  case (publish clock name n s r s')
  then show ?case using topics_ok_publish [OF publish.hyps(1)] by (simp add: ledger_ok_def elfs_ok_def custom_ok_def)
next
  case (log_file et created rows s r s')
  then show ?case using elfs_ok_add(1) [of s et created rows]
    by (auto simp: ledger_ok_def topics_ok_def custom_ok_def AddEventLogFile_def Let_def)
next
  case (raw_file et created body ld s r s')
  then show ?case using elfs_ok_add(2) [of s et created body ld]
    by (auto simp: ledger_ok_def topics_ok_def custom_ok_def AddEventLogFileRaw_def Let_def)
next
  case (delete_body s fid)
  then show ?case using elfs_ok_delete [of s fid]
    by (auto simp: ledger_ok_def topics_ok_def custom_ok_def DeleteEventLogFileBody_def)
next
  case (records obj created n s r s')
  then show ?case using custom_ok_add [OF records.hyps] by (simp add: ledger_ok_def topics_ok_def elfs_ok_def)
next
  case (set_field fld s obj rids v)
  then show ?case using custom_ok_set [of s fld obj rids v]
    by (auto simp: ledger_ok_def topics_ok_def elfs_ok_def SetCustomField_def split: option.splits)
qed (auto simp: ledger_ok_def topics_ok_def elfs_ok_def custom_ok_def ExpireTokens_def SetFaults_def)

lemma mock_reachable_ok: "(mock_step M)\<^sup>*\<^sup>* s s' \<Longrightarrow> ledger_ok s \<Longrightarrow> ledger_ok s'"
  by (induction rule: rtranclp_induct) (auto intro: mock_step_ok)


text \<open>A new server with one topic, after one custom row was added.\<close>

definition wit_mock_opts :: mock_options where
  "wit_mock_opts = ms_opts wit_mock"

definition wit_mock_random :: mock_env where
  "wit_mock_random = \<lparr>me_rand = (\<lambda>k n. []), me_NewCodec = (\<lambda>s. None), me_encode = (\<lambda>s v. Inr []), me_quote = (\<lambda>s. s),
     me_score = (\<lambda>n. ANil)\<rparr>"


section \<open>Pages of a query\<close>

text \<open>Three records in pages of two, with no other requests in between.\<close>

lemma mock_pages_complete_witness:
  "\<exists>pages. read_pages wit_mock_random ''v64.0'' (\<lambda>n s. s) 4
       (fst (respondPage wit_mock_random [[(''Id'', AStr ''a'')], [(''Id'', AStr ''b'')], [(''Id'', AStr ''c'')]] 0 ''v64.0''
         (wit_mock\<lparr>ms_opts := (ms_opts wit_mock)\<lparr>mo_QueryPageSize := 2\<rparr>\<rparr>)))
       (snd (respondPage wit_mock_random [[(''Id'', AStr ''a'')], [(''Id'', AStr ''b'')], [(''Id'', AStr ''c'')]] 0 ''v64.0''
         (wit_mock\<lparr>ms_opts := (ms_opts wit_mock)\<lparr>mo_QueryPageSize := 2\<rparr>\<rparr>))) = Some pages
     \<and> concat (map mp_records pages) = [[(''Id'', AStr ''a'')], [(''Id'', AStr ''b'')], [(''Id'', AStr ''c'')]]"
proof -
  let ?s = "wit_mock\<lparr>ms_opts := (ms_opts wit_mock)\<lparr>mo_QueryPageSize := 2\<rparr>\<rparr>"
  let ?rs = "[[(''Id'', AStr ''a'')], [(''Id'', AStr ''b'')], [(''Id'', AStr ''c'')]] :: payload list"
  have polite: "polite (\<lambda>n s. s)" by (simp add: polite_def)
  have opts: "0 < mo_QueryPageSize (ms_opts ?s)" "\<not> mo_TruncateQueryResults (ms_opts ?s)"
    by (simp_all add: wit_mock_def mock_defaults_def)
  have len: "length ?rs + 1 = 4" by simp
  from mock_pages_complete [OF polite prod.collapse [symmetric] opts, where M = wit_mock_random and records = ?rs and version = "''v64.0''"]
  show ?thesis unfolding len by blast
qed

end
