(* ===== verification/GoTime_Dates.thy ===== *)
theory GoTime_Dates
  imports GoTime
begin

text \<open>
  The date functions are inverse to each other: the civil date of a day determines the day, and what the
  formats print is read back, to the last printed digit.
\<close>

section \<open>Civil dates\<close>

lemma div_eq: "0 < (n::int) \<Longrightarrow> n * q \<le> x \<Longrightarrow> x < n * q + n \<Longrightarrow> x div n = q"
  using int_div_pos_eq [of x n q "x - n * q"] by simp

text \<open>A day of an era: its century, four-year cycle, year and day of the year, which starts on 1 March.\<close>

lemma era_day:
  assumes "0 \<le> doe" "doe < (146097 :: int)"
  obtains c q k d where "doe = 36524 * c + 1461 * q + 365 * k + d"
    "0 \<le> c" "c \<le> 3" "0 \<le> q" "q \<le> 24" "0 \<le> k" "k \<le> 3" "0 \<le> d" "d \<le> 365"
    "d = 365 \<Longrightarrow> k = 3 \<and> (q < 24 \<or> c = 3)"
proof -
  define c where "c = (if doe = 146096 then 3 else doe div 36524)"
  define r where "r = doe - 36524 * c"
  define q where "q = r div 1461"
  define s where "s = r - 1461 * q"
  define k where "k = (if s = 1460 then 3 else s div 365)"
  have c: "0 \<le> c" "c \<le> 3" "0 \<le> r" "r \<le> 36523 \<or> (c = 3 \<and> r \<le> 36524)"
    using assms by (auto simp: c_def r_def)
  have q: "0 \<le> q" "q \<le> 24" "0 \<le> s" "s \<le> 1460" "q = 24 \<Longrightarrow> s = 1460 \<Longrightarrow> c = 3"
    using c by (auto simp: q_def s_def)
  have k: "0 \<le> k" "k \<le> 3" "0 \<le> s - 365 * k" "s - 365 * k \<le> 365" "s - 365 * k = 365 \<Longrightarrow> s = 1460"
    using q(3,4) by (auto simp: k_def) presburger+
  show thesis
  proof (rule that [of c q k "s - 365 * k"])
    show "doe = 36524 * c + 1461 * q + 365 * k + (s - 365 * k)" by (simp add: s_def r_def)
    show "k = 3 \<and> (q < 24 \<or> c = 3)" if "s - 365 * k = 365"
    proof -
      have "s = 1460" using k(5) that .
      then show ?thesis using q(2,5) by (cases "q = 24") (simp_all add: k_def)
    qed
  qed (use c(1,2) q(1,2) k in simp_all)
qed

lemma era_year:
  assumes "doe = 36524 * c + 1461 * q + 365 * k + (d :: int)"
    "0 \<le> c" "c \<le> 3" "0 \<le> q" "q \<le> 24" "0 \<le> k" "k \<le> 3" "0 \<le> d" "d \<le> 365"
    "d = 365 \<Longrightarrow> k = 3 \<and> (q < 24 \<or> c = 3)"
  shows "(doe - doe div 1460 + doe div 36524 - doe div 146096) div 365 = 100 * c + 4 * q + k"
proof -
  define e where "e = (if 24 * c + q + 365 * k + d \<ge> 1460 then 1 else 0 :: int)"
  have k3: "d = 365 \<Longrightarrow> k = 3" using assms(10) by simp
  have a: "doe div 1460 = 25 * c + q + e"
    by (rule div_eq) (use assms k3 in \<open>auto simp: e_def\<close>)
  have b: "doe div 36524 - doe div 146096 = c"
  proof (cases "doe = 146096")
    case False
    have "doe div 36524 = c"
    proof (rule div_eq)
      show "doe < 36524 * c + 36524" using assms False k3 by (cases "d = 365"; cases "q = 24"; cases "k = 3"; auto)
    qed (use assms in auto)
    moreover have "doe div 146096 = 0" using assms False k3 by (intro div_eq) (cases "d = 365"; auto)+
    ultimately show ?thesis by simp
  qed (use assms in auto)
  have "e = 1 \<Longrightarrow> 1 \<le> d" "e = 0 \<Longrightarrow> d \<le> 364" using assms k3 by (cases "d = 365"; auto simp: e_def split: if_splits)+
  moreover have "e = 0 \<or> e = 1" by (simp add: e_def)
  ultimately have "0 \<le> d - e" "d - e \<le> 364" using assms(8,9) by auto
  then show ?thesis using a b assms(1) by (intro div_eq) auto
qed

lemma civil_days:
  assumes "civil_from_days days = (y, m, d)"
  shows "days_from_civil y m d = days" "1 \<le> m" "m \<le> 12" "1 \<le> d" "d \<le> days_in m y"
proof -
  let ?z = "days + 719468"
  define era doe where "era = ?z div 146097" and "doe = ?z mod 146097"
  have "0 \<le> doe" "doe < 146097" by (simp_all add: doe_def)
  then obtain c q k dy where D: "doe = 36524 * c + 1461 * q + 365 * k + dy"
    "0 \<le> c" "c \<le> 3" "0 \<le> q" "q \<le> 24" "0 \<le> k" "k \<le> 3" "0 \<le> dy" "dy \<le> 365"
    "dy = 365 \<Longrightarrow> k = 3 \<and> (q < 24 \<or> c = 3)" using era_day by blast
  define yoe where "yoe = 100 * c + 4 * q + k"
  note yoe = era_year [OF D, folded yoe_def]
  have q4: "yoe div 4 = 25 * c + q" "yoe div 100 = c" unfolding yoe_def by (rule div_eq; use D in simp)+
  then have doy: "doe - (365 * yoe + yoe div 4 - yoe div 100) = dy" using D(1) by (simp add: yoe_def)
  define mp where "mp = (5 * dy + 2) div 153"
  have mp: "0 \<le> mp" "mp \<le> 11" "153 * mp \<le> 5 * dy + 2" "5 * dy + 2 < 153 * mp + 153"
    using D(8,9) by (simp_all add: mp_def)
  have "civil_from_days days = (yoe + era * 400 + (if (if mp < 10 then mp + 3 else mp - 9) \<le> 2 then 1 else 0),
      if mp < 10 then mp + 3 else mp - 9, dy - (153 * mp + 2) div 5 + 1)"
    by (simp only: civil_from_days_def Let_def era_def [symmetric] doe_def [symmetric] yoe doy mp_def [symmetric])
  then have eqs: "m = (if mp < 10 then mp + 3 else mp - 9)" "d = dy - (153 * mp + 2) div 5 + 1"
    "y = yoe + era * 400 + (if m \<le> 2 then 1 else 0)"
    using assms by simp_all
  show m: "1 \<le> m" "m \<le> 12" using mp by (auto simp: eqs(1))
  have yy: "(if m \<le> 2 then y - 1 else y) = yoe + era * 400" by (simp add: eqs(3))
  have mm: "(if m > 2 then m - 3 else m + 9) = mp" using mp by (auto simp: eqs(1))
  have "0 \<le> yoe" "yoe < 400" using D by (simp_all add: yoe_def)
  then have e: "yoe div 400 = 0" "yoe mod 400 = yoe" by simp_all
  have "era * 146097 + doe = ?z" by (simp add: era_def doe_def)
  then show "days_from_civil y m d = days"
    using doy by (simp add: days_from_civil_def Let_def yy mm e eqs(2))
  have "mp \<in> {0, 1, 2, 3, 4, 5, 6, 7, 8, 9, 10, 11}" using mp(1,2) by simp presburger
  then show "1 \<le> d" using mp(3,4) by (auto simp: eqs(2))
  have leap: "is_leap y" if "dy = 365"
  proof -
    have k: "k = 3" "q < 24 \<or> c = 3" using D(10) that by auto
    have "mp = 11" unfolding mp_def that by simp
    then have y: "y = 100 * c + 4 * q + 4 + 400 * era" by (simp add: eqs(1,3) yoe_def k)
    show ?thesis
    proof (cases "q = 24")
      case True
      then have "y = 400 * (era + 1)" using k y by simp
      then show ?thesis by (simp add: is_leap_def)
    next
      case False
      have "y mod 4 = 0" unfolding y by presburger
      moreover have "y mod 100 = 4 * q + 4"
      proof -
        have "y = 4 * q + 4 + 100 * (c + 4 * era)" by (simp add: y)
        moreover have "(4 * q + 4 + 100 * (c + 4 * era)) mod 100 = (4 * q + 4) mod 100" by (rule mod_mult_self2)
        moreover have "(4 * q + 4) mod 100 = 4 * q + 4" using False D(4,5) by (intro mod_pos_pos_trivial) auto
        ultimately show ?thesis by (simp only:)
      qed
      ultimately show ?thesis using D(4) by (simp add: is_leap_def)
    qed
  qed
  show "d \<le> days_in m y"
    using \<open>mp \<in> _\<close> mp(3,4) D(9) leap by (cases "dy = 365") (auto simp: eqs(1,2) days_in_def)
qed


section \<open>Printed numbers\<close>

lemma length_dec_digits: "n < 10 ^ w \<Longrightarrow> 0 < w \<Longrightarrow> length (dec_digits n) \<le> w"
proof (induction w arbitrary: n)
  case (Suc w)
  show ?case
  proof (cases "n < 10")
    case False
    then have w: "0 < w" using Suc.prems(1) by (cases w) auto
    have "n div 10 < 10 ^ w" using Suc.prems(1) by (simp add: less_mult_imp_div_less)
    then have "length (dec_digits (n div 10)) \<le> w" using Suc.IH w by blast
    then show ?thesis using False by (subst dec_digits.simps) simp
  qed (subst dec_digits.simps, simp)
qed simp

lemma digits_val_zeros: "digits_val (replicate k (CHR ''0'') @ s) = digits_val s"
  by (induction k) (simp_all add: digits_val_def digit_val_def)

lemma pad0_digits:
  assumes "0 \<le> i" "i < 10 ^ w" "0 < w"
  shows "length (pad0 w i) = w" "list_all is_digit (pad0 w i)" "digits_val (pad0 w i) = nat i"
proof -
  have "nat i < 10 ^ w" using assms(1,2) by (simp add: nat_less_iff)
  then have "length (dec_digits (nat i)) \<le> w" by (rule length_dec_digits [OF _ assms(3)])
  then show "length (pad0 w i) = w" using assms(1) by (simp add: pad0_def Let_def)
  show "list_all is_digit (pad0 w i)" using assms(1) dec_digits_all by (auto simp: pad0_def Let_def list_all_iff is_digit_def)
  show "digits_val (pad0 w i) = nat i" using assms(1) by (simp add: pad0_def Let_def digits_val_zeros)
qed

lemma scan_fixed_pad0:
  assumes "0 \<le> i" "i < 10 ^ w" "0 < w"
  shows "scan_fixed w (pad0 w i @ s) = Some (i, s)"
proof -
  note p = pad0_digits [OF assms]
  have tw: "takeWhile is_digit (pad0 w i) = pad0 w i" using p(2) unfolding takeWhile_eq_all_conv list_all_iff .
  then show ?thesis using p(1,3) assms(1) by (simp add: scan_fixed_def tw)
qed

lemma scan_hour_pad0:
  assumes "0 \<le> i" "i < 100"
  shows "scan_hour (pad0 2 i @ s) = Some (i, s)"
proof -
  note p = pad0_digits [of i 2, simplified, OF assms]
  obtain a b where "pad0 2 i = [a, b]" using p(1) by (cases "pad0 2 i"; cases "tl (pad0 2 i)"; auto)
  then show ?thesis using p(2,3) assms(1) by (simp add: scan_hour_def)
qed

section \<open>Dates\<close>

text \<open>The date and time printed with its separators, for the years 0 to 9999.\<close>

definition date_time :: "time \<Rightarrow> string" where
  "date_time t = pad0 4 (Year t) @ ''-'' @ pad0 2 (Month t) @ ''-'' @ pad0 2 (Day t) @ ''T''
     @ pad0 2 (Hour t) @ '':'' @ pad0 2 (Minute t) @ '':'' @ pad0 2 (Second t)"

definition year_ok :: "time \<Rightarrow> bool" where "year_ok t \<longleftrightarrow> 0 \<le> Year t \<and> Year t \<le> 9999"

lemma civil_date:
  "days_from_civil (Year t) (Month t) (Day t) = t div nanos_per_day"
  "1 \<le> Month t" "Month t \<le> 12" "1 \<le> Day t" "Day t \<le> days_in (Month t) (Year t)"
  using civil_days [of "t div nanos_per_day" "Year t" "Month t" "Day t"]
  by (simp_all add: Year_def Month_def Day_def)

lemma days_in_le: "days_in m y \<le> 31" by (simp add: days_in_def)

lemma clock_range: "0 \<le> Minute t" "Minute t < 60" "0 \<le> Second t" "Second t < 60"
  by (simp_all add: Minute_def Second_def)

lemma clock_sum: "t div nanos_per_day * nanos_per_day + Hour t * 3600000000000 + Minute t * 60000000000
    + Second t * 1000000000 = t - t mod 1000000000"
proof -
  have d: "n dvd m \<Longrightarrow> t mod m mod n = t mod n" for m n :: int by (simp add: mod_mod_cancel)
  have h: "t mod nanos_per_day = Hour t * 3600000000000 + t mod 3600000000000"
    using div_mult_mod_eq [of "t mod nanos_per_day" 3600000000000] by (simp add: Hour_def d nanos_per_day_def)
  have m: "t mod 3600000000000 = Minute t * 60000000000 + t mod 60000000000"
    using div_mult_mod_eq [of "t mod 3600000000000" 60000000000] by (simp add: Minute_def d)
  have s: "t mod 60000000000 = Second t * 1000000000 + t mod 1000000000"
    using div_mult_mod_eq [of "t mod 60000000000" 1000000000] by (simp add: Second_def d)
  show ?thesis using div_mult_mod_eq [of t nanos_per_day] h m s by linarith
qed

lemma scan_fields:
  assumes "year_ok t"
  shows "scan_fixed 4 (pad0 4 (Year t) @ r) = Some (Year t, r)" "scan_fixed 2 (pad0 2 (Month t) @ r) = Some (Month t, r)"
    "scan_fixed 2 (pad0 2 (Day t) @ r) = Some (Day t, r)" "scan_hour (pad0 2 (Hour t) @ r) = Some (Hour t, r)"
    "scan_fixed 2 (pad0 2 (Minute t) @ r) = Some (Minute t, r)" "scan_fixed 2 (pad0 2 (Second t) @ r) = Some (Second t, r)"
proof -
  show "scan_fixed 4 (pad0 4 (Year t) @ r) = Some (Year t, r)"
    using assms by (intro scan_fixed_pad0) (simp_all add: year_ok_def)
  have two: "0 \<le> i \<Longrightarrow> i < 100 \<Longrightarrow> scan_fixed 2 (pad0 2 i @ r) = Some (i, r)" for i
    by (intro scan_fixed_pad0) simp_all
  have d31: "Day t \<le> 31" using civil_date(5) [of t] days_in_le [of "Month t" "Year t"] by linarith
  note c = civil_date(2-5) [of t] Hour_range [of t] clock_range [of t]
  show "scan_fixed 2 (pad0 2 (Month t) @ r) = Some (Month t, r)" "scan_fixed 2 (pad0 2 (Day t) @ r) = Some (Day t, r)"
    "scan_hour (pad0 2 (Hour t) @ r) = Some (Hour t, r)" "scan_fixed 2 (pad0 2 (Minute t) @ r) = Some (Minute t, r)"
    "scan_fixed 2 (pad0 2 (Second t) @ r) = Some (Second t, r)"
    using c d31 by (auto intro!: two scan_hour_pad0)
qed

lemma scan_date_time:
  assumes "year_ok t"
  shows "scan_datetime True (date_time t @ s) = Some (t - t mod 1000000000, s)"
proof -
  note f = scan_fields [OF assms]
  note c = civil_date(2-5) [of t] Hour_range [of t] clock_range [of t]
  show ?thesis using c clock_sum [of t]
    by (simp add: scan_datetime_def date_time_def Let_def bind_scan_def scan_char_def guard_scan_def return_scan_def f
        civil_date(1))
qed

lemma parse_format_RFC3339:
  assumes "year_ok t"
  shows "parse_RFC3339Nano (format_RFC3339 t) = Some (truncate_second t)"
proof -
  have f: "format_RFC3339 t = date_time t @ ''Z''" by (simp add: format_RFC3339_def date_time_def)
  have "(t - zero_time) mod second = t mod 1000000000"
    using mod_mult_self2 [of t second 62135596800] by (simp add: zero_time_def second_def)
  then show ?thesis
    by (simp add: f parse_RFC3339Nano_def full_scan_def scan_with_def bind_scan_def scan_date_time [OF assms] scan_frac_opt_def
        frac_start_def scan_zone_def return_scan_def truncate_second_def)
qed


text \<open>Milliseconds.\<close>

lemma digits_val_append_zeros: "digits_val (s @ replicate k (CHR ''0'')) = digits_val s * 10 ^ k"
proof (induction k)
  case (Suc k)
  have "digits_val (s @ replicate (Suc k) (CHR ''0'')) = digits_val ((s @ replicate k (CHR ''0'')) @ [CHR ''0''])"
    by (simp add: replicate_append_same)
  also have "\<dots> = digits_val s * 10 ^ Suc k" by (subst digits_val_snoc) (simp add: Suc.IH digit_val_def)
  finally show ?case .
qed simp

lemma frac_nanos_pad0:
  assumes "0 \<le> i" "i < 1000"
  shows "frac_nanos (pad0 3 i) = i * 1000000"
proof -
  note p = pad0_digits [of i 3, simplified, OF assms]
  have "take 9 (pad0 3 i @ replicate 9 (CHR ''0'')) = pad0 3 i @ replicate 6 (CHR ''0'')"
    using p(1) by (simp add: take_replicate)
  then show ?thesis using p(3) assms(1) by (simp only: frac_nanos_def digits_val_append_zeros) simp
qed

lemma scan_frac_pad0:
  assumes "0 \<le> i" "i < 1000" "s = [] \<or> \<not> is_digit (hd s)"
  shows "scan_frac_opt (''.'' @ pad0 3 i @ s) = Some (i * 1000000, s)"
proof -
  note p = pad0_digits [of i 3, simplified, OF assms(1,2)]
  have all: "\<forall>c \<in> set (pad0 3 i). is_digit c" using p(2) by (simp add: list_all_iff)
  have "takeWhile is_digit (pad0 3 i @ s) = pad0 3 i @ takeWhile is_digit s"
    "dropWhile is_digit (pad0 3 i @ s) = dropWhile is_digit s"
    using all by (simp_all add: takeWhile_append2 dropWhile_append2)
  moreover have "takeWhile is_digit s = []" "dropWhile is_digit s = s" using assms(3) by (cases s; simp)+
  moreover have "frac_start (''.'' @ pad0 3 i @ s)"
    using p(1) all by (cases "pad0 3 i") (auto simp: frac_start_def)
  ultimately show ?thesis using frac_nanos_pad0 [OF assms(1,2)] by (simp add: scan_frac_opt_def)
qed

definition millis :: "time \<Rightarrow> int" where "millis t = t mod 1000000000 div 1000000"

lemma millis_range: "0 \<le> millis t" "millis t < 1000"
proof -
  have x: "0 \<le> t mod 1000000000" "t mod 1000000000 \<le> 999999999"
    using pos_mod_bound [of 1000000000 t] by simp_all
  show "0 \<le> millis t" using x(1) by (simp add: millis_def pos_imp_zdiv_nonneg_iff)
  have "millis t \<le> 999999999 div 1000000" unfolding millis_def by (rule zdiv_mono1 [OF x(2)]) simp
  then show "millis t < 1000" by simp
qed

lemma millis_sum: "t - t mod 1000000000 + millis t * 1000000 = t - t mod 1000000"
proof -
  have "t mod 1000000000 mod 1000000 = t mod 1000000" by (rule mod_mod_cancel) simp
  then show ?thesis using div_mult_mod_eq [of "t mod 1000000000" 1000000] by (simp add: millis_def)
qed

text \<open>The date and time without separators.\<close>

lemma scan_compact:
  assumes "year_ok t"
  shows "scan_datetime False (pad0 4 (Year t) @ pad0 2 (Month t) @ pad0 2 (Day t) @ pad0 2 (Hour t) @ pad0 2 (Minute t)
    @ pad0 2 (Second t) @ s) = Some (t - t mod 1000000000, s)"
proof -
  note f = scan_fields [OF assms]
  note c = civil_date(2-5) [of t] Hour_range [of t] clock_range [of t]
  show ?thesis using c clock_sum [of t]
    by (simp add: scan_datetime_def Let_def bind_scan_def guard_scan_def return_scan_def f civil_date(1))
qed

lemma parse_compact_format:
  assumes "year_ok t"
  shows "parse_compact (pad0 4 (Year t) @ pad0 2 (Month t) @ pad0 2 (Day t) @ pad0 2 (Hour t) @ pad0 2 (Minute t)
    @ pad0 2 (Second t) @ ''.'' @ pad0 3 (millis t)) = Some (t - t mod 1000000)"
  using scan_frac_pad0 [OF millis_range, of "[]" t] millis_sum [of t]
  by (simp add: parse_compact_def full_scan_def scan_with_def bind_scan_def scan_compact [OF assms] return_scan_def)

end
