(* ===== verification/Mock_Query.thy ===== *)
theory Mock_Query
  imports Mock_Admin GoTime_Dates EventLog_Service Query_Properties
begin

text \<open>
  What the collector and the mock tell each other in text: the dates one prints and the other parses, and
  the SOQL statement of the log files, which the regular expressions of the mock read back.
\<close>

section \<open>Dates\<close>

lemma format_sf_date: "format_sf t = date_time t @ ''.'' @ pad0 3 (millis t) @ ''+0000''"
  by (simp add: format_sf_def date_time_def millis_def)

lemma scan_frac_plus: "scan_frac_opt (''.'' @ pad0 3 (millis t) @ ''+0000'') = Some (millis t * 1000000, ''+0000'')"
  by (rule scan_frac_pad0 [OF millis_range]) (simp add: is_digit_def)

lemma parseSFDate_format_sf:
  assumes "year_ok t"
  shows "parseSFDate (format_sf t) = Some (t - t mod 1000000)"
proof -
  have "scan_offset False ''+0000'' = Some (0, [])" by code_simp
  then have "parse_LogDateFormat (format_sf t) = Some (t - t mod 1000000)"
    using scan_frac_plus [of t] millis_sum [of t]
    by (simp add: format_sf_date parse_LogDateFormat_def full_scan_def scan_with_def bind_scan_def scan_date_time [OF assms]
        scan_zone_def return_scan_def)
  then show ?thesis by (simp add: parseSFDate_def)
qed

lemma parse_format_compact:
  assumes "year_ok t"
  shows "parse_compact (format_compact_ms t) = Some (t - t mod 1000000)"
  using parse_compact_format [OF assms] by (simp add: format_compact_ms_def millis_def)

lemma parseSFTime_RFC3339: "year_ok t \<Longrightarrow> parseSFTime (format_RFC3339 t) = Inr (truncate_second t)"
  by (simp add: parseSFTime_def parse_format_RFC3339)

section \<open>Matching\<close>

text \<open>\<open>takes r s s' cs\<close>: the preferred match of \<open>r\<close> at \<open>s\<close> leaves \<open>s'\<close> and captures \<open>cs\<close>, whatever precedes it.\<close>

definition mk :: "char option \<Rightarrow> string \<Rightarrow> string list \<Rightarrow> rx_state" where
  "mk p s caps = \<lparr>rx_prev = p, rx_rest = s, rx_caps = caps\<rparr>"

definition takes :: "rx \<Rightarrow> string \<Rightarrow> string \<Rightarrow> string list \<Rightarrow> bool" where
  "takes r s s' cs \<longleftrightarrow> (\<forall>p caps. \<exists>q ms. rx_match r (mk p s caps) = mk q s' (caps @ cs) # ms)"

lemma mk_sel [simp]: "rx_rest (mk p s caps) = s" "rx_prev (mk p s caps) = p" "rx_caps (mk p s caps) = caps"
  by (simp_all add: mk_def)

lemma rx_skip_mk: "rx_skip n (mk p s caps) = mk (if n = 0 then p else Some (s ! (n - 1))) (drop n s) caps"
  by (simp add: rx_skip_def mk_def)

lemma takes_Then: "takes a s s1 c1 \<Longrightarrow> takes b s1 s2 c2 \<Longrightarrow> takes (Then a b) s s2 (c1 @ c2)"
  unfolding takes_def
proof (intro allI)
  fix p caps
  assume a: "\<forall>p caps. \<exists>q ms. rx_match a (mk p s caps) = mk q s1 (caps @ c1) # ms"
    and b: "\<forall>p caps. \<exists>q ms. rx_match b (mk p s1 caps) = mk q s2 (caps @ c2) # ms"
  obtain q ms where 1: "rx_match a (mk p s caps) = mk q s1 (caps @ c1) # ms" using a by blast
  obtain q' ms' where "rx_match b (mk q s1 (caps @ c1)) = mk q' s2 ((caps @ c1) @ c2) # ms'" using b by blast
  then have "rx_match (Then a b) (mk p s caps) = mk q' s2 (caps @ c1 @ c2) # (ms' @ concat (map (rx_match b) ms))"
    using 1 by simp
  then show "\<exists>q ms. rx_match (Then a b) (mk p s caps) = mk q s2 (caps @ c1 @ c2) # ms" by blast
qed

lemma takes_Cls: "P c \<Longrightarrow> takes (Cls P) (c # s) s []"
proof -
  assume "P c"
  then have "rx_match (Cls P) (mk p (c # s) caps) = mk (Some c) s (caps @ []) # []" for p caps by (simp add: rx_skip_mk)
  then show ?thesis unfolding takes_def by blast
qed

lemma takes_Rep:
  assumes "list_all P w" "s = [] \<or> \<not> P (hd s)"
  shows "takes (Rep True P) (w @ s) s []"
proof -
  have "\<forall>c \<in> set w. P c" using assms(1) by (simp add: list_all_iff)
  then have "takeWhile P (w @ s) = w @ takeWhile P s" by (simp add: takeWhile_append2)
  moreover have "takeWhile P s = []" using assms(2) by (cases s) auto
  ultimately show ?thesis by (auto simp: takes_def Let_def rx_skip_mk)
qed

lemma takes_some:
  assumes "w \<noteq> []" "list_all P w" "s = [] \<or> \<not> P (hd s)"
  shows "takes (rx_some True P) (w @ s) s []"
proof -
  obtain c v where w: "w = c # v" using assms(1) by (cases w) auto
  have "takes (Cls P) (c # v @ s) (v @ s) []" by (rule takes_Cls) (use assms(2) w in simp)
  moreover have "takes (Rep True P) (v @ s) s []" by (rule takes_Rep) (use assms(2,3) w in simp_all)
  ultimately have "takes (Then (Cls P) (Rep True P)) (c # v @ s) s ([] @ [])" by (rule takes_Then)
  then show ?thesis by (simp add: rx_some_def w)
qed

lemma takes_Cap: "takes a (w @ s) s [] \<Longrightarrow> takes (Cap a) (w @ s) s [w]"
  unfolding takes_def
proof (intro allI)
  fix p caps
  assume a: "\<forall>p caps. \<exists>q ms. rx_match a (mk p (w @ s) caps) = mk q s (caps @ []) # ms"
  obtain q ms where "rx_match a (mk p (w @ s) caps) = mk q s caps # ms" using a by fastforce
  then show "\<exists>q ms. rx_match (Cap a) (mk p (w @ s) caps) = mk q s (caps @ [w]) # ms"
    by (simp add: mk_def)
qed

lemma takes_nothing: "takes (Rep True (\<lambda>c. False)) s s []"
  using takes_Rep [of "\<lambda>c. False" "[]" s] by simp

lemma takes_lit: "takes (rx_lit ci l) (l @ s) s []"
proof (induction l)
  case (Cons c l)
  have "takes (Cls (\<lambda>x. if ci then lower_char x = lower_char c else x = c)) (c # l @ s) (l @ s) []"
    by (rule takes_Cls) simp
  from takes_Then [OF this Cons.IH] show ?case by simp
qed (simp add: takes_nothing)

lemma takes_seq_Nil: "takes (rx_seq []) s s []" by (simp add: takes_nothing)

lemma takes_seq_Cons: "takes r s s1 c1 \<Longrightarrow> takes (rx_seq rs) s1 s2 c2 \<Longrightarrow> takes (rx_seq (r # rs)) s s2 (c1 @ c2)"
  by (simp add: takes_Then)

text \<open>Every match consumes a text of its form.\<close>

lemma in_Cls: "m \<in> set (rx_match (Cls P) st) \<Longrightarrow> \<exists>c. rx_rest st = c # rx_rest m \<and> P c"
  by (cases "rx_rest st") (auto simp: rx_skip_def split: if_splits)

lemma in_Rep: "m \<in> set (rx_match (Rep g P) st) \<Longrightarrow> \<exists>w. rx_rest st = w @ rx_rest m \<and> list_all P w"
proof -
  assume "m \<in> set (rx_match (Rep g P) st)"
  then obtain n where n: "m = rx_skip n st" "n \<le> length (takeWhile P (rx_rest st))"
    by (auto simp: Let_def split: if_splits)
  have "rx_rest m = drop n (rx_rest st)" by (simp add: n(1) rx_skip_def)
  moreover have "take n (rx_rest st) = take n (takeWhile P (rx_rest st))"
  proof -
    have "take n (rx_rest st) = take n (takeWhile P (rx_rest st) @ dropWhile P (rx_rest st))"
      by (simp only: takeWhile_dropWhile_id)
    also have "\<dots> = take n (takeWhile P (rx_rest st))" using n(2) by (simp only: take_append) simp
    finally show ?thesis .
  qed
  then have "list_all P (take n (rx_rest st))" by (auto simp: list_all_iff dest: in_set_takeD set_takeWhileD)
  ultimately have "rx_rest st = take n (rx_rest st) @ rx_rest m \<and> list_all P (take n (rx_rest st))" by simp
  then show ?thesis by blast
qed

lemma in_Then: "m \<in> set (rx_match (Then a b) st) \<Longrightarrow> \<exists>m1 \<in> set (rx_match a st). m \<in> set (rx_match b m1)"
  by auto

lemma in_Cap: "m \<in> set (rx_match (Cap a) st) \<Longrightarrow> \<exists>m1 \<in> set (rx_match a st). rx_rest m = rx_rest m1"
  by auto

lemma in_some: "m \<in> set (rx_match (rx_some g P) st) \<Longrightarrow> \<exists>w. w \<noteq> [] \<and> rx_rest st = w @ rx_rest m \<and> list_all P w"
proof -
  assume "m \<in> set (rx_match (rx_some g P) st)"
  then obtain m1 where m1: "m1 \<in> set (rx_match (Cls P) st)" "m \<in> set (rx_match (Rep g P) m1)"
    unfolding rx_some_def using in_Then by blast
  obtain c v where "rx_rest st = c # rx_rest m1" "P c" "rx_rest m1 = v @ rx_rest m" "list_all P v"
    using in_Cls [OF m1(1)] in_Rep [OF m1(2)] by blast
  then show ?thesis by (intro exI [of _ "c # v"]) simp
qed

lemma in_lit:
  "m \<in> set (rx_match (rx_lit ci l) st)
   \<Longrightarrow> \<exists>w. rx_rest st = w @ rx_rest m \<and> map (if ci then lower_char else (\<lambda>c. c)) w = map (if ci then lower_char else (\<lambda>c. c)) l"
proof (induction l arbitrary: st)
  case Nil
  then show ?case using in_Rep [of m True "\<lambda>c. False" st] by (auto simp: list_all_iff)
next
  case (Cons c l)
  from Cons.prems obtain m1 where m1: "m1 \<in> set (rx_match (Cls (\<lambda>x. if ci then lower_char x = lower_char c else x = c)) st)"
      "m \<in> set (rx_match (rx_lit ci l) m1)" using in_Then by fastforce
  let ?f = "if ci then lower_char else (\<lambda>c. c)"
  obtain x w where "rx_rest st = x # rx_rest m1" "if ci then lower_char x = lower_char c else x = c"
      "rx_rest m1 = w @ rx_rest m" "map ?f w = map ?f l" using in_Cls [OF m1(1)] Cons.IH [OF m1(2)] by blast
  then have "rx_rest st = (x # w) @ rx_rest m \<and> map ?f (x # w) = map ?f (c # l)" by (cases ci) simp_all
  then show ?case by blast
qed

text \<open>Searching.\<close>

lemma find_mk: "rx_find r p (c # s) = (case rx_match r (mk p (c # s) []) of m # _ \<Rightarrow> Some m | [] \<Rightarrow> rx_find r (Some c) s)"
  "rx_find r p [] = (case rx_match r (mk p [] []) of [] \<Rightarrow> None | m # _ \<Rightarrow> Some m)"
  by (simp_all add: mk_def)

lemma find_skip:
  "(\<And>i q. i < length pre \<Longrightarrow> rx_match r (mk q (drop i pre @ s) []) = [])
   \<Longrightarrow> rx_find r p (pre @ s) = rx_find r (if pre = [] then p else Some (last pre)) s"
proof (induction pre arbitrary: p)
  case (Cons c pre)
  have "rx_match r (mk p ((c # pre) @ s) []) = []" using Cons.prems [of 0] by simp
  then have "rx_find r p ((c # pre) @ s) = rx_find r (Some c) (pre @ s)" by (simp add: find_mk(1) del: rx_find.simps)
  also have "\<dots> = rx_find r (if pre = [] then Some c else Some (last pre)) s"
    by (rule Cons.IH) (use Cons.prems [of "Suc _"] in simp)
  finally show ?case by simp
qed simp

lemma find_none:
  assumes "\<And>i q. i \<le> length s \<Longrightarrow> rx_match r (mk q (drop i s) []) = []"
  shows "rx_find r p s = None"
proof -
  have "rx_find r p (s @ []) = rx_find r (if s = [] then p else Some (last s)) []"
    by (rule find_skip) (use assms in simp)
  moreover have "rx_match r (mk q [] []) = []" for q using assms [of "length s" q] by simp
  ultimately show ?thesis by (simp add: find_mk(2) del: rx_find.simps)
qed

lemma find_takes: "takes r s s' cs \<Longrightarrow> \<exists>q. rx_find r p s = Some (mk q s' cs)"
proof -
  assume "takes r s s' cs"
  then obtain q ms where "rx_match r (mk p s []) = mk q s' ([] @ cs) # ms" unfolding takes_def by blast
  then show ?thesis by (cases s) (auto simp: find_mk simp del: rx_find.simps)
qed

section \<open>Bounds\<close>

lemma bound_form:
  assumes "m \<in> set (rx_match (reBound cmp) st)"
  shows "\<exists>w sp v. rx_rest st = w @ sp @ cmp @ v \<and> list_all is_word_char w \<and> list_all rx_space sp"
proof -
  obtain m1 m2 m3 where m: "m1 \<in> set (rx_match (Cap (rx_some True is_word_char)) st)" "m2 \<in> set (rx_match (Rep True rx_space) m1)"
      "m3 \<in> set (rx_match (rx_lit False cmp) m2)"
    using assms unfolding reBound_def by (auto simp del: rx_match.simps dest!: in_Then)
  obtain m0 where m0: "m0 \<in> set (rx_match (rx_some True is_word_char) st)" "rx_rest m1 = rx_rest m0"
    using in_Cap [OF m(1)] by blast
  obtain w sp u where "rx_rest st = w @ rx_rest m0" "list_all is_word_char w" "rx_rest m1 = sp @ rx_rest m2" "list_all rx_space sp"
      "rx_rest m2 = u @ rx_rest m3" "u = cmp" using in_some [OF m0(1)] in_Rep [OF m(2)] in_lit [OF m(3)] by auto
  then show ?thesis using m0(2) by (intro exI [of _ w] exI [of _ sp] exI [of _ "rx_rest m3"]) simp
qed

lemma not_word [simp]: "\<not> is_word_char (CHR '' '')" "\<not> is_word_char (CHR ''>'')" "\<not> is_word_char (CHR ''<'')"
    "\<not> is_word_char (CHR ''='')" "\<not> is_word_char (CHR 0x27)"
  and not_space [simp]: "\<not> rx_space (CHR ''>'')" "\<not> rx_space (CHR ''<'')" "\<not> rx_space (CHR ''='')" "\<not> rx_space (CHR 0x27)"
  and a_space [simp]: "rx_space (CHR '' '')"
  by (simp_all add: is_word_char_def is_letter_def is_digit_def rx_space_def)

lemma word_space:
  assumes "y @ CHR '' '' # z = w @ sp" "list_all is_word_char w" "list_all rx_space sp"
  shows "list_all rx_space z"
proof -
  from assms(1) consider u where "y = w @ u" "u @ CHR '' '' # z = sp" | u where "y @ u = w" "CHR '' '' # z = u @ sp"
    by (auto simp: append_eq_append_conv2)
  then show ?thesis
  proof cases
    case 2
    then show ?thesis using assms(2,3) by (cases u) auto
  qed (use assms(3) in auto)
qed

lemma no_bound_without: "c \<notin> set s \<Longrightarrow> rx_match (reBound [c, d]) (mk q s []) = []"
  using bound_form [of _ "[c, d]" "mk q s []"] by (cases "rx_match (reBound [c, d]) (mk q s [])") fastforce+

lemma split_first: "xs @ c # ys = xs' @ c # ys' \<Longrightarrow> c \<notin> set xs' \<Longrightarrow> c \<notin> set xs \<Longrightarrow> xs = xs'"
proof (induction xs arbitrary: xs')
  case Nil
  then show ?case by (cases xs') auto
next
  case (Cons x xs)
  then show ?case by (cases xs') auto
qed

lemma no_bound_before:
  assumes "c \<in> {CHR ''>'', CHR ''<''}" "c \<notin> set x" "c \<notin> set fs" "x = y @ '' ''" "\<not> rx_space f" "c \<noteq> f"
  shows "rx_match (reBound [c, d]) (mk q (x @ (f # fs) @ '' '' @ c # v) []) = []"
proof (rule ccontr)
  let ?X = "x @ (f # fs) @ '' ''"
  assume "rx_match (reBound [c, d]) (mk q (x @ (f # fs) @ '' '' @ c # v) []) \<noteq> []"
  then obtain w sp v' where F: "?X @ c # v = (w @ sp) @ c # d # v'" "list_all is_word_char w" "list_all rx_space sp"
    using bound_form [of _ "[c, d]" "mk q (x @ (f # fs) @ '' '' @ c # v) []"]
    by (cases "rx_match (reBound [c, d]) (mk q (x @ (f # fs) @ '' '' @ c # v) [])") fastforce+
  have "c \<notin> set (w @ sp)" "c \<notin> set ?X" using F(2,3) assms by (auto simp: list_all_iff)
  then have "?X = w @ sp" using split_first [OF F(1)] by blast
  then have "y @ CHR '' '' # (f # fs) @ '' '' = w @ sp" using assms(4) by simp
  from word_space [OF this F(2,3)] show False using assms(5) by simp
qed

lemma find_all_bound:
  assumes c: "c \<in> {CHR ''>'', CHR ''<''}" "c \<notin> set pre" "c \<notin> set tail" "pre = y @ '' ''"
    and fld: "fld = f # fs" "list_all is_word_char fld"
    and ts: "ts \<noteq> []" "list_all rx_timechar ts" "c \<notin> set ts" "tail = [] \<or> \<not> rx_timechar (hd tail)"
  shows "FindAllStringSubmatch (reBound [c, CHR ''='']) (pre @ fld @ '' '' @ [c, CHR ''=''] @ '' '' @ ts @ tail) = [[fld, ts]]"
proof -
  let ?r = "reBound [c, CHR ''='']" and ?s = "fld @ '' '' @ [c, CHR ''=''] @ '' '' @ ts @ tail"
  have f: "\<not> rx_space f" "c \<noteq> f" "c \<notin> set fs"
    using fld c(1) by (auto simp: list_all_iff rx_space_def is_word_char_def is_letter_def is_digit_def)
  have skip: "rx_match ?r (mk q (drop i pre @ ?s) []) = []" if i: "i < length pre" for i q
  proof -
    have "drop i pre = drop i y @ '' ''" using i c(4) by simp
    moreover have "c \<notin> set (drop i pre)" using c(2) by (meson in_set_dropD)
    ultimately show ?thesis
      using no_bound_before [OF c(1), of "drop i pre" fs "drop i y" f "CHR ''=''" q "CHR ''='' # '' '' @ ts @ tail"] f fld(1)
      by simp
  qed
  have hd: "ts @ tail = [] \<or> \<not> rx_space (hd (ts @ tail))"
    using ts(1,2) by (cases ts) (auto simp: rx_timechar_def rx_space_def is_digit_def)
  have t1: "takes (Cap (rx_some True is_word_char)) ?s ('' '' @ [c, CHR ''=''] @ '' '' @ ts @ tail) [fld]"
    by (intro takes_Cap takes_some) (use fld in simp_all)
  have t2: "takes (Rep True rx_space) ('' '' @ [c, CHR ''=''] @ '' '' @ ts @ tail) ([c, CHR ''=''] @ '' '' @ ts @ tail) []"
    by (intro takes_Rep) (use c(1) in auto)
  have t4: "takes (Rep True rx_space) ('' '' @ ts @ tail) (ts @ tail) []"
    by (intro takes_Rep) (use hd in auto)
  have t5: "takes (Cap (rx_some True rx_timechar)) (ts @ tail) tail [ts]"
    by (intro takes_Cap takes_some) (use ts in simp_all)
  have T: "takes ?r ?s tail [fld, ts]"
    using takes_seq_Cons [OF t1 takes_seq_Cons [OF t2 takes_seq_Cons [OF takes_lit [where ci = False]
        takes_seq_Cons [OF t4 takes_seq_Cons [OF t5 takes_seq_Nil]]]]]
    by (simp add: reBound_def del: rx_lit.simps rx_seq.simps)
  obtain q where q: "rx_find ?r None (pre @ ?s) = Some (mk q tail [fld, ts])"
    using find_skip [OF skip, of None] find_takes [OF T] by metis
  have "rx_find ?r q tail = None"
    by (rule find_none) (rule no_bound_without, use c(3) in \<open>meson in_set_dropD\<close>)
  moreover obtain n where "length (pre @ ?s) = Suc n" by (cases "length (pre @ ?s)") (simp_all add: fld(1))
  ultimately show ?thesis using q by (simp only: FindAllStringSubmatch_def) (simp del: rx_find.simps)
qed

section \<open>The statement of the log files\<close>

definition soql_select :: string where
  "soql_select = ''SELECT Id,EventType,CreatedDate,LogDate,LogFile,Interval,Sequence,LogFileLength ''"

definition soql_interval :: "EventLogConfig \<Rightarrow> string" where
  "soql_interval conf = (if ec_NoInterval conf then [] else ''Interval = '' @ [CHR 0x27] @ ''Hourly'' @ [CHR 0x27] @ '' AND '')"

definition soql_type :: "string \<Rightarrow> string" where
  "soql_type t = ''EventType = '' @ [CHR 0x27] @ t @ [CHR 0x27]"

definition soql_types :: "string list \<Rightarrow> string" where
  "soql_types ts = (if ts = [] then [] else '' AND ( '' @ Join (map soql_type ts) '' OR '' @ '' )'')"

definition soql_order :: string where "soql_order = '' ORDER BY CreatedDate ASC, Id ASC''"

lemma soql_text:
  "logFilesSoql conf lo hi = soql_select @ ''FROM EventLogFile WHERE '' @ soql_interval conf @ ''CreatedDate >= ''
     @ format_RFC3339 lo @ '' AND CreatedDate <= '' @ format_RFC3339 hi @ soql_types (ec_EventTypes conf) @ soql_order"
proof -
  have q: "char_of (39 :: nat) = CHR 0x27" by code_simp
  have sel: "Join [''Id'', ''EventType'', ''CreatedDate'', ''LogDate'', ''LogFile'', ''Interval'', ''Sequence'', ''LogFileLength''] '',''
      = ''Id,EventType,CreatedDate,LogDate,LogFile,Interval,Sequence,LogFileLength''" by simp
  have types: "map (\<lambda>t. ''EventType = '' @ [CHR 0x27] @ t @ [CHR 0x27]) ts = map soql_type ts" for ts
    by (simp add: soql_type_def)
  show ?thesis
    unfolding logFilesSoql_def Let_def MakeSoqlQuery_def where_range_def SoqlBuild_def SoqlTail_def q types
    by (cases "ec_NoInterval conf"; cases "ec_EventTypes conf = []")
      (simp_all add: AndWhere_def AndOrWhere_def soql_select_def soql_interval_def soql_types_def soql_order_def sel Let_def
        del: Join.simps)
qed

lemma not_in_all: "list_all P s \<Longrightarrow> \<not> P c \<Longrightarrow> c \<notin> set s"
  by (auto simp: list_all_iff)

lemma take_within: "n \<le> length a \<Longrightarrow> take n (a @ b) = take n a"
  by simp

lemma date_chars: "list_all rx_timechar (format_RFC3339 t)" "format_RFC3339 t \<noteq> []"
proof -
  have "list_all rx_timechar (pad0 w i)" for w i
    using pad0_chars by (auto simp: list_all_iff rx_timechar_def)
  then show "list_all rx_timechar (format_RFC3339 t)" by (simp add: format_RFC3339_def) (simp add: rx_timechar_def)
qed (simp add: format_RFC3339_def)

lemma timechar_not: "list_all rx_timechar s \<Longrightarrow> c \<in> {CHR ''>'', CHR ''<'', CHR ''E''} \<Longrightarrow> c \<notin> set s"
  by (auto simp: list_all_iff rx_timechar_def is_digit_def)

lemma set_Join: "set (Join xs sep) \<subseteq> \<Union> (set ` set xs) \<union> set sep"
  by (induction xs sep rule: Join.induct) auto

definition type_names :: "string list \<Rightarrow> bool" where
  "type_names ts \<longleftrightarrow> list_all (\<lambda>t. t \<noteq> [] \<and> list_all is_word_char t) ts"

lemma types_not:
  assumes "type_names ts" "c \<in> {CHR ''>'', CHR ''<''}"
  shows "c \<notin> set (soql_types ts)"
proof -
  have "c \<notin> set t" if "t \<in> set ts" for t
  proof (rule not_in_all)
    show "list_all is_word_char t" using assms(1) that by (simp add: type_names_def list_all_iff)
  qed (use assms(2) in auto)
  then have "c \<notin> set (soql_type t)" if "t \<in> set ts" for t using that assms(2) by (auto simp: soql_type_def)
  then show ?thesis using set_Join [of "map soql_type ts" "'' OR ''"] assms(2) by (auto simp: soql_types_def)
qed

lemma lower_bounds:
  assumes "type_names (ec_EventTypes conf)"
  shows "FindAllStringSubmatch (reBound ''>='') (logFilesSoql conf lo hi) = [[''CreatedDate'', format_RFC3339 lo]]"
proof -
  have "FindAllStringSubmatch (reBound [CHR ''>'', CHR ''=''])
      ((soql_select @ ''FROM EventLogFile WHERE '' @ soql_interval conf) @ ''CreatedDate'' @ '' '' @ [CHR ''>'', CHR ''='']
        @ '' '' @ format_RFC3339 lo @ ('' AND CreatedDate <= '' @ format_RFC3339 hi @ soql_types (ec_EventTypes conf) @ soql_order))
    = [[''CreatedDate'', format_RFC3339 lo]]"
  proof (rule find_all_bound)
    show "CHR ''>'' \<notin> set (soql_select @ ''FROM EventLogFile WHERE '' @ soql_interval conf)"
      by (simp add: soql_select_def soql_interval_def)
    show "soql_select @ ''FROM EventLogFile WHERE '' @ soql_interval conf
        = (soql_select @ ''FROM EventLogFile WHERE'' @ (if ec_NoInterval conf then [] else
             '' Interval = '' @ [CHR 0x27] @ ''Hourly'' @ [CHR 0x27] @ '' AND'')) @ '' ''"
      by (simp add: soql_interval_def)
    show "CHR ''>'' \<notin> set ('' AND CreatedDate <= '' @ format_RFC3339 hi @ soql_types (ec_EventTypes conf) @ soql_order)"
      using timechar_not [OF date_chars(1)] types_not [OF assms] by (simp add: soql_order_def)
    show "CHR ''>'' \<notin> set (format_RFC3339 lo)" using timechar_not [OF date_chars(1)] by simp
  qed (simp_all add: date_chars is_word_char_def is_letter_def rx_timechar_def is_digit_def)
  then show ?thesis by (simp add: soql_text)
qed

lemma upper_bounds:
  assumes "type_names (ec_EventTypes conf)"
  shows "FindAllStringSubmatch (reBound ''<='') (logFilesSoql conf lo hi) = [[''CreatedDate'', format_RFC3339 hi]]"
proof -
  have "FindAllStringSubmatch (reBound [CHR ''<'', CHR ''=''])
      ((soql_select @ ''FROM EventLogFile WHERE '' @ soql_interval conf @ ''CreatedDate >= '' @ format_RFC3339 lo @ '' AND '')
        @ ''CreatedDate'' @ '' '' @ [CHR ''<'', CHR ''=''] @ '' '' @ format_RFC3339 hi
        @ (soql_types (ec_EventTypes conf) @ soql_order))
    = [[''CreatedDate'', format_RFC3339 hi]]"
  proof (rule find_all_bound)
    show "CHR ''<'' \<notin> set (soql_select @ ''FROM EventLogFile WHERE '' @ soql_interval conf @ ''CreatedDate >= ''
        @ format_RFC3339 lo @ '' AND '')"
      using timechar_not [OF date_chars(1)] by (simp add: soql_select_def soql_interval_def)
    show "soql_select @ ''FROM EventLogFile WHERE '' @ soql_interval conf @ ''CreatedDate >= '' @ format_RFC3339 lo @ '' AND ''
        = (soql_select @ ''FROM EventLogFile WHERE '' @ soql_interval conf @ ''CreatedDate >= '' @ format_RFC3339 lo @ '' AND'')
          @ '' ''" by simp
    show "CHR ''<'' \<notin> set (soql_types (ec_EventTypes conf) @ soql_order)"
      using types_not [OF assms] by (simp add: soql_order_def)
    show "CHR ''<'' \<notin> set (format_RFC3339 hi)" using timechar_not [OF date_chars(1)] by simp
    show "soql_types (ec_EventTypes conf) @ soql_order = []
        \<or> \<not> rx_timechar (hd (soql_types (ec_EventTypes conf) @ soql_order))"
      by (simp add: soql_types_def soql_order_def rx_timechar_def is_digit_def)
  qed (simp_all add: date_chars is_word_char_def is_letter_def)
  then show ?thesis by (simp add: soql_text)
qed

text \<open>The table.\<close>

lemma from_form:
  assumes "m \<in> set (rx_match reFrom st)"
  shows "map lower_char (take 4 (rx_rest st)) = ''from''"
proof -
  obtain m0 m1 where m: "m0 \<in> set (rx_match Wordb st)" "m1 \<in> set (rx_match (rx_lit True ''FROM'') m0)"
    using assms unfolding reFrom_def rx_seq.simps by (blast dest: in_Then)
  have "rx_rest m0 = rx_rest st" using m(1) by (simp split: if_splits)
  moreover obtain w where w: "rx_rest m0 = w @ rx_rest m1" "map lower_char w = map lower_char ''FROM''"
    using in_lit [OF m(2)] by auto
  moreover have "length w = 4" using arg_cong [OF w(2), of length] by simp
  moreover have "map lower_char ''FROM'' = ''from''" by code_simp
  ultimately show ?thesis by (metis append_eq_conv_conj)
qed

lemma from_table: "FindStringSubmatch reFrom (logFilesSoql conf lo hi) = Some [''EventLogFile'']"
proof -
  let ?s = "''FROM EventLogFile WHERE '' @ soql_interval conf @ ''CreatedDate >= ''
     @ format_RFC3339 lo @ '' AND CreatedDate <= '' @ format_RFC3339 hi @ soql_types (ec_EventTypes conf) @ soql_order"
  have check: "list_all (\<lambda>i. map lower_char (take 4 (drop i (soql_select @ ''FROM''))) \<noteq> ''from'') [0..<length soql_select]"
    by code_simp
  have skip: "rx_match reFrom (mk q (drop i soql_select @ ?s) []) = []" if i: "i < length soql_select" for i q
  proof (rule ccontr)
    assume "rx_match reFrom (mk q (drop i soql_select @ ?s) []) \<noteq> []"
    then have "map lower_char (take 4 (drop i soql_select @ ?s)) = ''from''"
      using from_form [of _ "mk q (drop i soql_select @ ?s) []"]
      by (cases "rx_match reFrom (mk q (drop i soql_select @ ?s) [])") auto
    moreover have "drop i soql_select @ ?s = drop i (soql_select @ ''FROM'') @ drop 4 ?s" using i by simp
    moreover have "4 \<le> length (drop i (soql_select @ ''FROM''))" using i by simp
    ultimately have "map lower_char (take 4 (drop i (soql_select @ ''FROM''))) = ''from''"
      using take_within by metis
    then show False using check i by (simp add: list_all_iff)
  qed
  let ?r = "'' WHERE '' @ drop 24 ?s" and ?rx = "rx_seq [rx_lit True ''FROM'', rx_some True rx_space, Cap (rx_some True is_word_char)]"
  have t1: "takes (rx_lit True ''FROM'') (''FROM'' @ '' '' @ ''EventLogFile'' @ ?r) ('' '' @ ''EventLogFile'' @ ?r) []"
    by (rule takes_lit)
  have t2: "takes (rx_some True rx_space) ('' '' @ ''EventLogFile'' @ ?r) (''EventLogFile'' @ ?r) []"
    by (rule takes_some) (simp_all add: rx_space_def)
  have t3: "takes (Cap (rx_some True is_word_char)) (''EventLogFile'' @ ?r) ?r [''EventLogFile'']"
    by (intro takes_Cap takes_some) (simp_all add: is_word_char_def is_letter_def is_digit_def)
  have T: "takes ?rx (''FROM'' @ '' '' @ ''EventLogFile'' @ ?r) ?r ([] @ [] @ [''EventLogFile''] @ [])"
    by (rule takes_seq_Cons [OF t1 takes_seq_Cons [OF t2 takes_seq_Cons [OF t3 takes_seq_Nil]]])
  have s: "''FROM'' @ '' '' @ ''EventLogFile'' @ ?r = ?s" by (simp add: eval_nat_numeral)
  obtain q ms where R: "rx_match ?rx (mk (Some (CHR '' '')) ?s []) = mk q ?r ([] @ [] @ [] @ [''EventLogFile''] @ []) # ms"
    using T unfolding takes_def s by blast
  have "word_at (Some (CHR '' '')) \<noteq> word_at (Some (CHR ''F''))"
    by (simp add: word_at_def is_word_char_def is_letter_def is_digit_def)
  then have "rx_match reFrom (mk (Some (CHR '' '')) ?s []) = mk q ?r [''EventLogFile''] # ms"
    using R by (simp add: reFrom_def rx_next_def del: rx_lit.simps)
  then have "rx_find reFrom (Some (CHR '' '')) ?s = Some (mk q ('' WHERE '' @ drop 24 ?s) [''EventLogFile''])"
    by (simp add: find_mk del: rx_find.simps)
  moreover have "last soql_select = CHR '' ''" "soql_select \<noteq> []" by (simp_all add: soql_select_def)
  ultimately have "rx_find reFrom None (soql_select @ ?s) = Some (mk q ('' WHERE '' @ drop 24 ?s) [''EventLogFile''])"
    using find_skip [of soql_select reFrom ?s None, OF skip] by simp
  then show ?thesis by (simp only: FindStringSubmatch_def soql_text) simp
qed

text \<open>The event types. \<open>type_start\<close> says that a text may be, or go on to be, the start of a match.\<close>

definition type_start :: "string \<Rightarrow> bool" where
  "type_start x \<longleftrightarrow> take 9 x = take (length x) ''EventType'' \<and> (9 < length x \<longrightarrow> rx_space (x ! 9) \<or> x ! 9 = CHR ''='')"

definition no_type :: "string \<Rightarrow> bool" where
  "no_type s \<longleftrightarrow> list_all (\<lambda>i. \<not> type_start (drop i s)) [0..<length s]"

lemma type_form:
  assumes "m \<in> set (rx_match reType st)"
  shows "\<exists>c v. rx_rest st = ''EventType'' @ c # v \<and> (rx_space c \<or> c = CHR ''='')"
proof -
  obtain m1 m2 m3 where m: "m1 \<in> set (rx_match (rx_lit False ''EventType'') st)" "m2 \<in> set (rx_match (Rep True rx_space) m1)"
      "m3 \<in> set (rx_match (rx_lit False ''='') m2)"
    using assms unfolding reType_def rx_seq.simps by (blast dest: in_Then)
  obtain w where r: "rx_rest st = ''EventType'' @ rx_rest m1" "rx_rest m1 = w @ rx_rest m2" "list_all rx_space w"
      "rx_rest m2 = ''='' @ rx_rest m3" using in_lit [OF m(1)] in_Rep [OF m(2)] in_lit [OF m(3)] by auto
  show ?thesis
  proof (cases w)
    case Nil
    then show ?thesis using r by auto
  next
    case (Cons c v)
    then show ?thesis using r by (intro exI [of _ c] exI [of _ "v @ rx_rest m2"]) simp
  qed
qed

lemma type_start_prefix:
  assumes "x @ v = ''EventType'' @ c # u" "rx_space c \<or> c = CHR ''=''"
  shows "type_start x"
proof (cases "length x \<le> 9")
  case True
  have "x = take (length x) (x @ v)" by simp
  also have "\<dots> = take (length x) ''EventType''" unfolding assms(1) by (rule take_within) (use True in simp)
  finally show ?thesis using True by (simp add: type_start_def)
next
  case False
  have "take 9 (x @ v) = ''EventType''" "(x @ v) ! 9 = c" unfolding assms(1) by simp_all
  then show ?thesis using False assms(2) by (simp add: type_start_def nth_append)
qed

lemma no_type_skip: "no_type s \<Longrightarrow> i < length s \<Longrightarrow> rx_match reType (mk q (drop i s @ v) []) = []"
proof (rule ccontr)
  assume s: "no_type s" "i < length s" and "rx_match reType (mk q (drop i s @ v) []) \<noteq> []"
  then obtain m where "m \<in> set (rx_match reType (mk q (drop i s @ v) []))"
    by (cases "rx_match reType (mk q (drop i s @ v) [])") auto
  from type_form [OF this] obtain c u where "drop i s @ v = ''EventType'' @ c # u" "rx_space c \<or> c = CHR ''=''"
    unfolding mk_sel by blast
  from type_start_prefix [OF this] show False using s by (simp add: no_type_def list_all_iff)
qed

lemma no_type_without: "CHR ''E'' \<notin> set s \<Longrightarrow> no_type s"
proof -
  assume E: "CHR ''E'' \<notin> set s"
  have "\<not> type_start (drop i s)" if i: "i < length s" for i
  proof -
    obtain c v where x: "drop i s = c # v" using i by (cases "drop i s") auto
    then have "c \<noteq> CHR ''E''" using E in_set_dropD [of c i s] by auto
    then show ?thesis by (simp add: x type_start_def)
  qed
  then show ?thesis by (simp add: no_type_def list_all_iff)
qed

lemma find_type_skip: "no_type s \<Longrightarrow> \<exists>q. rx_find reType p (s @ v) = rx_find reType q v"
  using find_skip [of s reType v p] no_type_skip by blast

lemma find_type_none: "no_type s \<Longrightarrow> rx_find reType p s = None"
proof (rule find_none)
  fix i q
  assume s: "no_type s" "i \<le> length s"
  show "rx_match reType (mk q (drop i s) []) = []"
  proof (cases "i < length s")
    case False
    then show ?thesis using s type_form [of _ "mk q [] []"] by (cases "rx_match reType (mk q [] [])") auto
  qed (use no_type_skip [OF s(1), of i q "[]"] in simp)
qed

lemma takes_type:
  assumes "t \<noteq> []" "list_all is_word_char t"
  shows "takes reType (soql_type t @ s) s [t]"
proof -
  let ?s1 = "'' '' @ ''='' @ '' '' @ [CHR 0x27] @ t @ [CHR 0x27] @ s"
  have 1: "takes (rx_lit False ''EventType'') (''EventType'' @ ?s1) ?s1 []" by (rule takes_lit)
  have 2: "takes (Rep True rx_space) ?s1 (''='' @ '' '' @ [CHR 0x27] @ t @ [CHR 0x27] @ s) []" by (rule takes_Rep) simp_all
  have 3: "takes (rx_lit False ''='') (''='' @ '' '' @ [CHR 0x27] @ t @ [CHR 0x27] @ s) ('' '' @ [CHR 0x27] @ t @ [CHR 0x27] @ s) []"
    by (rule takes_lit)
  have 4: "takes (Rep True rx_space) ('' '' @ [CHR 0x27] @ t @ [CHR 0x27] @ s) ([CHR 0x27] @ t @ [CHR 0x27] @ s) []"
    by (rule takes_Rep) simp_all
  have 5: "takes (rx_lit False [CHR 0x27]) ([CHR 0x27] @ t @ [CHR 0x27] @ s) (t @ [CHR 0x27] @ s) []" by (rule takes_lit)
  have 6: "takes (Cap (rx_some True is_word_char)) (t @ [CHR 0x27] @ s) ([CHR 0x27] @ s) [t]"
    by (intro takes_Cap takes_some) (use assms in simp_all)
  have 7: "takes (rx_lit False [CHR 0x27]) ([CHR 0x27] @ s) s []" by (rule takes_lit)
  have "takes reType (''EventType'' @ ?s1) s ([] @ [] @ [] @ [] @ [] @ [t] @ [] @ [])"
    unfolding reType_def
    by (rule takes_seq_Cons [OF 1 takes_seq_Cons [OF 2 takes_seq_Cons [OF 3 takes_seq_Cons [OF 4 takes_seq_Cons [OF 5
        takes_seq_Cons [OF 6 takes_seq_Cons [OF 7 takes_seq_Nil]]]]]]])
  then show ?thesis by (simp add: soql_type_def)
qed

lemma all_types:
  assumes "no_type tail"
  shows "type_names ts \<Longrightarrow> ts \<noteq> [] \<Longrightarrow> length ts < n
    \<Longrightarrow> rx_all n reType p (Join (map soql_type ts) '' OR '' @ tail) = map (\<lambda>t. [t]) ts"
proof (induction ts arbitrary: n p)
  case (Cons t ts)
  obtain k where n: "n = Suc k" "length ts < k" using Cons.prems(3) by (cases n) auto
  have t: "t \<noteq> []" "list_all is_word_char t" "type_names ts" using Cons.prems(1) by (simp_all add: type_names_def)
  show ?case
  proof (cases "ts = []")
    case True
    obtain q where "rx_find reType p (soql_type t @ tail) = Some (mk q tail [t])"
      using find_takes [OF takes_type [OF t(1,2)]] by blast
    moreover obtain j where "k = Suc j" using n(2) by (cases k) auto
    ultimately show ?thesis using True find_type_none [OF assms] by (simp add: n(1) del: rx_find.simps)
  next
    case False
    let ?rest = "Join (map soql_type ts) '' OR '' @ tail"
    have J: "Join (map soql_type (t # ts)) '' OR '' @ tail = soql_type t @ '' OR '' @ ?rest"
      using False by (simp add: Join_Cons)
    obtain q where F: "rx_find reType p (soql_type t @ '' OR '' @ ?rest) = Some (mk q ('' OR '' @ ?rest) [t])"
      using find_takes [OF takes_type [OF t(1,2)]] by blast
    have "no_type '' OR ''" by (rule no_type_without) simp
    then obtain q' where "rx_find reType q ('' OR '' @ ?rest) = rx_find reType q' ?rest" using find_type_skip by blast
    moreover obtain j where k: "k = Suc j" using n(2) by (cases k) auto
    ultimately have "rx_all k reType q ('' OR '' @ ?rest) = rx_all k reType q' ?rest" by (simp del: rx_find.simps)
    then show ?thesis using F Cons.IH [OF t(3) False n(2)] unfolding J n(1) by (simp del: rx_find.simps)
  qed
qed simp

lemma length_types: "length ts \<le> length (Join (map soql_type ts) '' OR '')"
proof (induction ts)
  case (Cons t ts)
  then show ?case by (cases "ts = []") (simp_all add: Join_Cons soql_type_def)
qed simp

lemma all_type_skip: "no_type s \<Longrightarrow> \<exists>q. rx_all (Suc n) reType p (s @ v) = rx_all (Suc n) reType q v"
  using find_type_skip [of s p v] by (metis rx_all.simps(2))

lemma query_types:
  assumes "type_names (ec_EventTypes conf)"
  shows "FindAllStringSubmatch reType (logFilesSoql conf lo hi) = map (\<lambda>t. [t]) (ec_EventTypes conf)"
proof -
  let ?A = "soql_select @ ''FROM EventLogFile WHERE '' @ soql_interval conf @ ''CreatedDate >= ''"
  let ?B = "'' AND CreatedDate <= ''" and ?E = "soql_types (ec_EventTypes conf) @ soql_order"
  have "no_type (soql_select @ ''FROM EventLogFile WHERE '' @ ''CreatedDate >= '')" by code_simp
  moreover have "no_type (soql_select @ ''FROM EventLogFile WHERE '' @ (''Interval = '' @ [CHR 0x27] @ ''Hourly'' @ [CHR 0x27]
      @ '' AND '') @ ''CreatedDate >= '')" by code_simp
  ultimately have A: "no_type ?A" by (simp add: soql_interval_def)
  have dates: "no_type (format_RFC3339 t)" for t using timechar_not [OF date_chars(1)] by (intro no_type_without) simp
  have B: "no_type ?B" by (rule no_type_without) simp
  have T: "logFilesSoql conf lo hi = ?A @ format_RFC3339 lo @ ?B @ format_RFC3339 hi @ ?E" by (simp only: soql_text append_assoc)
  obtain q where q: "rx_all (Suc n) reType None (logFilesSoql conf lo hi) = rx_all (Suc n) reType q ?E" for n
  proof -
    obtain q1 where 1: "rx_find reType None (?A @ format_RFC3339 lo @ ?B @ format_RFC3339 hi @ ?E)
        = rx_find reType q1 (format_RFC3339 lo @ ?B @ format_RFC3339 hi @ ?E)" using find_type_skip [OF A] by blast
    obtain q2 where 2: "rx_find reType q1 (format_RFC3339 lo @ ?B @ format_RFC3339 hi @ ?E)
        = rx_find reType q2 (?B @ format_RFC3339 hi @ ?E)" using find_type_skip [OF dates] by blast
    obtain q3 where 3: "rx_find reType q2 (?B @ format_RFC3339 hi @ ?E) = rx_find reType q3 (format_RFC3339 hi @ ?E)"
      using find_type_skip [OF B] by blast
    obtain q4 where "rx_find reType q3 (format_RFC3339 hi @ ?E) = rx_find reType q4 ?E"
      using find_type_skip [OF dates] by blast
    then have "rx_find reType None (logFilesSoql conf lo hi) = rx_find reType q4 ?E" by (simp only: T 1 2 3)
    then show thesis by (intro that [of q4]) (simp only: rx_all.simps)
  qed
  have order: "no_type soql_order" by code_simp
  have close: "no_type ('' )'' @ soql_order)" by code_simp
  have "rx_all (Suc (length (logFilesSoql conf lo hi))) reType q ?E = map (\<lambda>t. [t]) (ec_EventTypes conf)"
  proof (cases "ec_EventTypes conf = []")
    case True
    then show ?thesis using find_type_none [OF order] by (simp add: soql_types_def del: rx_find.simps)
  next
    case False
    let ?J = "Join (map soql_type (ec_EventTypes conf)) '' OR ''"
    have E: "?E = '' AND ( '' @ ?J @ '' )'' @ soql_order" using False by (simp add: soql_types_def)
    have len: "length (ec_EventTypes conf) < Suc (length (logFilesSoql conf lo hi))"
      using length_types [of "ec_EventTypes conf"] by (simp add: T E)
    have "no_type '' AND ( ''" by (rule no_type_without) simp
    then obtain q' where "rx_all (Suc (length (logFilesSoql conf lo hi))) reType q ('' AND ( '' @ ?J @ '' )'' @ soql_order)
        = rx_all (Suc (length (logFilesSoql conf lo hi))) reType q' (?J @ '' )'' @ soql_order)" using all_type_skip by blast
    then show ?thesis using all_types [OF close assms False len] unfolding E by simp
  qed
  then show ?thesis by (simp only: FindAllStringSubmatch_def Suc_eq_plus1 [symmetric] q)
qed

lemma query_bounds_read:
  assumes "type_names (ec_EventTypes conf)" "year_ok lo" "year_ok hi"
  shows "query_bounds (logFilesSoql conf lo hi)
    = Inr [\<lparr>bd_field = ''CreatedDate'', bd_t = truncate_second lo, bd_lower = True\<rparr>,
           \<lparr>bd_field = ''CreatedDate'', bd_t = truncate_second hi, bd_lower = False\<rparr>]"
  using lower_bounds [OF assms(1)] upper_bounds [OF assms(1)] assms(2,3)
  by (simp add: query_bounds_def parseSFTime_RFC3339)

text \<open>The files a listing asks for.\<close>

definition wanted_files :: "EventLogConfig \<Rightarrow> time \<Rightarrow> time \<Rightarrow> mock_server \<Rightarrow> eventLogFile list" where
  "wanted_files conf lo hi s = filter (\<lambda>f. (ec_EventTypes conf = [] \<or> elf_EventType f \<in> set (ec_EventTypes conf))
     \<and> truncate_second lo \<le> elf_CreatedDate f \<and> elf_CreatedDate f \<le> truncate_second hi) (ms_elfs s)"

lemma listing_understood:
  assumes "type_names (ec_EventTypes conf)" "year_ok lo" "year_ok hi"
  obtains records p s' where "query_page M (logFilesSoql conf lo hi) version s = (Inr p, s')"
    "respondPage M records 0 version s = (p, s')"
    "mset records = mset (map (elf_record version) (wanted_files conf lo hi s))"
proof -
  let ?q = "logFilesSoql conf lo hi"
  let ?bounds = "[\<lparr>bd_field = ''CreatedDate'', bd_t = truncate_second lo, bd_lower = True\<rparr>,
     \<lparr>bd_field = ''CreatedDate'', bd_t = truncate_second hi, bd_lower = False\<rparr>]"
  let ?selected = "select_records ?q version ''EventLogFile'' ?bounds s"
  have "map hd (FindAllStringSubmatch reType ?q) = ec_EventTypes conf"
    by (simp add: query_types [OF assms(1)] comp_def)
  then have S: "?selected = map (elf_record version) (wanted_files conf lo hi s)"
    by (simp add: select_records_def EqualFold_def inRange_def Let_def not_less wanted_files_def)
  have order: "mset (order_records ?q ?selected) = mset ?selected" by (simp add: order_records_def split: option.split)
  obtain p s' where page: "respondPage M (order_records ?q ?selected) 0 version s = (p, s')" by fastforce
  then have "query_page M ?q version s = (Inr p, s')"
    using from_table [of conf lo hi] query_bounds_read [OF assms] by (simp add: query_page_def)
  then show thesis using page order unfolding S by (rule that)
qed

section \<open>A listing of the collector\<close>

text \<open>
  The record that a row of a reply decodes to (the JSON number of its length is a double), and the page.
\<close>

definition log_record :: "(payload \<Rightarrow> int \<times> int) \<Rightarrow> payload \<Rightarrow> EventLogfileRecord" where
  "log_record len row =
     (let txt = (\<lambda>k. case str_field row k of None \<Rightarrow> [] | Some v \<Rightarrow> v) in
      \<lparr>lf_Id = txt ''Id'', lf_LogDate = txt ''LogDate'', lf_CreatedDate = txt ''CreatedDate'', lf_LogFile = txt ''LogFile'',
       lf_EventType = txt ''EventType'', lf_Interval = txt ''Interval'',
       lf_Sequence = (case map_of row ''Sequence'' of Some (AInt n) \<Rightarrow> n | _ \<Rightarrow> 0), lf_LogFileLength = len row\<rparr>)"

definition listing_page :: "(payload \<Rightarrow> int \<times> int) \<Rightarrow> mock_page \<Rightarrow> EventLogfileRecord page" where
  "listing_page len p = \<lparr>pg_TotalSize = int (mp_total p), pg_Done = mp_done p, pg_NextRecordsUrl = mp_next p,
     pg_Records = map (log_record len) (mp_records p)\<rparr>"

text \<open>
  The URL of the k-th page; the requests of a listing are answered with these pages, in JSON, while a
  token is in the cache.
\<close>

definition page_url :: "EventLogConfig \<Rightarrow> string \<Rightarrow> mock_page list \<Rightarrow> nat \<Rightarrow> string" where
  "page_url conf q pages k =
     (if k = 0 then queryURL (auth_TokenUrl (ec_Auth conf) @ ''/services/data/v'' @ ec_ApiVer conf @ ''/query'') q
      else auth_TokenUrl (ec_Auth conf) @ mp_next (pages ! (k - 1)))"

definition page_answered ::
  "'c qenv \<Rightarrow> (payload \<Rightarrow> int \<times> int) \<Rightarrow> string \<Rightarrow> nat \<Rightarrow> string \<Rightarrow> mock_page \<Rightarrow> bool" where
  "page_answered E len tok n url p \<longleftrightarrow> (\<exists>body l.
     qe_http E n url tok = Inr \<lparr>hr_StatusCode = 200, hr_Body = body, hr_readErr = None, hr_ContentLength = l\<rparr>
     \<and> qe_decodeLogFiles E body = Inr (listing_page len p))"

definition token_cached :: "'c qenv \<Rightarrow> EventLogConfig \<Rightarrow> string \<Rightarrow> 'c \<Rightarrow> bool" where
  "token_cached E conf tok db \<longleftrightarrow> (\<forall>t. c_get (qe_cache E) t (tokenCacheKey conf) db = (Inr (Some tok), db))"

definition listing_answered ::
  "'c qenv \<Rightarrow> (payload \<Rightarrow> int \<times> int) \<Rightarrow> EventLogConfig \<Rightarrow> string \<Rightarrow> string \<Rightarrow> mock_page list \<Rightarrow> 'c qstate \<Rightarrow> bool" where
  "listing_answered E len conf tok q pages st \<longleftrightarrow> token_cached E conf tok (q_db st)
     \<and> (\<forall>k < length pages. page_answered E len tok (q_requests st + k) (page_url conf q pages k) (pages ! k))"

lemma getJSON_page:
  assumes "token_cached E conf tok (q_db st)" "page_answered E len tok (q_requests st) url p"
  obtains st1 where "Query.getJSON E (qe_decodeLogFiles E) conf url st = (Inr (listing_page len p), st1)"
    "q_db st1 = q_db st" "q_requests st1 = q_requests st + 1"
proof -
  obtain body l where b: "qe_http E (q_requests st) url tok
      = Inr \<lparr>hr_StatusCode = 200, hr_Body = body, hr_readErr = None, hr_ContentLength = l\<rparr>"
    "qe_decodeLogFiles E body = Inr (listing_page len p)" using assms(2) unfolding page_answered_def by blast
  have "getTokenFromCache E conf st = (Some tok, q_tick E st)"
    using assms(1) by (simp add: getTokenFromCache_def db_get_def db_op_def token_cached_def)
  then have "auth E conf st = (Inr tok, q_tick E st)" by (simp add: auth_def)
  moreover have "q_requests (q_tick E st) = q_requests st" "q_db (q_tick E st) = q_db st" by (simp_all add: q_tick_def)
  ultimately show thesis using b
    by (intro that [of "q_tick E ((q_tick E st)\<lparr>q_requests := q_requests st + 1\<rparr>)"])
      (simp_all add: Query.getJSON_def requestWithTimeout_def do_request_def q_tick_def)
qed

text \<open>A chain of answered pages is what \<open>follow_pages\<close> fetches.\<close>

lemma pages_fetched:
  assumes "list_all (\<lambda>p. \<not> mp_done p \<and> mp_next p \<noteq> []) (butlast pages)" "pages \<noteq> []" "mp_done (last pages)"
    and "token_cached E conf tok (q_db st)" "page_answered E len tok (q_requests st) url (hd pages)"
    and "\<And>k. Suc k < length pages \<Longrightarrow> page_answered E len tok (q_requests st + Suc k)
          (auth_TokenUrl (ec_Auth conf) @ mp_next (pages ! k)) (pages ! Suc k)"
  shows "\<exists>st'. fetched E (qe_decodeLogFiles E) conf url st (map (listing_page len) pages) st'"
  using assms
proof (induction pages arbitrary: url st)
  case (Cons p pages)
  obtain st1 where G: "Query.getJSON E (qe_decodeLogFiles E) conf url st = (Inr (listing_page len p), st1)"
    "q_db st1 = q_db st" "q_requests st1 = q_requests st + 1"
    using getJSON_page [OF Cons.prems(4), of len url p] Cons.prems(5) by auto
  show ?case
  proof (cases "pages = []")
    case True
    then show ?thesis using fetched.last_page [OF G(1)] Cons.prems(3) by (auto simp: listing_page_def)
  next
    case False
    have p: "\<not> mp_done p" "mp_next p \<noteq> []" using Cons.prems(1) False by simp_all
    have "\<exists>st'. fetched E (qe_decodeLogFiles E) conf (auth_TokenUrl (ec_Auth conf) @ mp_next p) st1 (map (listing_page len) pages) st'"
    proof (rule Cons.IH)
      show "list_all (\<lambda>p. \<not> mp_done p \<and> mp_next p \<noteq> []) (butlast pages)" "mp_done (last pages)"
        using Cons.prems(1,3) False by simp_all
      show "page_answered E len tok (q_requests st1) (auth_TokenUrl (ec_Auth conf) @ mp_next p) (hd pages)"
        using Cons.prems(6) [of 0] False G(3) by (simp add: hd_conv_nth)
      show "Suc k < length pages \<Longrightarrow> page_answered E len tok (q_requests st1 + Suc k)
          (auth_TokenUrl (ec_Auth conf) @ mp_next (pages ! k)) (pages ! Suc k)" for k
        using Cons.prems(6) [of "Suc k"] G(3) by simp
    qed (use False G(2) Cons.prems(4) in simp_all)
    then obtain st' where F: "fetched E (qe_decodeLogFiles E) conf (auth_TokenUrl (ec_Auth conf) @ mp_next p) st1
      (map (listing_page len) pages) st'" by blast
    have "fetched E (qe_decodeLogFiles E) conf url st (listing_page len p # map (listing_page len) pages) st'"
      by (rule fetched.next_page [OF G(1)]) (use p F in \<open>simp_all add: listing_page_def\<close>)
    then show ?thesis by (auto simp only: list.map)
  qed
qed simp

lemma read_pages_chain:
  "read_pages M version others n p s = Some pages \<Longrightarrow> list_all (\<lambda>p. mp_next p \<noteq> []) (butlast pages) \<and> pages \<noteq> [] \<and> length pages \<le> n"
proof (induction n arbitrary: p s pages)
  case (Suc n)
  show ?case
  proof (cases "mp_done p")
    case False
    then obtain p' s1 rest where "mp_next p \<noteq> []" "read_pages M version others n p' s1 = Some rest" "pages = p # rest"
      using Suc.prems by (auto split: if_splits prod.splits sum.splits)
    then show ?thesis using Suc.IH by fastforce
  qed (use Suc.prems in auto)
qed simp

lemma read_listing:
  assumes "type_names (ec_EventTypes conf)" "year_ok lo" "year_ok hi" "polite others"
    and "0 < mo_QueryPageSize (ms_opts s)" "\<not> mo_TruncateQueryResults (ms_opts s)"
  obtains pages where "read_query M version others (length (ms_elfs s) + 1) (logFilesSoql conf lo hi) s = Some pages"
    "mset (concat (map mp_records pages)) = mset (map (elf_record version) (wanted_files conf lo hi s))"
    "list_all (\<lambda>p. \<not> mp_done p \<and> mp_next p \<noteq> []) (butlast pages)" "pages \<noteq> []" "mp_done (last pages)"
    "length pages \<le> length (ms_elfs s) + 1"
proof -
  obtain records p s' where Q: "query_page M (logFilesSoql conf lo hi) version s = (Inr p, s')"
    "respondPage M records 0 version s = (p, s')"
    "mset records = mset (map (elf_record version) (wanted_files conf lo hi s))"
    using listing_understood [OF assms(1-3)] by blast
  have "length records = length (wanted_files conf lo hi s)" using arg_cong [OF Q(3), of size] by simp
  also have "\<dots> \<le> length (ms_elfs s)" by (simp add: wanted_files_def)
  finally have len: "length records - 0 < length (ms_elfs s) + 1" by simp
  have R: "respondPage M records (int 0) version s = (p, s')" using Q(2) by simp
  obtain pages where P: "read_pages M version others (length (ms_elfs s) + 1) p s' = Some pages"
    "concat (map mp_records pages) = records" "list_all (\<lambda>p. \<not> mp_done p) (butlast pages)" "mp_done (last pages)"
    using read_pages_from [OF assms(4) R _ assms(5,6) len] by auto
  note chain = read_pages_chain [OF P(1)]
  show thesis
    by (rule that [of pages]) (use P Q(1,3) chain in \<open>simp_all add: read_query_def list_all_iff\<close>)
qed

text \<open>
  C36: the collector's listing is the mock's. When the requests of a listing are answered with the pages the
  mock serves for its SOQL statement, whatever other requests the mock serves in between, the collector
  gets exactly the log files of the asked types whose CreatedDate is in the closed range of the two
  instants, cut to seconds: the regular expressions of the mock read the statement back, the cursors lead
  through all pages, and the collector follows them to the end.
\<close>

theorem listing_is_exact:
  assumes "type_names (ec_EventTypes conf)" "year_ok lo" "year_ok hi" "polite others"
    and "0 < mo_QueryPageSize (ms_opts s)" "\<not> mo_TruncateQueryResults (ms_opts s)" "length (ms_elfs s) < maxPages"
    and "\<And>pages. read_query M (''v'' @ ec_ApiVer conf) others (length (ms_elfs s) + 1) (logFilesSoql conf lo hi) s = Some pages
           \<Longrightarrow> listing_answered E len conf tok (logFilesSoql conf lo hi) pages st"
  shows "\<exists>rs st'. RequestLogFiles E conf lo hi st = (Inr rs, st')
    \<and> mset rs = mset (map (\<lambda>f. log_record len (elf_record (''v'' @ ec_ApiVer conf) f)) (wanted_files conf lo hi s))"
proof -
  let ?q = "logFilesSoql conf lo hi" and ?v = "''v'' @ ec_ApiVer conf"
  obtain pages where P: "read_query M ?v others (length (ms_elfs s) + 1) ?q s = Some pages"
    "mset (concat (map mp_records pages)) = mset (map (elf_record ?v) (wanted_files conf lo hi s))"
    "list_all (\<lambda>p. \<not> mp_done p \<and> mp_next p \<noteq> []) (butlast pages)" "pages \<noteq> []" "mp_done (last pages)"
    "length pages \<le> length (ms_elfs s) + 1"
    using read_listing [OF assms(1-6)] by blast
  have A: "token_cached E conf tok (q_db st)"
    "k < length pages \<Longrightarrow> page_answered E len tok (q_requests st + k) (page_url conf ?q pages k) (pages ! k)" for k
    using assms(8) [OF P(1)] by (simp_all add: listing_answered_def)
  have first: "page_answered E len tok (q_requests st) (page_url conf ?q pages 0) (hd pages)"
    using A(2) [of 0] P(4) by (simp add: hd_conv_nth)
  have more: "page_answered E len tok (q_requests st + Suc k) (auth_TokenUrl (ec_Auth conf) @ mp_next (pages ! k)) (pages ! Suc k)"
    if "Suc k < length pages" for k using A(2) [OF that] by (simp add: page_url_def)
  obtain st' where F: "fetched E (qe_decodeLogFiles E) conf (page_url conf ?q pages 0) st (map (listing_page len) pages) st'"
    using pages_fetched [OF P(3-5) A(1) first more] by blast
  let ?rs = "concat (map pg_Records (map (listing_page len) pages))"
  have "length (map (listing_page len) pages) \<le> maxPages" using P(6) assms(7) by simp
  then have "follow_pages E (qe_decodeLogFiles E) conf maxPages (page_url conf ?q pages 0) [] st = (Inr ?rs, st')"
    using F by (subst follow_pages_iff) (auto simp: page_url_def queryURL_def)
  then have "RequestLogFiles E conf lo hi st = (Inr ?rs, st')" by (simp add: RequestLogFiles_def page_url_def)
  moreover have rs: "?rs = map (log_record len) (concat (map mp_records pages))"
    by (simp add: listing_page_def comp_def map_concat)
  have "mset ?rs = mset (map (log_record len) (map (elf_record ?v) (wanted_files conf lo hi s)))"
    unfolding rs mset_map [of "log_record len"] P(2) by simp
  ultimately show ?thesis by (auto simp: comp_def)
qed

text \<open>Two files of different types, of which the statement asks for one.\<close>

definition wit_log_files :: "eventLogFile list" where
  "wit_log_files = map (\<lambda>(i, et). \<lparr>elf_Id = i, elf_EventType = et, elf_CreatedDate = 5, elf_LogDate = 0, elf_Interval = ''Hourly'',
     elf_Sequence = 1, elf_csv = [], elf_logDateRaw = [], elf_deleted = False\<rparr>) [(''a'', ''Login''), (''b'', ''URI'')]"

definition wit_listing_env :: "mock_page list \<Rightarrow> unit qenv" where
  "wit_listing_env pages =
     \<lparr>qe_cache = \<lparr>c_get = (\<lambda>t k c. (Inr (Some ''tok''), c)), c_set = (\<lambda>t k v c. (None, c)), c_persist = (\<lambda>t k v c. (None, c)),
        c_del = (\<lambda>t k c. (None, c))\<rparr>,
      qe_login = (\<lambda>n. Inr ''tok''),
      qe_http = (\<lambda>n url tok. Inr \<lparr>hr_StatusCode = 200, hr_Body = replicate n (CHR ''x''), hr_readErr = None, hr_ContentLength = int n\<rparr>),
      qe_latency = (\<lambda>n. 1), qe_decodeLogFiles = (\<lambda>body. Inr (listing_page (\<lambda>row. (0, 1)) (pages ! length body))),
      qe_decodeRows = (\<lambda>body. Inl EOF), qe_decodeLimits = (\<lambda>body. Inl EOF)\<rparr>"

lemma listing_is_exact_witness:
  "\<exists>pages rs st'. RequestLogFiles (wit_listing_env pages) (wit_ec\<lparr>ec_EventTypes := [''Login'']\<rparr>) 0 1000000000
       \<lparr>q_db = (), q_now = 0, q_ticks = 0, q_logins = 0, q_requests = 0\<rparr> = (Inr rs, st')
     \<and> map lf_Id rs = [''a'']"
proof -
  let ?conf = "wit_ec\<lparr>ec_EventTypes := [''Login'']\<rparr>" and ?s = "wit_mock\<lparr>ms_elfs := wit_log_files\<rparr>"
  let ?st = "\<lparr>q_db = (), q_now = 0, q_ticks = 0, q_logins = 0, q_requests = 0\<rparr>" and ?len = "\<lambda>row. (0, 1)"
  let ?q = "logFilesSoql ?conf 0 1000000000" and ?v = "''v'' @ ec_ApiVer ?conf"
  have names: "type_names (ec_EventTypes ?conf)" by (simp add: type_names_def is_word_char_def is_letter_def)
  have years: "year_ok 0" "year_ok 1000000000" by (code_simp, code_simp)
  have cut: "truncate_second 0 = 0" "truncate_second 1000000000 = 1000000000" by (code_simp, code_simp)
  have polite: "polite (\<lambda>n s. s)" by (simp add: polite_def)
  have opts: "0 < mo_QueryPageSize (ms_opts ?s)" "\<not> mo_TruncateQueryResults (ms_opts ?s)"
    by (simp_all add: wit_mock_def mock_defaults_def or_default_def)
  have few: "length (ms_elfs ?s) < maxPages" by (simp add: wit_log_files_def maxPages_def)
  define ps where "ps = the (read_query wit_mock_random ?v (\<lambda>n s. s) (length (ms_elfs ?s) + 1) ?q ?s)"
  have ans: "listing_answered (wit_listing_env ps) ?len ?conf ''tok'' ?q pages ?st"
    if R: "read_query wit_mock_random ?v (\<lambda>n s. s) (length (ms_elfs ?s) + 1) ?q ?s = Some pages" for pages
  proof -
    have "pages = ps" using R by (simp add: ps_def)
    then show ?thesis
      by (simp add: listing_answered_def token_cached_def page_answered_def wit_listing_env_def)
  qed
  have wanted: "wanted_files ?conf 0 1000000000 ?s = [hd wit_log_files]"
    by (simp add: wanted_files_def cut wit_log_files_def)
  obtain rs st' where "RequestLogFiles (wit_listing_env ps) ?conf 0 1000000000 ?st = (Inr rs, st')"
    "mset rs = mset (map (\<lambda>f. log_record ?len (elf_record ?v f)) [hd wit_log_files])"
    using listing_is_exact [OF names years polite opts few ans] unfolding wanted by blast
  moreover from this(2) have "map lf_Id rs = [''a'']"
    by (simp add: log_record_def elf_record_def Let_def str_field_def wit_log_files_def)
  ultimately show ?thesis by (intro exI [of _ ps] exI [of _ rs] exI [of _ st'] conjI)
qed

text \<open>
  C38: dates survive the text form. For all instants of the years 0 to 9999, a CreatedDate or LogDate that
  the service prints is read by the collector to the millisecond, the TIMESTAMP of a log file row too, and
  the bounds of a query to the second.
\<close>

theorem dates_read_back:
  assumes "year_ok t"
  shows "parseSFDate (format_sf t) = Some (t - t mod 1000000)
    \<and> parse_compact (format_compact_ms t) = Some (t - t mod 1000000)
    \<and> parseSFTime (format_RFC3339 t) = Inr (truncate_second t)"
  using parseSFDate_format_sf [OF assms] parse_format_compact [OF assms] parseSFTime_RFC3339 [OF assms] by blast

lemma dates_read_back_witness: "parseSFDate (format_sf 1234567890) = Some 1234000000"
proof -
  have "year_ok 1234567890" by code_simp
  from dates_read_back [OF this] show ?thesis by simp
qed

end
