(* ===== verification/Spec2Isabelle.thy ===== *)
theory Spec2Isabelle
  imports Subscriber_Faults Archive_Properties Csv_Quoted Query_Properties EventLog_Service Verify_Archive PubSub_Client Redis_Client
    Commands Mock_Query
begin

text \<open>
  A verification library of salesforce-s3-archiver: two collectors that copy Salesforce event data into an
  object store, the verifier of the archive they leave, and the mock of Salesforce they are tested with.
  Paths are relative to \<^verbatim>\<open>src/\<close>; \<^verbatim>\<open>stream\<close> and \<^verbatim>\<open>eventlog\<close> are packages of \<^verbatim>\<open>internal/integration\<close>.

  \<^bold>\<open>The program.\<close> The stream collector (\<^verbatim>\<open>cmd/sf-archive-stream\<close>) runs one subscriber for each Pub/Sub topic.
  A subscriber takes a lease on its topic, loads the replay position, receives events over gRPC, decodes
  them with their Avro schema, writes batches to the archive and moves the position after each durable
  write. The log file collector (\<^verbatim>\<open>cmd/sf-archive-eventlog\<close>) polls the REST service for log files, custom
  queries and org limits, and keeps watermarks and de-duplication markers in a cache. Both write through an
  archive sink: a compressed object, then its manifest. The verifier (\<^verbatim>\<open>cmd/sf-archive-verify\<close>) checks every
  object against its manifest and, given one, against a ledger of what the source has sent.

  \<^bold>\<open>Theories and the code they model.\<close>

  \<^item> \<open>GoBase\<close>, \<open>GoFormat\<close>, \<open>GoTime\<close>, \<open>GoTime_Dates\<close>, \<open>GoSha256\<close>: the prelude. Bytes as characters, errors as the tree \<open>goerror\<close>,
    fallible results as sums, contexts as optional deadlines, instants in nanoseconds; number and date
    formats, hexadecimal and SHA-256 on 32-bit words.
  \<^item> \<open>Archive\<close>, \<open>Encode\<close>: \<^verbatim>\<open>internal/archive/archive.go\<close> and \<^verbatim>\<open>encode.go\<close>, the records, metadata, manifests, keys
    and the encoder. \<open>Sinks\<close>, \<open>Sink_Local\<close>, \<open>Sink_S3\<close>: the three sinks (\<^verbatim>\<open>memory.go\<close>, \<^verbatim>\<open>local.go\<close>, \<^verbatim>\<open>s3.go\<close>) and
    their contracts, the locales \<open>archive_sink\<close> and \<open>named_sink\<close>. \<open>Archive_Properties\<close>: their common
    specification, and what an object key looks like.
  \<^item> \<open>Checkpoint\<close>: \<^verbatim>\<open>internal/checkpoint\<close>, both stores, with the contract \<open>lease_store\<close>. The Redis store is the
    server's map from keys to values with expiry, and the four scripts that run on it.
  \<^item> \<open>Cache\<close>: \<^verbatim>\<open>internal/cache\<close>, with the contract \<open>sound_cache\<close>. \<open>Config\<close>: \<^verbatim>\<open>internal/config\<close> and the checks of
    \<^verbatim>\<open>stream/config.go\<close> and \<^verbatim>\<open>eventlog/config.go\<close>. \<open>Redis_Client\<close>: \<^verbatim>\<open>internal/cache/redis/client.go\<close> and the
    construction of caches and sinks.
  \<^item> \<open>OAuth\<close>: \<^verbatim>\<open>internal/oauth\<close> and the URL encoding of \<^verbatim>\<open>net/url\<close>.
  \<^item> \<open>Subscriber\<close>: \<^verbatim>\<open>stream/subscriber.go\<close>, function by function; the record \<open>sub\<close> is the code's struct with its
    locals that outlive a call, \<open>env\<close> its dependencies. \<open>Subscriber_Safety\<close>: its invariant, in the locale
    \<open>stream_deps\<close>. \<open>Subscriber_Faults\<close>: batches, retries, log-ins and the renewal of the lease.
    \<open>Stream_Service\<close>: the interpretations on the S3 and the local sink. \<open>Stream_Fanout\<close>: \<^verbatim>\<open>stream/service.go\<close>,
    the goroutines of all topics as one transition system.
  \<^item> \<open>Flatten\<close>, \<open>PubSub_Client\<close>: \<^verbatim>\<open>stream/pubsub/grpcclient\<close>, the schemas, the flattening of Avro values, the
    session and the schema cache.
  \<^item> \<open>Query\<close>, \<open>Query_Properties\<close>: \<^verbatim>\<open>eventlog/query\<close>, SOQL, requests, paging, downloads. \<open>Csv\<close>, \<open>Csv_Quoted\<close>: the
    readers of log files (\<^verbatim>\<open>encoding/csv\<close> and the raw lines of the quarantine). \<open>EventLog\<close>:
    \<^verbatim>\<open>eventlog/collector.go\<close> and \<^verbatim>\<open>quarantine.go\<close>. \<open>EventLog_Safety\<close>, \<open>EventLog_Queries\<close>: what a poll guarantees, in
    the locales \<open>query_deps\<close> and \<open>event_deps\<close>; \<open>EventLog_Service\<close>: their interpretations.
  \<^item> \<open>Verify\<close>, \<open>Verify_Report\<close>, \<open>Verify_Archive\<close>: \<^verbatim>\<open>cmd/sf-archive-verify\<close>, what its report means, and its
    agreement with the writer.
  \<^item> \<open>Commands\<close>: the two collectors' \<^verbatim>\<open>main.go\<close>, with the reset of checkpoints and the polling loop.
  \<^item> \<open>Mock_Server\<close>, \<open>Mock_PubSub\<close>, \<open>Mock_Rest\<close>, \<open>Mock_Admin\<close>: \<^verbatim>\<open>internal/mocksf\<close> (\<^verbatim>\<open>server.go\<close> and \<^verbatim>\<open>oauth.go\<close>,
    \<^verbatim>\<open>pubsub.go\<close>, \<^verbatim>\<open>rest.go\<close>, \<^verbatim>\<open>admin.go\<close>) and \<^verbatim>\<open>cmd/mock-salesforce\<close>. \<open>Mock_Run\<close>: the subscriber of the stream
    collector run against the mock. \<open>Mock_Query\<close>: the listing of the log file collector answered by the mock.
\<close>

text \<open>
  \<^bold>\<open>What is shown.\<close>

  \<^item> No event is lost by the stream collector: everything up to the stored position is in a manifested
    object, whatever fails and whenever the process stops, and with the local sink also after a crash of
    the machine. The proof is one induction over a session from three contracts, those of the sink,
    of the lease and of the stream of responses. The lemmas on Redis say that the holder of a lease is the
    only one that moves the position.
  \<^item> The failures of the subscriber are bounded and reported: batches, commit budgets, log-ins, the last
    batch, the renewal, and the end of the service with all its topics.
  \<^item> A log file that was listed is archived, quarantined or replaced by a tombstone, or the watermark stays
    before it; rows of custom queries are marked only when archived. The contract of the cache is proved
    for both caches, with key prefixes.
  \<^item> The verifier accepts what the writer leaves, and its exit code 0 means what it says, in any order of
    its workers.
  \<^item> The mock keeps the contract of a Pub/Sub stream while demand does not arrive in the middle of a turn,
    so the collector's theorem holds for a run against it; its ledger is exact. It reads the log file
    collector's SOQL statements back, so a listing holds exactly the files of the asked types and dates.
  \<^item> The parsers, encoders and decoders are inverse to each other, or accept exactly what they should:
    CSV, forms and URLs, Avro values, dates, replay IDs, identifiers.

  \<^bold>\<open>Time, concurrency and failures.\<close> A call takes at least one nanosecond; a context is the instant at which
  it ends, if any. The outcome of a request, of a file-system step or of an upload is an oracle indexed by
  its number, so a theorem about a run holds for every sequence of failures. A step of a store under its
  mutex, or a script of Redis, is atomic; what other processes do in between is the state the next step
  finds. A \<^verbatim>\<open>select\<close> is the sequence of receptions it makes, in any order.

  \<^bold>\<open>Fuel and bounds.\<close> \<open>Run\<close> takes the number of sessions it may start and \<open>poll_loop\<close> the number of polls: both
  loops run until the process is stopped, and the theorems hold for every number; a run
  that has ended is the same with more of them (lemma \<open>Run_more\<close>). \<open>follow_pages\<close> counts down the code's own limit of 10000 pages. The waiting for a lease is
  the list of its attempts, the reset of a checkpoint makes at most seven. The regular expressions of the
  mock get the length of the text as fuel: a match takes at least one byte. \<open>read_pages\<close> gets the number of
  records and one: a page that is not the last has at least one. The other loops are total, by a measure
  where the recursion is not structural; the commit loop by the time that is left of its budget.

  \<^bold>\<open>Parameters.\<close> JSON, gzip, YAML, the Avro codec, X.509, the AWS SDK, gRPC, the S3 and Redis services beyond
  the commands the scripts use, RSA signatures and the random source are arguments, with what the code
  relies on as hypotheses (\<open>codec_law\<close>, \<open>serves\<close>, \<open>feed_ok\<close>); each theorem with such a hypothesis has a witness
  with a concrete function.

  \<^bold>\<open>Not modelled.\<close> Log lines, Prometheus counters, flag parsing, signals and printing have no effect on the
  archive. The listeners, the connection pools and the tickers of the mock are library calls.
  \<^verbatim>\<open>strings.ToLower\<close> and \<^verbatim>\<open>EqualFold\<close> fold ASCII letters only. The generated protobuf code is left out.
\<close>

end
